(* ===== verification/Prelude.thy ===== *)
theory Prelude
  imports Main "HOL-Library.Word"
begin

text \<open>
  Shared vocabulary of the development: the result type of a run of C++ code, C arrays with
  their bounds, little-endian storage of fixed-width integers, and the bit arithmetic of the
  sensor masks. Nothing in this theory is specific to the sensor HAL.
\<close>

unbundle bit_operations_syntax

named_theorems run_simps \<open>evaluation of sequenced runs\<close>
named_theorems array_simps \<open>reading and writing C arrays\<close>

section \<open>Runs\<close>

text \<open>
  A run of a piece of code either has not finished when the recorded behaviour of the kernel and
  of the other threads ends (\<open>None\<close>), or it stopped abnormally (\<open>Inl\<close>: undefined behaviour, or
  \<open>_exit\<close>), or it returned (\<open>Inr\<close>).
\<close>

datatype ub =
    Array_Index      \<comment> \<open>access outside an array or a buffer\<close>
  | Shift_Range      \<comment> \<open>shift by a negative amount or by the width or more\<close>
  | Null_Deref       \<comment> \<open>null pointer dereference\<close>
  | Use_After_Free   \<comment> \<open>access to a deleted object\<close>
  | Empty_Front      \<comment> \<open>front() of an empty std::queue\<close>
  | Div_By_Zero      \<comment> \<open>integer division or remainder by zero\<close>
  | Mutex_Misuse     \<comment> \<open>locking a mutex again, or unlocking a mutex that is not held\<close>

datatype stop = UB ub | Exit int

type_synonym 'a run = "(stop + 'a) option"

abbreviation ok :: "'a \<Rightarrow> 'a run" where
  "ok x \<equiv> Some (Inr x)"

abbreviation fault :: "ub \<Rightarrow> 'a run" where
  "fault u \<equiv> Some (Inl (UB u))"

abbreviation exits :: "int \<Rightarrow> 'a run" where
  "exits c \<equiv> Some (Inl (Exit c))"

definition bindr :: "'a run \<Rightarrow> ('a \<Rightarrow> 'b run) \<Rightarrow> 'b run" where
  "bindr m f = Option.bind m (\<lambda>r. case r of Inl e \<Rightarrow> Some (Inl e) | Inr x \<Rightarrow> f x)"

lemma bindr_ok [simp, run_simps]: "bindr (ok x) f = f x"
  by (simp add: bindr_def)

lemma bindr_stop [simp, run_simps]: "bindr (Some (Inl e)) f = Some (Inl e)"
  by (simp add: bindr_def)

lemma bindr_None [simp, run_simps]: "bindr None f = None"
  by (simp add: bindr_def)

lemma bindr_eq_ok: "bindr m f = ok y \<longleftrightarrow> (\<exists>x. m = ok x \<and> f x = ok y)"
  by (cases m) (auto simp: bindr_def split: sum.splits)

lemma bindr_okE:
  assumes "bindr m f = ok y"
  obtains x where "m = ok x" and "f x = ok y"
  using assms by (auto simp: bindr_eq_ok)

lemma bindr_assoc: "bindr (bindr m f) g = bindr m (\<lambda>x. bindr (f x) g)"
  by (cases m) (auto simp: bindr_def split: sum.splits)

lemma bindr_mono [partial_function_mono]:
  assumes "mono_option B" and "\<And>y. mono_option (\<lambda>f. C y f)"
  shows "mono_option (\<lambda>f. bindr (B f) (\<lambda>y. C y f))"
  unfolding bindr_def
proof (rule bind_mono)
  show "mono_option B" by (rule assms(1))
  show "mono_option (\<lambda>f. case r of Inl e \<Rightarrow> Some (Inl e) | Inr x \<Rightarrow> C x f)" for r
    by (cases r) (auto intro: assms(2) option.const_mono)
qed

text \<open>A run that stops only by returning a value satisfying \<open>P\<close>, if it stops at all.\<close>

definition safe_run :: "'a run \<Rightarrow> ('a \<Rightarrow> bool) \<Rightarrow> bool" where
  "safe_run m P = (case m of None \<Rightarrow> True | Some (Inl e) \<Rightarrow> False | Some (Inr x) \<Rightarrow> P x)"

lemma safe_run_ok [simp]: "safe_run (ok x) P = P x"
  by (simp add: safe_run_def)

lemma safe_run_None [simp]: "safe_run None P"
  by (simp add: safe_run_def)

lemma safe_run_stop [simp]: "\<not> safe_run (Some (Inl e)) P"
  by (simp add: safe_run_def)

lemma safe_run_bindr: "safe_run (bindr m f) P = safe_run m (\<lambda>x. safe_run (f x) P)"
  by (cases m) (auto simp: bindr_def safe_run_def split: sum.splits)

lemma safe_run_mono: "safe_run m P \<Longrightarrow> (\<And>x. m = ok x \<Longrightarrow> P x \<Longrightarrow> Q x) \<Longrightarrow> safe_run m Q"
  by (auto simp: safe_run_def split: option.splits sum.splits)

lemma safe_runD: "safe_run m P \<Longrightarrow> m = ok x \<Longrightarrow> P x"
  by simp

text \<open>A run that comes to an end, whether with a value or with a fault.\<close>

definition returns :: "'a run \<Rightarrow> bool" where
  "returns m \<longleftrightarrow> m \<noteq> None"

lemma returns_simps [simp]: "returns (Some r)" "\<not> returns None"
  by (simp_all add: returns_def)

lemma returns_map [simp]: "returns (map_option f m) = (m \<noteq> None)"
  by (simp add: returns_def)

lemma returns_bindr [intro!]: "returns m \<Longrightarrow> (\<And>x. m = ok x \<Longrightarrow> returns (f x)) \<Longrightarrow> returns (bindr m f)"
  by (cases m) (auto simp: bindr_def returns_def split: sum.splits)

section \<open>C arrays\<close>

text \<open>
  An array of known size is a list; an index is a C \<open>int\<close>. Reading or writing outside the bounds
  is undefined behaviour, which the model reports instead of computing a value.
\<close>

definition arr_get :: "'a list \<Rightarrow> int \<Rightarrow> 'a run" where
  "arr_get xs i = (if 0 \<le> i \<and> i < int (length xs) then ok (xs ! nat i) else fault Array_Index)"

definition arr_set :: "'a list \<Rightarrow> int \<Rightarrow> 'a \<Rightarrow> 'a list run" where
  "arr_set xs i v = (if 0 \<le> i \<and> i < int (length xs) then ok (xs[nat i := v]) else fault Array_Index)"

lemma arr_get_ok [array_simps]: "0 \<le> i \<Longrightarrow> i < int (length xs) \<Longrightarrow> arr_get xs i = ok (xs ! nat i)"
  by (simp add: arr_get_def)

lemma arr_set_ok [array_simps]: "0 \<le> i \<Longrightarrow> i < int (length xs) \<Longrightarrow> arr_set xs i v = ok (xs[nat i := v])"
  by (simp add: arr_set_def)

lemma arr_get_eq_ok: "arr_get xs i = ok v \<longleftrightarrow> 0 \<le> i \<and> i < int (length xs) \<and> v = xs ! nat i"
  by (auto simp: arr_get_def)

lemma arr_set_eq_ok: "arr_set xs i v = ok ys \<longleftrightarrow> 0 \<le> i \<and> i < int (length xs) \<and> ys = xs[nat i := v]"
  by (auto simp: arr_set_def)

lemma length_filter_update:
  "i < length xs \<Longrightarrow>
     length (filter P (xs[i := v])) + (if P (xs ! i) then 1 else 0) = length (filter P xs) + (if P v then 1 else 0)"
proof (induction xs arbitrary: i)
  case (Cons x xs)
  show ?case
  proof (cases i)
    case (Suc j)
    with Cons.prems Cons.IH [of j] show ?thesis by (auto split: if_splits)
  qed simp
qed simp

text \<open>Copying a run of bytes into a buffer (\<open>memcpy\<close>, or what \<open>recv\<close> stores).\<close>

definition buf_write :: "'a list \<Rightarrow> nat \<Rightarrow> 'a list \<Rightarrow> 'a list run" where
  "buf_write buf p ds =
     (if p + length ds \<le> length buf
      then ok (take p buf @ ds @ drop (p + length ds) buf) else fault Array_Index)"

lemma buf_write_Nil [simp]: "p \<le> length buf \<Longrightarrow> buf_write buf p [] = ok buf"
  by (simp add: buf_write_def)

lemma buf_write_ok [array_simps]:
  "p + length ds \<le> length buf \<Longrightarrow>
   buf_write buf p ds = ok (take p buf @ ds @ drop (p + length ds) buf)"
  by (simp add: buf_write_def)

lemma buf_write_length: "buf_write buf p ds = ok buf' \<Longrightarrow> length buf' = length buf"
  by (auto simp: buf_write_def split: if_splits)

text \<open>Two adjacent writes are one write of the concatenation.\<close>

lemma buf_write_append:
  assumes "p + length ds + length es \<le> length buf"
  shows "bindr (buf_write buf p ds) (\<lambda>b. buf_write b (p + length ds) es) = buf_write buf p (ds @ es)"
  using assms by (simp add: buf_write_def algebra_simps)

section \<open>Little-endian storage\<close>

text \<open>
  The wire messages and the event buffers hold integers and floats in the byte order of the
  targets of the HAL (x86-64 and AArch64, both little-endian). A \<open>float\<close> is handled by its bits.
\<close>

type_synonym byte = "8 word"
type_synonym u32 = "32 word"
type_synonym u64 = "64 word"

definition le_bytes :: "nat \<Rightarrow> 'a::len word \<Rightarrow> byte list" where
  "le_bytes n w = map (\<lambda>i. ucast (drop_bit (8 * i) w)) [0..<n]"

fun le_word :: "byte list \<Rightarrow> 'a::len word" where
  "le_word [] = 0"
| "le_word (b # bs) = ucast b OR push_bit 8 (le_word bs)"

lemma length_le_bytes [simp]: "length (le_bytes n w) = n"
  by (simp add: le_bytes_def)

lemma bit_le_word:
  "bit (le_word bs :: 'a::len word) j \<longleftrightarrow>
     j < LENGTH('a) \<and> j div 8 < length bs \<and> bit (bs ! (j div 8)) (j mod 8)"
proof (induction bs arbitrary: j)
  case Nil
  then show ?case by simp
next
  case (Cons b bs)
  show ?case
  proof (cases "j < 8")
    case True
    then show ?thesis by (auto simp: bit_or_iff bit_push_bit_iff bit_ucast_iff)
  next
    case False
    then obtain k where j: "j = k + 8" by (metis add.commute le_add_diff_inverse not_less)
    have "\<not> bit b (k + 8)" by (auto dest: bit_imp_le_length)
    moreover have "(k + 8) div 8 = Suc (k div 8)" by simp
    ultimately show ?thesis
      by (auto simp del: div_add_self2 simp: j bit_or_iff bit_push_bit_iff bit_ucast_iff Cons.IH)
  qed
qed

lemma le_word_le_bytes:
  assumes "LENGTH('a) = 8 * n"
  shows "le_word (le_bytes n w) = (w :: 'a::len word)"
proof (rule bit_word_eqI)
  fix j assume "j < LENGTH('a)"
  with assms have "j div 8 < n" by simp
  with \<open>j < LENGTH('a)\<close> show "bit (le_word (le_bytes n w) :: 'a word) j = bit w j"
    by (simp add: bit_le_word le_bytes_def bit_ucast_iff bit_drop_bit_eq)
qed

lemma le_word_le_bytes_32 [simp]: "le_word (le_bytes 4 w) = (w :: u32)"
  by (rule le_word_le_bytes) simp

lemma le_word_le_bytes_64 [simp]: "le_word (le_bytes 8 w) = (w :: u64)"
  by (rule le_word_le_bytes) simp

text \<open>Loads of a 32-bit or 64-bit object from a buffer.\<close>

definition load32 :: "byte list \<Rightarrow> nat \<Rightarrow> u32 run" where
  "load32 buf p = (if p + 4 \<le> length buf then ok (le_word (take 4 (drop p buf))) else fault Array_Index)"

definition load64 :: "byte list \<Rightarrow> nat \<Rightarrow> u64 run" where
  "load64 buf p = (if p + 8 \<le> length buf then ok (le_word (take 8 (drop p buf))) else fault Array_Index)"

lemma load32_at [array_simps]:
  "length pre = p \<Longrightarrow> load32 (pre @ le_bytes 4 w @ post) p = ok w"
  by (simp add: load32_def)

lemma load64_at [array_simps]:
  "length pre = p \<Longrightarrow> load64 (pre @ le_bytes 8 w @ post) p = ok w"
  by (simp add: load64_def)

lemma load32_ok: "p + 4 \<le> length buf \<Longrightarrow> \<exists>w. load32 buf p = ok w"
  by (simp add: load32_def)

section \<open>Bit masks\<close>

text \<open>\<open>__builtin_clz\<close> on 32 bits (its result at 0, where the builtin is undefined, is 32 here).\<close>

definition clz32 :: "u32 \<Rightarrow> nat" where
  "clz32 w = length (takeWhile (\<lambda>i. \<not> bit w i) (rev [0..<32]))"

lemma bit32_less: "bit (w :: u32) i \<Longrightarrow> i < 32"
  by (drule bit_imp_le_length) simp

definition shl1 :: "int \<Rightarrow> u32 run" where
  "shl1 h = (if 0 \<le> h \<and> h < 32 then ok (push_bit (nat h) 1) else fault Shift_Range)"

lemma shl1_ok [array_simps]: "0 \<le> h \<Longrightarrow> h < 32 \<Longrightarrow> shl1 h = ok (2 ^ nat h)"
  by (simp add: shl1_def)

text \<open>\<open>31 - clz\<close> is the position of the highest set bit.\<close>

lemma takeWhile_rev_upt:
  assumes "\<exists>i < n. P i"
  shows "\<exists>i < n. P i \<and> (\<forall>j. i < j \<and> j < n \<longrightarrow> \<not> P j)
           \<and> length (takeWhile (\<lambda>i. \<not> P i) (rev [0..<n])) = n - 1 - i"
  using assms
proof (induction n)
  case 0
  then show ?case by simp
next
  case (Suc n)
  show ?case
  proof (cases "P n")
    case True
    then show ?thesis by (auto intro!: exI [of _ n])
  next
    case False
    with Suc.prems have "\<exists>i < n. P i" by (auto simp: less_Suc_eq)
    then obtain i where i: "i < n" "P i" "\<forall>j. i < j \<and> j < n \<longrightarrow> \<not> P j"
      "length (takeWhile (\<lambda>i. \<not> P i) (rev [0..<n])) = n - 1 - i"
      using Suc.IH by blast
    with False show ?thesis by (auto intro!: exI [of _ i] simp: less_Suc_eq)
  qed
qed

lemma clz32_highest:
  fixes w :: u32
  assumes "w \<noteq> 0"
  shows "31 - clz32 w < 32" and "bit w (31 - clz32 w)"
    and "31 - clz32 w < j \<Longrightarrow> \<not> bit w j"
proof -
  from assms obtain k where "bit w k" by (auto simp: bit_eq_iff)
  then have "\<exists>i < 32. bit w i" by (auto dest: bit32_less)
  from takeWhile_rev_upt [OF this] obtain i where i: "i < 32" "bit w i"
    "\<forall>j. i < j \<and> j < 32 \<longrightarrow> \<not> bit w j" and l: "clz32 w = 32 - 1 - i"
    unfolding clz32_def by blast
  from i l have e: "31 - clz32 w = i" by simp
  show "31 - clz32 w < 32" and "bit w (31 - clz32 w)" using e i by auto
  show "31 - clz32 w < j \<Longrightarrow> \<not> bit w j"
    using e i by (auto dest: bit32_less)
qed

lemma bit_one_shl: "bit (2 ^ i :: u32) j \<longleftrightarrow> j = i \<and> i < 32"
  by (auto simp: bit_exp_iff)

lemma clear_bit_iff: "bit (w AND NOT (2 ^ i) :: u32) j \<longleftrightarrow> bit w j \<and> j \<noteq> i"
  by (auto simp: bit_and_iff bit_not_iff bit_one_shl dest: bit32_less)

lemma set_bit_iff32: "bit (w OR 2 ^ i :: u32) j \<longleftrightarrow> bit w j \<or> (j = i \<and> i < 32)"
  by (auto simp: bit_or_iff bit_one_shl)

text \<open>The set of positions set in a mask, as the abstraction of the mask.\<close>

definition bits_of :: "u32 \<Rightarrow> nat set" where
  "bits_of w = {i. bit w i}"

lemma bits_of_0 [simp]: "bits_of 0 = {}"
  by (simp add: bits_of_def)

lemma bits_of_eq_empty: "bits_of w = {} \<longleftrightarrow> w = 0"
  by (auto simp: bits_of_def bit_eq_iff dest: bit32_less)

lemma bits_of_clear: "bits_of (w AND NOT (2 ^ i)) = bits_of w - {i}"
  by (auto simp: bits_of_def clear_bit_iff)

lemma bits_of_set: "i < 32 \<Longrightarrow> bits_of (w OR 2 ^ i) = insert i (bits_of w)"
  by (auto simp: bits_of_def set_bit_iff32)

lemma bits_of_bounded: "i \<in> bits_of w \<Longrightarrow> i < 32"
  by (auto simp: bits_of_def dest: bit32_less)

lemma finite_bits_of [simp]: "finite (bits_of w)"
  by (rule finite_subset [of _ "{..<32}"]) (auto dest: bits_of_bounded)

lemma clz32_Max:
  assumes "w \<noteq> 0"
  shows "31 - clz32 w = Max (bits_of w)"
proof (rule Max_eqI [symmetric])
  show "31 - clz32 w \<in> bits_of w"
    using clz32_highest(2) [OF assms] by (simp add: bits_of_def)
  show "j \<le> 31 - clz32 w" if "j \<in> bits_of w" for j
    using that clz32_highest(3) [OF assms] by (auto simp: bits_of_def not_less [symmetric])
qed simp

end
