(* ===== verification/Kernel_IO.thy ===== *)
theory Kernel_IO
  imports Prelude
begin

text \<open>
  The POSIX calls the sources make, as operations on a record of the calling thread's view of the
  kernel. What the kernel answers is an input of the model: per descriptor, the outcomes of the
  successive \<open>recv\<close> and \<open>send\<close> calls; for the other calls, one list of answers in call order. A run
  that asks for an answer beyond the recorded ones has not finished (\<open>None\<close>). Stream semantics is
  built in: a chunk of which only a part was asked for stays in front of the descriptor's inbox.
\<close>

section \<open>errno\<close>

definition EINTR :: int where "EINTR = 4"
definition EAGAIN :: int where "EAGAIN = 11"
definition EWOULDBLOCK :: int where "EWOULDBLOCK = EAGAIN"
definition EINVAL :: int where "EINVAL = 22"

text \<open>The values of errno for which the transfer loops try again.\<close>

definition retry_errno :: "int \<Rightarrow> bool" where
  "retry_errno e \<longleftrightarrow> e = EINTR \<or> e = EAGAIN"

lemma retry_errno_wouldblock: "e = EINTR \<or> e = EAGAIN \<or> e = EWOULDBLOCK \<longleftrightarrow> retry_errno e"
  by (auto simp: retry_errno_def EWOULDBLOCK_def)

section \<open>The kernel as seen by one thread\<close>

datatype recv_out = Recvd "byte list" | RecvErr int
datatype send_out = Sent nat | SendErr int

datatype sockaddr = Addr_un string | Addr_in int

datatype syscall =
    Sys_socket int
  | Sys_setsockopt int string
  | Sys_nonblock int
  | Sys_bind int sockaddr
  | Sys_listen int int
  | Sys_accept int
  | Sys_connect int sockaddr
  | Sys_close int
  | Sys_access string
  | Sys_unlink string
  | Sys_fstat int
  | Sys_chmod string int
  | Sys_select "int list" "int list" int
  | Sys_fionread int
  | Sys_ifaddr int string
  | Sys_sendmsg int "int list"
  | Sys_recvmsg int

record sysans =
  ans_ret :: int
  ans_errno :: int
  ans_fds :: "int list"
  ans_val :: int
  ans_str :: string

record kern =
  errno :: int
  inbox :: "int \<Rightarrow> recv_out list"
  outq :: "int \<Rightarrow> send_out list"
  sent :: "int \<Rightarrow> byte list"
  sysq :: "sysans list"
  calls :: "syscall list"
  slept_us :: nat

definition usleep :: "nat \<Rightarrow> kern \<Rightarrow> kern" where
  "usleep us k = k\<lparr>slept_us := slept_us k + us\<rparr>"

definition sys :: "syscall \<Rightarrow> kern \<Rightarrow> (sysans \<times> kern) run" where
  "sys c k = (case sysq k of [] \<Rightarrow> None
     | a # as \<Rightarrow> ok (a, k\<lparr>sysq := as, calls := calls k @ [c],
         errno := (if ans_ret a < 0 then ans_errno a else errno k)\<rparr>))"

definition sys_close :: "int \<Rightarrow> kern \<Rightarrow> kern" where
  "sys_close fd k = k\<lparr>calls := calls k @ [Sys_close fd]\<rparr>"

text \<open>
  \<open>recv(fd, ., len, MSG_DONTWAIT)\<close>: the bytes stored and the return value. A return of 0 is the
  orderly shutdown of the peer and leaves errno alone, as POSIX says.
\<close>

definition sys_recv :: "int \<Rightarrow> nat \<Rightarrow> kern \<Rightarrow> (int \<times> byte list \<times> kern) run" where
  "sys_recv fd len k = (case inbox k fd of [] \<Rightarrow> None
     | RecvErr e # r \<Rightarrow> ok (-1, [], k\<lparr>errno := e, inbox := (inbox k)(fd := r)\<rparr>)
     | Recvd bs # r \<Rightarrow>
         ok (int (length (take len bs)), take len bs,
             k\<lparr>inbox := (inbox k)(fd := (if len < length bs then Recvd (drop len bs) # r else r))\<rparr>))"

text \<open>\<open>send(fd, data, ., MSG_NOSIGNAL)\<close>: the kernel takes at most the bytes offered.\<close>

definition sys_send :: "int \<Rightarrow> byte list \<Rightarrow> kern \<Rightarrow> (int \<times> kern) run" where
  "sys_send fd data k = (case outq k fd of [] \<Rightarrow> None
     | SendErr e # r \<Rightarrow> ok (-1, k\<lparr>errno := e, outq := (outq k)(fd := r)\<rparr>)
     | Sent n # r \<Rightarrow>
         ok (int (length (take n data)),
             k\<lparr>outq := (outq k)(fd := r), sent := (sent k)(fd := sent k fd @ take n data)\<rparr>))"

text \<open>Conversion of an \<open>int\<close> to \<open>size_t\<close> (64 bits).\<close>

definition size_t :: "int \<Rightarrow> nat" where
  "size_t n = nat (n mod 2 ^ 64)"

lemma size_t_nonneg [simp]: "0 \<le> n \<Longrightarrow> n < 2 ^ 64 \<Longrightarrow> size_t n = nat n"
  by (simp add: size_t_def)

text \<open>
  \<open>select\<close>: on a positive return the set holds the ready descriptors, on 0 it is empty, on an
  error it is left as it was.
\<close>

definition sys_select :: "int list \<Rightarrow> int list \<Rightarrow> int \<Rightarrow> kern \<Rightarrow> (int \<times> int list \<times> int list \<times> kern) run" where
  "sys_select rs ws tmo k = bindr (sys (Sys_select rs ws tmo) k) (\<lambda>(a, k').
     ok (ans_ret a,
         (if ans_ret a = -1 then rs else if ans_ret a = 0 then [] else filter (\<lambda>f. f \<in> set (ans_fds a)) rs),
         (if ans_ret a = -1 then ws else if ans_ret a = 0 then [] else filter (\<lambda>f. f \<in> set (ans_fds a)) ws),
         k'))"

text \<open>\<open>FD_SET\<close> and \<open>FD_ISSET\<close> index a bit array of \<open>FD_SETSIZE\<close> = 1024 entries.\<close>

definition FD_SET :: "int \<Rightarrow> int list \<Rightarrow> int list run" where
  "FD_SET fd s = (if 0 \<le> fd \<and> fd < 1024 then ok (fd # s) else fault Array_Index)"

definition FD_ISSET :: "int \<Rightarrow> int list \<Rightarrow> bool run" where
  "FD_ISSET fd s = (if 0 \<le> fd \<and> fd < 1024 then ok (fd \<in> set s) else fault Array_Index)"

section \<open>Progress of a stream\<close>

text \<open>
  Every outcome used up makes these numbers smaller; they bound the number of calls a loop can
  make before the recorded outcomes are exhausted.
\<close>

fun recv_weight :: "recv_out list \<Rightarrow> nat" where
  "recv_weight [] = 0"
| "recv_weight (Recvd bs # r) = Suc (length bs) + recv_weight r"
| "recv_weight (RecvErr e # r) = Suc (recv_weight r)"

lemma sys_recv_weight:
  "sys_recv fd len k = ok (ret, ds, k') \<Longrightarrow> 0 < len \<Longrightarrow>
     recv_weight (inbox k' fd) < recv_weight (inbox k fd)"
  by (auto simp: sys_recv_def split: list.splits recv_out.splits if_splits)

lemma sys_recv_ret:
  "sys_recv fd len k = ok (ret, ds, k') \<Longrightarrow>
     (ret = -1 \<and> ds = [] \<or> ret = int (length ds)) \<and> length ds \<le> len"
  by (auto simp: sys_recv_def split: list.splits recv_out.splits if_splits)

lemma sys_send_weight:
  "sys_send fd data k = ok (ret, k') \<Longrightarrow> length (outq k' fd) < length (outq k fd)"
  by (auto simp: sys_send_def split: list.splits send_out.splits)

lemma sys_send_ret:
  "sys_send fd data k = ok (ret, k') \<Longrightarrow>
     (ret = -1 \<or> 0 \<le> ret) \<and> ret \<le> int (length data) \<and>
     sent k' fd = sent k fd @ take (nat ret) data"
  by (auto simp: sys_send_def min_def split: list.splits send_out.splits)

lemma usleep_simps [simp]:
  "errno (usleep us k) = errno k" "inbox (usleep us k) = inbox k" "outq (usleep us k) = outq k"
  "sent (usleep us k) = sent k" "sysq (usleep us k) = sysq k" "calls (usleep us k) = calls k"
  "slept_us (usleep us k) = slept_us k + us"
  by (simp_all add: usleep_def)

section \<open>Frames\<close>

lemma sys_ok:
  assumes "sys c k = ok (a, k')"
  shows "calls k' = calls k @ [c]" and "inbox k' = inbox k" and "outq k' = outq k"
    and "sent k' = sent k" and "slept_us k' = slept_us k" and "sysq k = a # sysq k'"
  using assms by (auto simp: sys_def split: list.splits)

lemma sys_no_stop: "sys c k \<noteq> Some (Inl e)"
  by (auto simp: sys_def split: list.splits)

lemma sys_recv_no_stop: "sys_recv fd n k \<noteq> Some (Inl e)"
  by (auto simp: sys_recv_def split: list.splits recv_out.splits)

lemma sys_send_no_stop: "sys_send fd ds k \<noteq> Some (Inl e)"
  by (auto simp: sys_send_def split: list.splits send_out.splits)

lemma sys_close_simps [simp]:
  "errno (sys_close fd k) = errno k" "inbox (sys_close fd k) = inbox k" "outq (sys_close fd k) = outq k"
  "sent (sys_close fd k) = sent k" "sysq (sys_close fd k) = sysq k"
  "calls (sys_close fd k) = calls k @ [Sys_close fd]" "slept_us (sys_close fd k) = slept_us k"
  by (simp_all add: sys_close_def)

text \<open>How often a descriptor was closed.\<close>

definition closes :: "int \<Rightarrow> kern \<Rightarrow> nat" where
  "closes fd k = count_list (calls k) (Sys_close fd)"

lemma closes_sys: "sys c k = ok (a, k') \<Longrightarrow> closes fd k' = closes fd k + (if c = Sys_close fd then 1 else 0)"
  by (simp add: closes_def sys_ok(1))

lemma closes_sys_close [simp]: "closes fd (sys_close fd' k) = closes fd k + (if fd' = fd then 1 else 0)"
  by (simp add: closes_def)

lemma sys_select_ok:
  assumes "sys_select rs ws tmo k = ok (n, rs', ws', k')"
  shows "set rs' \<subseteq> set rs" and "set ws' \<subseteq> set ws" and "inbox k' = inbox k" and "outq k' = outq k"
    and "sent k' = sent k" and "closes fd k' = closes fd k" and "slept_us k' = slept_us k"
  using assms by (auto simp: sys_select_def bindr_eq_ok closes_sys dest: sys_ok split: if_splits)

lemma sys_select_no_stop: "sys_select rs ws tmo k \<noteq> Some (Inl e)"
  by (auto simp: sys_select_def sys_def split: list.splits)

end
