(* ===== verification/Sensor_Types.thy ===== *)
theory Sensor_Types
  imports Kernel_IO
begin

text \<open>
  The constants, wire messages and lookup functions of \<open>sensors_vhal.h\<close> and of the first part of
  \<open>sensors_vhal.cpp\<close>. The constants of Android's \<open>hardware/sensors.h\<close>, which is not part of the
  repository, are a parameter: a record \<open>H\<close> of the values the sources use.
\<close>

section \<open>The platform header\<close>

record sensors_h =
  SENSORS_HANDLE_BASE :: int
  SENSOR_TYPE_META_DATA :: int
  SENSOR_TYPE_ACCELEROMETER :: int
  SENSOR_TYPE_GYROSCOPE :: int
  SENSOR_TYPE_MAGNETIC_FIELD :: int
  SENSOR_TYPE_ACCELEROMETER_UNCALIBRATED :: int
  SENSOR_TYPE_GYROSCOPE_UNCALIBRATED :: int
  SENSOR_TYPE_MAGNETIC_FIELD_UNCALIBRATED :: int
  SENSOR_TYPE_LIGHT :: int
  SENSOR_TYPE_PROXIMITY :: int
  SENSOR_TYPE_AMBIENT_TEMPERATURE :: int
  META_DATA_VERSION :: int
  META_DATA_FLUSH_COMPLETE :: int
  SIZEOF_SENSORS_EVENT :: int

text \<open>The nine sensor types, in the order of the handles.\<close>

definition type_list :: "sensors_h \<Rightarrow> int list" where
  "type_list H = [SENSOR_TYPE_ACCELEROMETER H, SENSOR_TYPE_GYROSCOPE H, SENSOR_TYPE_MAGNETIC_FIELD H,
     SENSOR_TYPE_ACCELEROMETER_UNCALIBRATED H, SENSOR_TYPE_GYROSCOPE_UNCALIBRATED H,
     SENSOR_TYPE_MAGNETIC_FIELD_UNCALIBRATED H, SENSOR_TYPE_LIGHT H, SENSOR_TYPE_PROXIMITY H,
     SENSOR_TYPE_AMBIENT_TEMPERATURE H]"

text \<open>
  What the code relies on: handles start at 0, the types are distinct (the compiler rejects a
  \<open>switch\<close> with equal labels), none of them is the meta data type, and all are positive 32-bit
  values.
\<close>

definition header_ok :: "sensors_h \<Rightarrow> bool" where
  "header_ok H \<longleftrightarrow> SENSORS_HANDLE_BASE H = 0 \<and>
     distinct (SENSOR_TYPE_META_DATA H # type_list H) \<and>
     list_all (\<lambda>t. 0 < t \<and> t < 2 ^ 31) (type_list H)"

text \<open>The values of the Android Open Source Project, used by the witnesses.\<close>

definition aosp_h :: sensors_h where
  "aosp_h = \<lparr>SENSORS_HANDLE_BASE = 0, SENSOR_TYPE_META_DATA = 0, SENSOR_TYPE_ACCELEROMETER = 1,
     SENSOR_TYPE_GYROSCOPE = 4, SENSOR_TYPE_MAGNETIC_FIELD = 2, SENSOR_TYPE_ACCELEROMETER_UNCALIBRATED = 35,
     SENSOR_TYPE_GYROSCOPE_UNCALIBRATED = 16, SENSOR_TYPE_MAGNETIC_FIELD_UNCALIBRATED = 14,
     SENSOR_TYPE_LIGHT = 5, SENSOR_TYPE_PROXIMITY = 8, SENSOR_TYPE_AMBIENT_TEMPERATURE = 13,
     META_DATA_VERSION = 2, META_DATA_FLUSH_COMPLETE = 1, SIZEOF_SENSORS_EVENT = 104\<rparr>"

lemma aosp_header_ok: "header_ok aosp_h"
  by (simp add: header_ok_def aosp_h_def type_list_def)

section \<open>Handles\<close>

definition MAX_NUM_SENSORS :: nat where "MAX_NUM_SENSORS = 9"

definition SUPPORTED_SENSORS :: u32 where
  "SUPPORTED_SENSORS = push_bit MAX_NUM_SENSORS 1 - 1"

definition ID_ACCELEROMETER :: "sensors_h \<Rightarrow> int" where
  "ID_ACCELEROMETER H = SENSORS_HANDLE_BASE H + 0"
definition ID_GYROSCOPE :: "sensors_h \<Rightarrow> int" where
  "ID_GYROSCOPE H = SENSORS_HANDLE_BASE H + 1"
definition ID_MAGNETIC_FIELD :: "sensors_h \<Rightarrow> int" where
  "ID_MAGNETIC_FIELD H = SENSORS_HANDLE_BASE H + 2"
definition ID_ACCELEROMETER_UNCALIBRATED :: "sensors_h \<Rightarrow> int" where
  "ID_ACCELEROMETER_UNCALIBRATED H = SENSORS_HANDLE_BASE H + 3"
definition ID_GYROSCOPE_UNCALIBRATED :: "sensors_h \<Rightarrow> int" where
  "ID_GYROSCOPE_UNCALIBRATED H = SENSORS_HANDLE_BASE H + 4"
definition ID_MAGNETIC_FIELD_UNCALIBRATED :: "sensors_h \<Rightarrow> int" where
  "ID_MAGNETIC_FIELD_UNCALIBRATED H = SENSORS_HANDLE_BASE H + 5"
definition ID_LIGHT :: "sensors_h \<Rightarrow> int" where
  "ID_LIGHT H = SENSORS_HANDLE_BASE H + 6"
definition ID_PROXIMITY :: "sensors_h \<Rightarrow> int" where
  "ID_PROXIMITY H = SENSORS_HANDLE_BASE H + 7"
definition ID_TEMPERATURE :: "sensors_h \<Rightarrow> int" where
  "ID_TEMPERATURE H = SENSORS_HANDLE_BASE H + 8"

lemmas ID_defs = ID_ACCELEROMETER_def ID_GYROSCOPE_def ID_MAGNETIC_FIELD_def
  ID_ACCELEROMETER_UNCALIBRATED_def ID_GYROSCOPE_UNCALIBRATED_def ID_MAGNETIC_FIELD_UNCALIBRATED_def
  ID_LIGHT_def ID_PROXIMITY_def ID_TEMPERATURE_def

definition sensorIds :: "sensors_h \<Rightarrow> (string \<times> int) list" where
  "sensorIds H = [(''acceleration'', ID_ACCELEROMETER H), (''gyroscope'', ID_GYROSCOPE H),
     (''magnetic-field'', ID_MAGNETIC_FIELD H),
     (''acceleration_uncalibrated'', ID_ACCELEROMETER_UNCALIBRATED H),
     (''gyroscope_uncalibrated'', ID_GYROSCOPE_UNCALIBRATED H),
     (''magnetic-field_uncalibrated'', ID_MAGNETIC_FIELD_UNCALIBRATED H),
     (''light'', ID_LIGHT H), (''proximity'', ID_PROXIMITY H), (''temperature'', ID_TEMPERATURE H)]"

fun name_lookup :: "(string \<times> int) list \<Rightarrow> int \<Rightarrow> string" where
  "name_lookup [] h = ''<UNKNOWN>''"
| "name_lookup ((nm, i) # rest) h = (if h = i then nm else name_lookup rest h)"

definition get_name_from_handle :: "sensors_h \<Rightarrow> int \<Rightarrow> string" where
  "get_name_from_handle H h = name_lookup (sensorIds H) h"

section \<open>Lookup by type and by handle\<close>

definition sizeof_float :: int where "sizeof_float = 4"

definition get_payload_len :: "sensors_h \<Rightarrow> int \<Rightarrow> int" where
  "get_payload_len H sensor_type =
     (if sensor_type = SENSOR_TYPE_ACCELEROMETER H \<or> sensor_type = SENSOR_TYPE_GYROSCOPE H \<or>
         sensor_type = SENSOR_TYPE_MAGNETIC_FIELD H then 3 * sizeof_float
      else if sensor_type = SENSOR_TYPE_ACCELEROMETER_UNCALIBRATED H \<or>
         sensor_type = SENSOR_TYPE_GYROSCOPE_UNCALIBRATED H \<or>
         sensor_type = SENSOR_TYPE_MAGNETIC_FIELD_UNCALIBRATED H then 6 * sizeof_float
      else if sensor_type = SENSOR_TYPE_LIGHT H \<or> sensor_type = SENSOR_TYPE_PROXIMITY H \<or>
         sensor_type = SENSOR_TYPE_AMBIENT_TEMPERATURE H then 1 * sizeof_float
      else 0)"

definition get_type_from_hanle :: "sensors_h \<Rightarrow> int \<Rightarrow> int" where
  "get_type_from_hanle H handle =
     (if handle = ID_ACCELEROMETER H then SENSOR_TYPE_ACCELEROMETER H
      else if handle = ID_GYROSCOPE H then SENSOR_TYPE_GYROSCOPE H
      else if handle = ID_MAGNETIC_FIELD H then SENSOR_TYPE_MAGNETIC_FIELD H
      else if handle = ID_ACCELEROMETER_UNCALIBRATED H then SENSOR_TYPE_ACCELEROMETER_UNCALIBRATED H
      else if handle = ID_GYROSCOPE_UNCALIBRATED H then SENSOR_TYPE_GYROSCOPE_UNCALIBRATED H
      else if handle = ID_MAGNETIC_FIELD_UNCALIBRATED H then SENSOR_TYPE_MAGNETIC_FIELD_UNCALIBRATED H
      else if handle = ID_LIGHT H then SENSOR_TYPE_LIGHT H
      else if handle = ID_PROXIMITY H then SENSOR_TYPE_PROXIMITY H
      else if handle = ID_TEMPERATURE H then SENSOR_TYPE_AMBIENT_TEMPERATURE H
      else - EINVAL)"

definition get_handle_from_type :: "sensors_h \<Rightarrow> int \<Rightarrow> int" where
  "get_handle_from_type H sensor_type =
     (if sensor_type = SENSOR_TYPE_ACCELEROMETER H then ID_ACCELEROMETER H
      else if sensor_type = SENSOR_TYPE_MAGNETIC_FIELD H then ID_MAGNETIC_FIELD H
      else if sensor_type = SENSOR_TYPE_GYROSCOPE H then ID_GYROSCOPE H
      else if sensor_type = SENSOR_TYPE_ACCELEROMETER_UNCALIBRATED H then ID_ACCELEROMETER_UNCALIBRATED H
      else if sensor_type = SENSOR_TYPE_GYROSCOPE_UNCALIBRATED H then ID_GYROSCOPE_UNCALIBRATED H
      else if sensor_type = SENSOR_TYPE_MAGNETIC_FIELD_UNCALIBRATED H then ID_MAGNETIC_FIELD_UNCALIBRATED H
      else if sensor_type = SENSOR_TYPE_LIGHT H then ID_LIGHT H
      else if sensor_type = SENSOR_TYPE_AMBIENT_TEMPERATURE H then ID_TEMPERATURE H
      else if sensor_type = SENSOR_TYPE_PROXIMITY H then ID_PROXIMITY H
      else -1)"

section \<open>Messages\<close>

record sensor_config_msg_t =
  cfg_sensor_type :: int
  cfg_enabled :: int
  cfg_sample_period :: int

definition SIZEOF_CONFIG_MSG :: nat where "SIZEOF_CONFIG_MSG = 12"

text \<open>The bytes of the struct, as \<open>send\<close> reads them.\<close>

definition config_bytes :: "sensor_config_msg_t \<Rightarrow> byte list" where
  "config_bytes c = le_bytes 4 (word_of_int (cfg_sensor_type c) :: u32) @
     le_bytes 4 (word_of_int (cfg_enabled c) :: u32) @ le_bytes 4 (word_of_int (cfg_sample_period c) :: u32)"

text \<open>\<open>aic_sensors_event_t\<close>: type, number of values and time stamp, then the values.\<close>

record aic_sensors_event_t =
  aic_type :: int
  aic_data_num :: int
  aic_timestamp :: u64
  aic_fdata :: "u32 list"

definition SIZEOF_AIC_EVENT :: nat where "SIZEOF_AIC_EVENT = 16"
definition MAX_SENSOR_PAYLOAD_SIZE :: nat where "MAX_SENSOR_PAYLOAD_SIZE = 32"
definition MSG_BUF_SIZE :: nat where "MSG_BUF_SIZE = SIZEOF_AIC_EVENT + MAX_SENSOR_PAYLOAD_SIZE"

text \<open>
  \<open>sensors_event_t\<close> with the members the sources touch. The payload is a union at one address,
  kept as its 32-bit words: a vector is words 0 to 2, an uncalibrated reading words 0 to 5, a
  scalar word 0, and of the meta data word 0 is \<open>what\<close> and word 1 is \<open>sensor\<close>.
\<close>

record sensors_event_t =
  ev_version :: int
  ev_sensor :: int
  ev_type :: int
  ev_timestamp :: u64
  ev_data :: "u32 list"

definition EVENT_WORDS :: nat where "EVENT_WORDS = 16"

definition overlay :: "'a list \<Rightarrow> 'a list \<Rightarrow> 'a list" where
  "overlay ws xs = ws @ drop (length ws) xs"

lemma length_overlay: "length ws \<le> length xs \<Longrightarrow> length (overlay ws xs) = length xs"
  by (simp add: overlay_def)

section \<open>Lemmas\<close>

lemma type_list_cases:
  assumes "h < MAX_NUM_SENSORS"
  obtains "h = 0" | "h = 1" | "h = 2" | "h = 3" | "h = 4" | "h = 5" | "h = 6" | "h = 7" | "h = 8"
  using assms by (fastforce simp: MAX_NUM_SENSORS_def)

lemma length_type_list [simp]: "length (type_list H) = MAX_NUM_SENSORS"
  by (simp add: type_list_def MAX_NUM_SENSORS_def)

lemma get_type_int:
  assumes "header_ok H" and "h < MAX_NUM_SENSORS"
  shows "get_type_from_hanle H (int h) = type_list H ! h"
  using assms(2,1)
  by (elim type_list_cases) (simp_all add: get_type_from_hanle_def ID_defs header_ok_def type_list_def)

lemma get_type_nth:
  assumes "header_ok H"
  shows "get_type_from_hanle H h = (if 0 \<le> h \<and> h < int MAX_NUM_SENSORS then type_list H ! nat h else - EINVAL)"
proof (cases "0 \<le> h \<and> h < int MAX_NUM_SENSORS")
  case True
  then have "nat h < MAX_NUM_SENSORS" by (simp add: nat_less_iff)
  with True show ?thesis using get_type_int [OF assms, of "nat h"] by simp
next
  case False
  then show ?thesis using assms
    by (auto simp: get_type_from_hanle_def ID_defs header_ok_def MAX_NUM_SENSORS_def)
qed

lemma get_handle_nth:
  assumes "header_ok H" and "h < MAX_NUM_SENSORS"
  shows "get_handle_from_type H (type_list H ! h) = int h"
  using assms(2,1)
  by (elim type_list_cases) (auto simp: get_handle_from_type_def ID_defs header_ok_def type_list_def)

lemma get_handle_unsupported:
  assumes "t \<notin> set (type_list H)"
  shows "get_handle_from_type H t = -1" and "get_payload_len H t = 0"
  using assms by (auto simp: get_handle_from_type_def get_payload_len_def type_list_def)

lemma get_payload_len_cases: "get_payload_len H t \<in> {0, 4, 12, 24}"
  by (auto simp: get_payload_len_def sizeof_float_def)

lemma get_payload_len_supported: "t \<in> set (type_list H) \<Longrightarrow> get_payload_len H t \<in> {4, 12, 24}"
  by (auto simp: get_payload_len_def sizeof_float_def type_list_def)

lemma header_ok_type:
  assumes "header_ok H" and "t \<in> set (type_list H)"
  shows "0 < t" and "t < 2 ^ 31" and "t \<noteq> SENSOR_TYPE_META_DATA H"
  using assms by (auto simp: header_ok_def list_all_iff)

end
