(* ===== verification/Sock_Server.thy ===== *)
theory Sock_Server
  imports Kernel_IO
begin

text \<open>
  The C layer of the server socket, \<open>sock_utils/sock_server.cpp\<close>: the listening socket, the table of
  512 client descriptors, the \<open>select\<close> based readiness checks, and single \<open>send\<close> and \<open>recv\<close> calls.
  Pointers to the server and to client proxies are \<open>option\<close> values; proxies live in an explicit heap,
  so that a \<open>delete\<close> followed by an access is visible.
\<close>

section \<open>Data\<close>

definition SOCK_CONN_TYPE_ABS_SOCK :: int where "SOCK_CONN_TYPE_ABS_SOCK = 0"
definition SOCK_CONN_TYPE_UNIX_SOCK :: int where "SOCK_CONN_TYPE_UNIX_SOCK = 1"
definition SOCK_CONN_TYPE_INET_SOCK :: int where "SOCK_CONN_TYPE_INET_SOCK = 2"

definition SOCK_MAX_CLIENTS :: nat where "SOCK_MAX_CLIENTS = 512"
definition SOCK_MAX_PATH_LEN :: nat where "SOCK_MAX_PATH_LEN = 128"

definition SOCK_UTIL_DEFAULT_PATH :: string where
  "SOCK_UTIL_DEFAULT_PATH = ''/ipc/display-sock''"

datatype sock_conn_status_t = disconnect | normal | readable

record sock_server_t =
  srv_type :: int
  socketfd :: int
  srv_path :: string
  client_slots :: "int list"
  rfds :: "int list"
  wfds :: "int list"

record sock_client_proxy_t =
  proxy_id :: int
  m_msg_buf :: "byte list"

text \<open>The C++ heap, as far as client proxies are concerned.\<close>

record pheap =
  next_ptr :: nat
  objs :: "nat \<rightharpoonup> sock_client_proxy_t"

definition new_proxy :: "sock_client_proxy_t \<Rightarrow> pheap \<Rightarrow> nat \<times> pheap" where
  "new_proxy c h = (next_ptr h, h\<lparr>next_ptr := Suc (next_ptr h), objs := (objs h)(next_ptr h \<mapsto> c)\<rparr>)"

definition delete_proxy :: "nat \<Rightarrow> pheap \<Rightarrow> pheap" where
  "delete_proxy p h = h\<lparr>objs := (objs h)(p := None)\<rparr>"

definition deref_proxy :: "pheap \<Rightarrow> nat \<Rightarrow> sock_client_proxy_t run" where
  "deref_proxy h p = (case objs h p of None \<Rightarrow> fault Use_After_Free | Some c \<Rightarrow> ok c)"

section \<open>Creating and closing the server\<close>

fun find_slot_from :: "int list \<Rightarrow> nat \<Rightarrow> nat" where
  "find_slot_from [] i = i"
| "find_slot_from (s # ss) i = (if s = -1 then i else find_slot_from ss (Suc i))"

definition sock_server_find_empty_slot :: "sock_server_t \<Rightarrow> nat" where
  "sock_server_find_empty_slot server = find_slot_from (client_slots server) 0"

text \<open>Every error path of the initialisation closes the socket and returns a null pointer.\<close>

definition init_fail :: "int \<Rightarrow> kern \<Rightarrow> (bool \<times> kern) run" where
  "init_fail fd k = ok (False, sys_close fd k)"

definition sock_server_init_inet :: "int \<Rightarrow> int \<Rightarrow> int \<Rightarrow> kern \<Rightarrow> (bool \<times> kern) run" where
  "sock_server_init_inet ty port fd k =
     bindr (sys (Sys_setsockopt fd ''SO_REUSEADDR'') k) (\<lambda>(a, k).
     if ans_ret a < 0 then exits (-1) else
     bindr (sys (Sys_setsockopt fd ''TCP_NODELAY'') k) (\<lambda>(a, k).
     if ans_ret a < 0 then exits (-1) else
     bindr (sys (Sys_nonblock fd) k) (\<lambda>(a, k).
     if ans_ret a < 0 then init_fail fd k else
     bindr
       (if ty \<noteq> SOCK_CONN_TYPE_INET_SOCK then
          (if ty = SOCK_CONN_TYPE_ABS_SOCK then sys (Sys_bind fd (Addr_un [])) k
           else bindr (sys (Sys_unlink SOCK_UTIL_DEFAULT_PATH) k) (\<lambda>(_, k).
                  sys (Sys_bind fd (Addr_un SOCK_UTIL_DEFAULT_PATH)) k))
        else sys (Sys_bind fd (Addr_in port)) k) (\<lambda>(a, k).
     if ans_ret a < 0 then init_fail fd k else ok (True, k)))))"

text \<open>
  The path of the UNIX socket: the property \<open>ro.boot.container.id\<close> is appended to the fixed prefix,
  unless the environment says \<open>K8S_ENV=true\<close>.
\<close>

definition unix_sock_path :: "string \<Rightarrow> string option \<Rightarrow> string" where
  "unix_sock_path container_id k8s =
     (if k8s = Some ''true'' then ''/conn/sensors-socket'' else ''/ipc/sensors-socket'' @ container_id)"

definition SUN_PATH_SIZE :: nat where "SUN_PATH_SIZE = 108"

definition sock_server_init_unix :: "string \<Rightarrow> string option \<Rightarrow> int \<Rightarrow> kern \<Rightarrow> (bool \<times> kern) run" where
  "sock_server_init_unix container_id k8s fd k =
     (let SocketPath = unix_sock_path container_id k8s in
      if length SocketPath > SUN_PATH_SIZE then fault Array_Index else
      bindr (sys (Sys_access SocketPath) k) (\<lambda>(a, k).
      bindr (if ans_ret a \<noteq> -1 then bindr (sys (Sys_unlink SocketPath) k) (\<lambda>(a, k). ok (ans_ret a < 0, k))
             else ok (False, k)) (\<lambda>(bad, k).
      if bad then init_fail fd k else
      bindr (sys (Sys_bind fd (Addr_un SocketPath)) k) (\<lambda>(a, k).
      if ans_ret a < 0 then init_fail fd k else
      bindr (sys (Sys_fstat fd) k) (\<lambda>(a, k).
      bindr (sys (Sys_chmod SocketPath (if ans_ret a = 0 then 511 OR ans_val a else 511)) k) (\<lambda>(_, k).
      bindr (sys (Sys_listen fd 5) k) (\<lambda>(a, k).
      if ans_ret a < 0 then init_fail fd k else ok (True, k))))))))"

definition AF_UNIX :: int where "AF_UNIX = 1"
definition AF_INET :: int where "AF_INET = 2"

definition sock_server_init_listen :: "int \<Rightarrow> int \<Rightarrow> kern \<Rightarrow> (sock_server_t option \<times> kern) run" where
  "sock_server_init_listen ty fd k =
     bindr (sys (Sys_listen fd (int SOCK_MAX_CLIENTS)) k) (\<lambda>(a, k).
     if ans_ret a < 0 then ok (None, sys_close fd k) else
     ok (Some \<lparr>srv_type = ty, socketfd = fd,
               srv_path = (if ty \<noteq> SOCK_CONN_TYPE_INET_SOCK then SOCK_UTIL_DEFAULT_PATH else []),
               client_slots = replicate SOCK_MAX_CLIENTS (-1), rfds = [], wfds = []\<rparr>, k))"

definition sock_server_init ::
  "int \<Rightarrow> int \<Rightarrow> string \<Rightarrow> string option \<Rightarrow> kern \<Rightarrow> (sock_server_t option \<times> kern) run" where
  "sock_server_init ty port container_id k8s k =
     (let socket_domain = (if ty \<noteq> SOCK_CONN_TYPE_INET_SOCK then AF_UNIX else AF_INET) in
      bindr (sys (Sys_socket socket_domain) k) (\<lambda>(a, k).
      let fd = ans_ret a in
      if fd < 0 then ok (None, k) else
      bindr (if socket_domain = AF_INET then sock_server_init_inet ty port fd k else ok (True, k)) (\<lambda>(good, k).
      if \<not> good then ok (None, k) else
      bindr (if ty = SOCK_CONN_TYPE_UNIX_SOCK then sock_server_init_unix container_id k8s fd k
             else ok (True, k)) (\<lambda>(good, k).
      if \<not> good then ok (None, k) else sock_server_init_listen ty fd k))))"

fun close_slots :: "int list \<Rightarrow> kern \<Rightarrow> kern" where
  "close_slots [] k = k"
| "close_slots (fd # fds) k = close_slots fds (if fd \<noteq> -1 then sys_close fd k else k)"

text \<open>The server object is deleted at the end, so only the kernel remains.\<close>

definition sock_server_close :: "sock_server_t option \<Rightarrow> kern \<Rightarrow> kern run" where
  "sock_server_close server k = (case server of None \<Rightarrow> ok k
     | Some sv \<Rightarrow>
         (let k1 = close_slots (client_slots sv) (sys_close (socketfd sv) k) in
          if srv_type sv = SOCK_CONN_TYPE_UNIX_SOCK
          then bindr (sys (Sys_unlink (srv_path sv)) k1) (\<lambda>(_, k2). ok k2) else ok k1))"

section \<open>Connections\<close>

definition sock_server_has_newconn :: "sock_server_t option \<Rightarrow> int \<Rightarrow> kern \<Rightarrow> (bool \<times> kern) run" where
  "sock_server_has_newconn server timeout_ms k = (case server of None \<Rightarrow> ok (False, k)
     | Some sv \<Rightarrow>
         bindr (FD_SET (socketfd sv) []) (\<lambda>rf.
         bindr (sys_select rf [] (timeout_ms * 1000) k) (\<lambda>(nsel, rf, _, k).
         if nsel = -1 then ok (False, k) else if nsel = 0 then ok (False, k) else
         bindr (FD_ISSET (socketfd sv) rf) (\<lambda>isset.
         if \<not> isset then ok (False, k)
         else if sock_server_find_empty_slot sv < SOCK_MAX_CLIENTS then ok (True, k)
         else bindr (sys (Sys_accept (socketfd sv)) k) (\<lambda>(a, k).
                ok (False, sys_close (ans_ret a) k))))))"

definition sock_server_create_client ::
  "sock_server_t option \<Rightarrow> pheap \<Rightarrow> kern \<Rightarrow> (nat option \<times> sock_server_t option \<times> pheap \<times> kern) run" where
  "sock_server_create_client server h k = (case server of None \<Rightarrow> ok (None, None, h, k)
     | Some sv \<Rightarrow>
         bindr (sys (Sys_accept (socketfd sv)) k) (\<lambda>(a, k).
         let clientfd = ans_ret a in
         if clientfd < 0 then ok (None, Some sv, h, k) else
         bindr (sys (Sys_nonblock clientfd) k) (\<lambda>(a, k).
         if ans_ret a < 0 then ok (None, Some sv, h, sys_close clientfd k) else
         let cid = sock_server_find_empty_slot sv in
         if cid \<ge> SOCK_MAX_CLIENTS then ok (None, Some sv, h, sys_close clientfd k) else
         bindr (arr_set (client_slots sv) (int cid) clientfd) (\<lambda>slots.
         let (p, h) = new_proxy \<lparr>proxy_id = int cid, m_msg_buf = []\<rparr> h in
         ok (Some p, Some (sv\<lparr>client_slots := slots\<rparr>), h, k)))))"

definition sock_server_close_client ::
  "sock_server_t option \<Rightarrow> nat option \<Rightarrow> pheap \<Rightarrow> kern \<Rightarrow> (sock_server_t option \<times> pheap \<times> kern) run" where
  "sock_server_close_client server p_client h k = (case server of None \<Rightarrow> ok (None, h, k)
     | Some sv \<Rightarrow> (case p_client of None \<Rightarrow> ok (Some sv, h, k)
     | Some p \<Rightarrow>
         bindr (deref_proxy h p) (\<lambda>c.
         bindr (arr_get (client_slots sv) (proxy_id c)) (\<lambda>fd.
         bindr (if fd \<noteq> -1
                then bindr (arr_set (client_slots sv) (proxy_id c) (-1)) (\<lambda>slots.
                       ok (sv\<lparr>client_slots := slots\<rparr>, sys_close fd k))
                else ok (sv, k)) (\<lambda>(sv, k).
         ok (Some sv, delete_proxy p h, k))))))"

section \<open>Readiness\<close>

fun fd_set_slots :: "int list \<Rightarrow> int list \<Rightarrow> int list run" where
  "fd_set_slots [] s = ok s"
| "fd_set_slots (fd # fds) s =
     (if fd \<noteq> -1 then bindr (FD_SET fd s) (fd_set_slots fds) else fd_set_slots fds s)"

definition sock_server_clients_readable ::
  "sock_server_t option \<Rightarrow> int \<Rightarrow> kern \<Rightarrow> (bool \<times> sock_server_t option \<times> kern) run" where
  "sock_server_clients_readable server timeout_ms k = (case server of None \<Rightarrow> ok (False, None, k)
     | Some sv \<Rightarrow>
         bindr (fd_set_slots (client_slots sv) []) (\<lambda>rf.
         bindr (sys_select rf [] (timeout_ms * 1000) k) (\<lambda>(nsel, rf, _, k).
         let sv = sv\<lparr>rfds := rf\<rparr> in
         ok (nsel \<noteq> -1 \<and> nsel \<noteq> 0, Some sv, k))))"

definition sock_server_clients_writeable ::
  "sock_server_t option \<Rightarrow> sock_client_proxy_t option \<Rightarrow> int \<Rightarrow> kern
     \<Rightarrow> (bool \<times> sock_server_t option \<times> kern) run" where
  "sock_server_clients_writeable server client timeout_ms k = (case (server, client) of
       (Some sv, Some c) \<Rightarrow>
         bindr (FD_SET (proxy_id c) []) (\<lambda>wf0.
         bindr (sys_select [] wf0 (timeout_ms * 1000) k) (\<lambda>(nsel, _, wf1, k).
         ok (nsel \<noteq> -1 \<and> nsel \<noteq> 0, Some (sv\<lparr>wfds := wf1\<rparr>), k)))
     | _ \<Rightarrow> ok (False, server, k))"

definition sock_server_check_connect ::
  "sock_server_t option \<Rightarrow> sock_client_proxy_t option \<Rightarrow> kern \<Rightarrow> (sock_conn_status_t \<times> kern) run" where
  "sock_server_check_connect server p_client k = (case (server, p_client) of
       (Some sv, Some c) \<Rightarrow>
         bindr (arr_get (client_slots sv) (proxy_id c)) (\<lambda>clientfd.
         bindr (FD_ISSET clientfd (rfds sv)) (\<lambda>isset.
         if isset then
           bindr (sys (Sys_fionread clientfd) k) (\<lambda>(a, k).
           ok (if ans_ret a \<noteq> -1 then (if ans_val a \<noteq> 0 then readable else disconnect) else normal, k))
         else ok (normal, k)))
     | _ \<Rightarrow> ok (normal, k))"

section \<open>Single transfers\<close>

definition sock_server_send ::
  "sock_server_t option \<Rightarrow> sock_client_proxy_t option \<Rightarrow> byte list \<Rightarrow> kern \<Rightarrow> (int \<times> kern) run" where
  "sock_server_send server sender data k = (case (server, sender) of
       (Some sv, Some c) \<Rightarrow>
         bindr (arr_get (client_slots sv) (proxy_id c)) (\<lambda>fd. sys_send fd data k)
     | _ \<Rightarrow> ok (-1, k))"

text \<open>The bytes received are stored at offset \<open>p\<close> of the destination buffer.\<close>

definition sock_server_recv ::
  "sock_server_t option \<Rightarrow> sock_client_proxy_t option \<Rightarrow> byte list \<Rightarrow> nat \<Rightarrow> nat \<Rightarrow> kern
     \<Rightarrow> (int \<times> byte list \<times> kern) run" where
  "sock_server_recv server receiver buf p datalen k = (case (server, receiver) of
       (Some sv, Some c) \<Rightarrow>
         bindr (arr_get (client_slots sv) (proxy_id c)) (\<lambda>fd.
         bindr (sys_recv fd datalen k) (\<lambda>(ret, ds, k).
         bindr (buf_write buf p ds) (\<lambda>buf. ok (ret, buf, k))))
     | _ \<Rightarrow> ok (-1, buf, k))"

section \<open>The slot table\<close>

lemma find_slot_from_eq: "find_slot_from ss i = i + length (takeWhile (\<lambda>s. s \<noteq> -1) ss)"
  by (induction ss arbitrary: i) auto

lemma find_empty_slot_le: "sock_server_find_empty_slot sv \<le> length (client_slots sv)"
  by (simp add: sock_server_find_empty_slot_def find_slot_from_eq length_takeWhile_le)

lemma find_empty_slot_free:
  "sock_server_find_empty_slot sv < length (client_slots sv) \<Longrightarrow>
     client_slots sv ! sock_server_find_empty_slot sv = -1"
  by (auto simp: sock_server_find_empty_slot_def find_slot_from_eq dest: nth_length_takeWhile)

lemma find_empty_slot_least:
  assumes "j < sock_server_find_empty_slot sv"
  shows "client_slots sv ! j \<noteq> -1"
proof -
  let ?t = "takeWhile (\<lambda>s. s \<noteq> -1) (client_slots sv)"
  from assms have "j < length ?t"
    by (simp add: sock_server_find_empty_slot_def find_slot_from_eq)
  then have "?t ! j \<in> set ?t" and "?t ! j = client_slots sv ! j"
    by (rule nth_mem, rule takeWhile_nth)
  then show ?thesis by (metis set_takeWhileD)
qed

lemma find_empty_slot_exists:
  assumes "-1 \<in> set (client_slots sv)"
  shows "sock_server_find_empty_slot sv < length (client_slots sv)"
proof -
  from assms obtain j where "j < length (client_slots sv)" "client_slots sv ! j = -1"
    by (auto simp: in_set_conv_nth)
  then show ?thesis using find_empty_slot_least [of j sv] by (meson not_le_imp_less le_less_trans)
qed

section \<open>Initialisation\<close>

lemmas init_defs = sock_server_init_def sock_server_init_inet_def sock_server_init_unix_def init_fail_def

lemma init_inet_closes:
  assumes "sock_server_init_inet ty port fd k = ok (good, k')"
  shows "closes fd k' = closes fd k + (if good then 0 else 1)"
  using assms
  by (auto simp: sock_server_init_inet_def init_fail_def bindr_eq_ok closes_sys split: if_splits)

lemma init_unix_closes:
  assumes "sock_server_init_unix cid env fd k = ok (good, k')"
  shows "closes fd k' = closes fd k + (if good then 0 else 1)"
  using assms
  by (auto simp: sock_server_init_unix_def init_fail_def Let_def bindr_eq_ok closes_sys split: if_splits)

lemma init_listen_closes:
  assumes "sock_server_init_listen ty fd k = ok (r, k')"
  shows "closes fd k' = closes fd k + (if r = None then 1 else 0)"
  using assms by (auto simp: sock_server_init_listen_def bindr_eq_ok closes_sys split: if_splits)

text \<open>The four stages of a successful or failed initialisation, once the socket exists.\<close>

lemma init_stages:
  assumes "sock_server_init ty port cid env k = ok (r, k')" and "sysq k = a # q" and "0 \<le> ans_ret a"
  obtains k1 good2 k2 good3 k3 where
    "sys (Sys_socket (if ty \<noteq> SOCK_CONN_TYPE_INET_SOCK then AF_UNIX else AF_INET)) k = ok (a, k1)"
    and "(if ty = SOCK_CONN_TYPE_INET_SOCK then sock_server_init_inet ty port (ans_ret a) k1 else ok (True, k1))
           = ok (good2, k2)"
    and "(if good2 \<and> ty = SOCK_CONN_TYPE_UNIX_SOCK then sock_server_init_unix cid env (ans_ret a) k2
          else ok (good2, k2)) = ok (good3, k3)"
    and "(if good3 then sock_server_init_listen ty (ans_ret a) k3 else ok (None, k3)) = ok (r, k')"
proof -
  let ?dom = "if ty \<noteq> SOCK_CONN_TYPE_INET_SOCK then AF_UNIX else AF_INET"
  define k1 where "k1 = k\<lparr>sysq := q, calls := calls k @ [Sys_socket ?dom], errno := errno k\<rparr>"
  have s1: "sys (Sys_socket ?dom) k = ok (a, k1)"
    using assms(2,3) by (simp add: sys_def k1_def)
  have dom: "?dom = AF_INET \<longleftrightarrow> ty = SOCK_CONN_TYPE_INET_SOCK"
    by (simp add: AF_UNIX_def AF_INET_def)
  from assms(1,3) s1 obtain good2 k2 where
    s2: "(if ty = SOCK_CONN_TYPE_INET_SOCK then sock_server_init_inet ty port (ans_ret a) k1 else ok (True, k1))
           = ok (good2, k2)"
    and s3: "(if \<not> good2 then ok (None, k2) else
        bindr (if ty = SOCK_CONN_TYPE_UNIX_SOCK then sock_server_init_unix cid env (ans_ret a) k2
               else ok (True, k2)) (\<lambda>(good, k).
        if \<not> good then ok (None, k) else sock_server_init_listen ty (ans_ret a) k)) = ok (r, k')"
    unfolding sock_server_init_def Let_def dom by (auto simp: bindr_eq_ok)
  from s3 show thesis
    by (cases good2) (auto simp: bindr_eq_ok intro: that [OF s1 s2] split: if_splits)
qed

lemma init_closes:
  assumes "sock_server_init ty port cid env k = ok (r, k')" and "sysq k = a # q" and "0 \<le> ans_ret a"
  shows "closes (ans_ret a) k' = closes (ans_ret a) k + (if r = None then 1 else 0)"
proof -
  let ?fd = "ans_ret a"
  from init_stages [OF assms] obtain k1 good2 k2 good3 k3 where
    s1: "sys (Sys_socket (if ty \<noteq> SOCK_CONN_TYPE_INET_SOCK then AF_UNIX else AF_INET)) k = ok (a, k1)"
    and s2: "(if ty = SOCK_CONN_TYPE_INET_SOCK then sock_server_init_inet ty port ?fd k1 else ok (True, k1))
           = ok (good2, k2)"
    and s3: "(if good2 \<and> ty = SOCK_CONN_TYPE_UNIX_SOCK then sock_server_init_unix cid env ?fd k2
          else ok (good2, k2)) = ok (good3, k3)"
    and s4: "(if good3 then sock_server_init_listen ty ?fd k3 else ok (None, k3)) = ok (r, k')" .
  have "closes ?fd k1 = closes ?fd k" using s1 by (simp add: closes_sys)
  moreover have "closes ?fd k2 = closes ?fd k1 + (if good2 then 0 else 1)"
    using s2 by (auto dest: init_inet_closes split: if_splits)
  moreover have "closes ?fd k3 = closes ?fd k2 + (if good2 \<and> \<not> good3 then 1 else 0)" and "good3 \<Longrightarrow> good2"
    using s3 by (auto dest: init_unix_closes split: if_splits)
  moreover have "closes ?fd k' = closes ?fd k3 + (if good3 \<and> r = None then 1 else 0)" and "\<not> good3 \<Longrightarrow> r = None"
    using s4 by (auto dest: init_listen_closes split: if_splits)
  ultimately show ?thesis by auto
qed

end
