(* ===== verification/Sock_Client.thy ===== *)
theory Sock_Client
  imports Sock_Server
begin

text \<open>
  The C layer of the client socket, \<open>sock_utils/sock_client.cpp\<close>: connecting, closing, the readiness
  check, and single \<open>send\<close> and \<open>recv\<close> calls.
\<close>

record sock_client_t =
  cl_type :: int
  cl_socketfd :: int
  cl_path :: string
  cl_msg_buf :: "byte list"

text \<open>
  \<open>new sock_client_t()\<close> value-initialises the object, and \<open>sock_client_init\<close> never assigns its
  \<open>type\<close> member.
\<close>

definition sock_client_connect :: "int \<Rightarrow> string \<Rightarrow> int \<Rightarrow> int \<Rightarrow> kern \<Rightarrow> (bool \<times> kern) run" where
  "sock_client_connect ty server_path port fd k =
     (if ty \<noteq> SOCK_CONN_TYPE_INET_SOCK then
        (if ty = SOCK_CONN_TYPE_ABS_SOCK
         then bindr (sys (Sys_connect fd (Addr_un [])) k) (\<lambda>(a, k). ok (0 \<le> ans_ret a, k))
         else if length server_path > SUN_PATH_SIZE - 1 then ok (False, k)
         else bindr (sys (Sys_connect fd (Addr_un server_path)) k) (\<lambda>(a, k). ok (0 \<le> ans_ret a, k)))
      else bindr (sys (Sys_connect fd (Addr_in port)) k) (\<lambda>(a, k). ok (0 \<le> ans_ret a, k)))"

definition sock_client_init :: "int \<Rightarrow> string \<Rightarrow> int \<Rightarrow> kern \<Rightarrow> (sock_client_t option \<times> kern) run" where
  "sock_client_init ty server_path port k =
     bindr (sys (Sys_socket (if ty \<noteq> SOCK_CONN_TYPE_INET_SOCK then AF_UNIX else AF_INET)) k) (\<lambda>(a, k).
     let fd = ans_ret a in
     if fd < 0 then ok (None, k) else
     bindr (if ty = SOCK_CONN_TYPE_INET_SOCK
            then bindr (sys (Sys_setsockopt fd ''SO_REUSEADDR'') k) (\<lambda>(a, k).
                 if ans_ret a < 0 then exits (-1) else
                 bindr (sys (Sys_setsockopt fd ''TCP_NODELAY'') k) (\<lambda>(a, k).
                 if ans_ret a < 0 then exits (-1) else ok k))
            else ok k) (\<lambda>k.
     bindr (sock_client_connect ty server_path port fd k) (\<lambda>(conn, k).
     if \<not> conn then ok (None, sys_close fd k) else
     bindr (sys (Sys_nonblock fd) k) (\<lambda>(a, k).
     if ans_ret a < 0 then ok (None, sys_close fd k) else
     if length server_path > SOCK_MAX_PATH_LEN - 1 then ok (None, sys_close fd k) else
     ok (Some \<lparr>cl_type = 0, cl_socketfd = fd, cl_path = server_path, cl_msg_buf = []\<rparr>, k)))))"

definition sock_client_close :: "sock_client_t option \<Rightarrow> kern \<Rightarrow> kern" where
  "sock_client_close client k = (case client of None \<Rightarrow> k | Some c \<Rightarrow> sys_close (cl_socketfd c) k)"

text \<open>
  Unlike the server's check, the client's one ignores the result of the \<open>FIONREAD\<close> request:
  \<open>nread\<close> keeps its initial 0 when the request fails.
\<close>

definition sock_client_check_connect ::
  "sock_client_t option \<Rightarrow> int \<Rightarrow> kern \<Rightarrow> (sock_conn_status_t \<times> kern) run" where
  "sock_client_check_connect client timeout_ms k = (case client of None \<Rightarrow> ok (normal, k)
     | Some c \<Rightarrow>
         bindr (FD_SET (cl_socketfd c) []) (\<lambda>rf.
         bindr (sys_select rf [] (timeout_ms * 1000) k) (\<lambda>(nsel, rf, _, k).
         if nsel = -1 then ok (normal, k) else if nsel = 0 then ok (normal, k) else
         bindr (FD_ISSET (cl_socketfd c) rf) (\<lambda>isset.
         if isset then
           bindr (sys (Sys_fionread (cl_socketfd c)) k) (\<lambda>(a, k).
           let nread = (if ans_ret a = -1 then 0 else ans_val a) in
           ok (if nread \<noteq> 0 then readable else disconnect, k))
         else ok (normal, k)))))"

definition sock_client_send :: "sock_client_t option \<Rightarrow> byte list \<Rightarrow> kern \<Rightarrow> (int \<times> kern) run" where
  "sock_client_send client data k = (case client of None \<Rightarrow> ok (-1, k)
     | Some c \<Rightarrow> sys_send (cl_socketfd c) data k)"

definition sock_client_recv ::
  "sock_client_t option \<Rightarrow> byte list \<Rightarrow> nat \<Rightarrow> nat \<Rightarrow> kern \<Rightarrow> (int \<times> byte list \<times> kern) run" where
  "sock_client_recv client buf p datalen k = (case client of None \<Rightarrow> ok (-1, buf, k)
     | Some c \<Rightarrow>
         bindr (sys_recv (cl_socketfd c) datalen k) (\<lambda>(ret, ds, k).
         bindr (buf_write buf p ds) (\<lambda>buf. ok (ret, buf, k))))"

end
