(* ===== verification/Sock_Transfer.thy ===== *)
theory Sock_Transfer
  imports Sock_Client
begin

text \<open>
  The transfer loops of \<open>sock_utils/sock_utils.cpp\<close>. \<open>SockServer\<close> and \<open>SockClient\<close> repeat the same
  four loops over their own single-call primitive, so each loop is defined once over the primitive
  and used for both. What the loops need of the primitive is stated in two locales, which are
  interpreted on the server's and on the client's primitive.
\<close>

type_synonym rcv_prim = "byte list \<Rightarrow> nat \<Rightarrow> nat \<Rightarrow> kern \<Rightarrow> (int \<times> byte list \<times> kern) run"
type_synonym snd_prim = "byte list \<Rightarrow> kern \<Rightarrow> (int \<times> kern) run"

section \<open>The loops\<close>

text \<open>
  \<open>p\<close> is the offset of \<open>p_src\<close> in the buffer. In the sending loops \<open>data\<close> is what is left to send
  from \<open>p_src\<close> on, and \<open>left_size\<close> counts it.
\<close>

partial_function (option) recv_block ::
  "rcv_prim \<Rightarrow> byte list \<Rightarrow> nat \<Rightarrow> int \<Rightarrow> int \<Rightarrow> kern \<Rightarrow> (int \<times> byte list \<times> kern) run" where
  "recv_block rcv buf p left_size total_size k =
     (if left_size > 0 then
        bindr (rcv buf p (size_t left_size) k) (\<lambda>(ret, buf, k).
        if ret > 0 then recv_block rcv buf (p + nat ret) (left_size - ret) (total_size + ret) k
        else if errno k = EINTR \<or> errno k = EAGAIN \<or> errno k = EWOULDBLOCK
        then recv_block rcv buf p left_size total_size (usleep 1000 k)
        else ok (total_size, buf, k))
      else ok (total_size, buf, k))"

partial_function (option) recv_timeout ::
  "rcv_prim \<Rightarrow> byte list \<Rightarrow> nat \<Rightarrow> int \<Rightarrow> int \<Rightarrow> int \<Rightarrow> kern \<Rightarrow> (int \<times> byte list \<times> kern) run" where
  "recv_timeout rcv buf p left_size retry_count total_size k =
     (if left_size > 0 then
        bindr (rcv buf p (size_t left_size) k) (\<lambda>(ret, buf, k).
        if ret > 0 then recv_timeout rcv buf (p + nat ret) (left_size - ret) retry_count (total_size + ret) k
        else if errno k = EINTR \<or> errno k = EAGAIN then
          (if retry_count < 0 then ok (total_size, buf, k)
           else recv_timeout rcv buf p left_size (retry_count - 1) total_size (usleep 1000 k))
        else ok (total_size, buf, k))
      else ok (total_size, buf, k))"

text \<open>The kernel reads the bytes to send from the caller's object.\<close>

definition c_read :: "byte list \<Rightarrow> nat \<Rightarrow> byte list run" where
  "c_read data n = (if n \<le> length data then ok (take n data) else fault Array_Index)"

partial_function (option) send_timeout ::
  "snd_prim \<Rightarrow> byte list \<Rightarrow> int \<Rightarrow> int \<Rightarrow> int \<Rightarrow> kern \<Rightarrow> (int \<times> kern) run" where
  "send_timeout tx data left_size retry_count total_size k =
     (if left_size > 0 then
        bindr (c_read data (size_t left_size)) (\<lambda>ds.
        bindr (tx ds k) (\<lambda>(ret, k).
        if ret > 0 then send_timeout tx (drop (nat ret) data) (left_size - ret) retry_count (total_size + ret) k
        else if errno k = EINTR \<or> errno k = EAGAIN then
          (if retry_count < 0 then ok (total_size, k)
           else send_timeout tx data left_size (retry_count - 1) total_size (usleep 1000 k))
        else ok (total_size, k)))
      else ok (total_size, k))"

partial_function (option) send_block ::
  "snd_prim \<Rightarrow> byte list \<Rightarrow> int \<Rightarrow> int \<Rightarrow> kern \<Rightarrow> (int \<times> kern) run" where
  "send_block tx data left_size total_size k =
     (if left_size > 0 then
        bindr (c_read data (size_t left_size)) (\<lambda>ds.
        bindr (tx ds k) (\<lambda>(ret, k).
        if ret > 0 then send_block tx (drop (nat ret) data) (left_size - ret) (total_size + ret) k
        else if errno k = EINTR \<or> errno k = EAGAIN \<or> errno k = EWOULDBLOCK
        then send_block tx data left_size total_size (usleep 1000 k)
        else ok (total_size, k)))
      else ok (total_size, k))"

section \<open>Reference behaviour\<close>

text \<open>
  What a loop should do, as a structural recursion over the outcomes the kernel has in store: a
  budget of retries (\<open>None\<close> for a blocking call), the number of bytes still wanted and the current
  errno give the bytes transferred, the errno left behind, the outcomes not used up and the number
  of one-millisecond sleeps.
\<close>

fun spend :: "int option \<Rightarrow> int option option" where
  "spend None = Some None"
| "spend (Some b) = (if b < 0 then None else Some (Some (b - 1)))"

fun drain :: "int option \<Rightarrow> nat \<Rightarrow> int \<Rightarrow> recv_out list \<Rightarrow> (byte list \<times> int \<times> recv_out list \<times> nat) option" where
  "drain bud 0 e outs = Some ([], e, outs, 0)"
| "drain bud (Suc n) e [] = None"
| "drain bud (Suc n) e (RecvErr e' # r) =
     (if \<not> retry_errno e' then Some ([], e', r, 0) else
      case spend bud of None \<Rightarrow> Some ([], e', r, 0)
      | Some bud' \<Rightarrow> map_option (\<lambda>(ds, e, r, z). (ds, e, r, Suc z)) (drain bud' (Suc n) e' r))"
| "drain bud (Suc n) e (Recvd [] # r) =
     (if \<not> retry_errno e then Some ([], e, r, 0) else
      case spend bud of None \<Rightarrow> Some ([], e, r, 0)
      | Some bud' \<Rightarrow> map_option (\<lambda>(ds, e, r, z). (ds, e, r, Suc z)) (drain bud' (Suc n) e r))"
| "drain bud (Suc n) e (Recvd (b # bs) # r) =
     (if Suc n < length (b # bs) then Some (take (Suc n) (b # bs), e, Recvd (drop (Suc n) (b # bs)) # r, 0)
      else map_option (\<lambda>(ds, e, r, z). ((b # bs) @ ds, e, r, z)) (drain bud (Suc n - length (b # bs)) e r))"

fun push :: "int option \<Rightarrow> nat \<Rightarrow> int \<Rightarrow> send_out list \<Rightarrow> (nat \<times> int \<times> send_out list \<times> nat) option" where
  "push bud 0 e outs = Some (0, e, outs, 0)"
| "push bud (Suc n) e [] = None"
| "push bud (Suc n) e (SendErr e' # r) =
     (if \<not> retry_errno e' then Some (0, e', r, 0) else
      case spend bud of None \<Rightarrow> Some (0, e', r, 0)
      | Some bud' \<Rightarrow> map_option (\<lambda>(m, e, r, z). (m, e, r, Suc z)) (push bud' (Suc n) e' r))"
| "push bud (Suc n) e (Sent 0 # r) =
     (if \<not> retry_errno e then Some (0, e, r, 0) else
      case spend bud of None \<Rightarrow> Some (0, e, r, 0)
      | Some bud' \<Rightarrow> map_option (\<lambda>(m, e, r, z). (m, e, r, Suc z)) (push bud' (Suc n) e r))"
| "push bud (Suc n) e (Sent (Suc m) # r) =
     map_option (\<lambda>(m', e, r, z). (min (Suc n) (Suc m) + m', e, r, z)) (push bud (Suc n - min (Suc n) (Suc m)) e r)"

lemma nat_one_int [simp]: "nat (1 + int m) = Suc m"
  by simp

text \<open>How the outcome of the reference behaviour is seen in the buffer and in the kernel.\<close>

definition recv_result ::
  "int \<Rightarrow> byte list \<Rightarrow> nat \<Rightarrow> int \<Rightarrow> kern \<Rightarrow> (byte list \<times> int \<times> recv_out list \<times> nat) option
     \<Rightarrow> (int \<times> byte list \<times> kern) run" where
  "recv_result fd buf p tot k res = map_option (\<lambda>(ds, e, r, z).
     Inr (tot + int (length ds), take p buf @ ds @ drop (p + length ds) buf,
          k\<lparr>errno := e, inbox := (inbox k)(fd := r), slept_us := slept_us k + 1000 * z\<rparr>)) res"

definition send_result ::
  "int \<Rightarrow> byte list \<Rightarrow> int \<Rightarrow> kern \<Rightarrow> (nat \<times> int \<times> send_out list \<times> nat) option \<Rightarrow> (int \<times> kern) run" where
  "send_result fd data tot k res = map_option (\<lambda>(m, e, r, z).
     Inr (tot + int m,
          k\<lparr>errno := e, outq := (outq k)(fd := r), sent := (sent k)(fd := sent k fd @ take m data),
            slept_us := slept_us k + 1000 * z\<rparr>)) res"

lemma recv_result_None [simp]: "recv_result fd buf p tot k None = None"
  by (simp add: recv_result_def)

lemma recv_result_nothing [simp]:
  "inbox k fd = r \<Longrightarrow> recv_result fd buf p tot k (Some ([], errno k, r, 0)) = ok (tot, buf, k)"
  by (auto simp: recv_result_def)

text \<open>A transfer continued after a chunk, and after a sleep.\<close>

lemma recv_result_chunk:
  assumes "p + length bs \<le> length buf" and "inbox k fd = c # r"
  shows "recv_result fd (take p buf @ bs @ drop (p + length bs) buf) (p + length bs) (tot + int (length bs))
           (k\<lparr>inbox := (inbox k)(fd := r)\<rparr>) res
       = recv_result fd buf p tot k (map_option (\<lambda>(ds, e, r, z). (bs @ ds, e, r, z)) res)"
  using assms by (cases res) (auto simp: recv_result_def algebra_simps)

lemma recv_result_chunk_Cons:
  assumes "Suc (p + length cs) \<le> length buf" and "inbox k fd = d # r"
  shows "recv_result fd (take p buf @ c # cs @ drop (Suc (p + length cs)) buf) (Suc (p + length cs))
           (tot + (1 + int (length cs))) (k\<lparr>inbox := (inbox k)(fd := r)\<rparr>) res
       = recv_result fd buf p tot k (map_option (\<lambda>(ds, y). (c # cs @ ds, y)) res)"
  using recv_result_chunk [of p "c # cs" buf k fd d r tot res] assms by simp

lemma recv_result_sleep:
  "recv_result fd buf p tot (usleep 1000 (k\<lparr>errno := e, inbox := (inbox k)(fd := r)\<rparr>)) res
     = recv_result fd buf p tot k (map_option (\<lambda>(ds, e, r, z). (ds, e, r, Suc z)) res)"
  "recv_result fd buf p tot (usleep 1000 (k\<lparr>inbox := (inbox k)(fd := r)\<rparr>)) res
     = recv_result fd buf p tot k (map_option (\<lambda>(ds, e, r, z). (ds, e, r, Suc z)) res)"
  by (cases res; auto simp: recv_result_def usleep_def)+

section \<open>The receiving contract\<close>

text \<open>
  A receive primitive is tied to a stream descriptor. \<open>usable\<close> says when the primitive reaches the
  descriptor (for the server: the proxy's slot exists).
\<close>

locale recv_channel =
  fixes rcv :: rcv_prim and fd :: int and usable :: bool
  assumes rcv_stream: "usable \<Longrightarrow> rcv buf p n k =
    bindr (sys_recv fd n k) (\<lambda>(ret, ds, k). bindr (buf_write buf p ds) (\<lambda>buf. ok (ret, buf, k)))"
begin

lemma rcv_err:
  assumes "usable" "inbox k fd = RecvErr e # r" "p \<le> length buf"
  shows "rcv buf p n k = ok (-1, buf, k\<lparr>errno := e, inbox := (inbox k)(fd := r)\<rparr>)"
  using assms by (simp add: rcv_stream sys_recv_def)

lemma rcv_eof:
  assumes "usable" "inbox k fd = Recvd [] # r" "p \<le> length buf"
  shows "rcv buf p n k = ok (0, buf, k\<lparr>inbox := (inbox k)(fd := r)\<rparr>)"
  using assms by (simp add: rcv_stream sys_recv_def)

lemma rcv_data:
  assumes "usable" "inbox k fd = Recvd bs # r" "p + min n (length bs) \<le> length buf"
  shows "rcv buf p n k = ok (int (min n (length bs)),
     take p buf @ take n bs @ drop (p + min n (length bs)) buf,
     k\<lparr>inbox := (inbox k)(fd := (if n < length bs then Recvd (drop n bs) # r else r))\<rparr>)"
  using assms by (simp add: rcv_stream sys_recv_def buf_write_def min.commute)

lemma recv_block_drain:
  assumes u: "usable" and "p + n \<le> length buf" and "n < 2 ^ 31" and "errno k = e" and "inbox k fd = outs"
    and "lf = int n"
  shows "recv_block rcv buf p lf tot k = recv_result fd buf p tot k (drain (None :: int option) n e outs)"
  using assms(2-)
proof (induction "None :: int option" n e outs arbitrary: buf p tot k lf rule: drain.induct)
  case (1 e outs)
  then show ?case by (subst recv_block.simps) auto
next
  case (2 n e)
  then show ?case by (subst recv_block.simps) (simp add: rcv_stream [OF u] sys_recv_def)
next
  case (3 n e e' r)
  then show ?case
    by (subst recv_block.simps)
      (simp add: rcv_err [OF u] recv_result_sleep retry_errno_wouldblock, simp add: recv_result_def)
next
  case (4 n e r)
  then show ?case
    by (subst recv_block.simps)
      (simp add: rcv_eof [OF u] recv_result_sleep retry_errno_wouldblock, simp add: recv_result_def)
next
  case (5 n e c cs r)
  show ?case
  proof (cases "Suc n < length (c # cs)")
    case True
    with "5.prems" show ?thesis
      by (subst recv_block.simps)
        (simp add: rcv_data [OF u], subst recv_block.simps, simp add: recv_result_def)
  next
    case False
    with "5.prems" show ?thesis
      by (subst recv_block.simps) (simp add: rcv_data [OF u] "5.hyps" recv_result_chunk_Cons)
  qed
qed

lemma recv_timeout_drain:
  assumes u: "usable" and "p + n \<le> length buf" and "n < 2 ^ 31" and "errno k = e" and "inbox k fd = outs"
    and "lf = int n"
  shows "recv_timeout rcv buf p lf b tot k = recv_result fd buf p tot k (drain (Some b) n e outs)"
  using assms(2-)
proof (induction "Some b" n e outs arbitrary: buf p tot k lf b rule: drain.induct)
  case (1 e outs)
  then show ?case by (subst recv_timeout.simps) auto
next
  case (2 n e)
  then show ?case by (subst recv_timeout.simps) (simp add: rcv_stream [OF u] sys_recv_def)
next
  case (3 n e e' r)
  then show ?case
    by (subst recv_timeout.simps)
      (simp add: rcv_err [OF u] recv_result_sleep flip: retry_errno_def, simp add: recv_result_def)
next
  case (4 n e r)
  then show ?case
    by (subst recv_timeout.simps)
      (simp add: rcv_eof [OF u] recv_result_sleep flip: retry_errno_def, simp add: recv_result_def)
next
  case (5 n e c cs r)
  show ?case
  proof (cases "Suc n < length (c # cs)")
    case True
    with "5.prems" show ?thesis
      by (subst recv_timeout.simps)
        (simp add: rcv_data [OF u], subst recv_timeout.simps, simp add: recv_result_def)
  next
    case False
    with "5.prems" show ?thesis
      by (subst recv_timeout.simps) (simp add: rcv_data [OF u] "5.hyps" recv_result_chunk_Cons)
  qed
qed

end

section \<open>The sending contract\<close>

lemma send_result_None [simp]: "send_result fd data tot k None = None"
  by (simp add: send_result_def)

lemma send_result_nothing [simp]:
  "outq k fd = r \<Longrightarrow> send_result fd data tot k (Some (0, errno k, r, 0)) = ok (tot, k)"
  by (auto simp: send_result_def)

lemma send_result_chunk:
  assumes "m \<le> length data"
  shows "send_result fd (drop m data) (tot + int m)
           (k\<lparr>outq := (outq k)(fd := r), sent := (sent k)(fd := sent k fd @ take m data)\<rparr>) res
       = send_result fd data tot k (map_option (\<lambda>(m', e, r, z). (m + m', e, r, z)) res)"
  using assms by (cases res) (auto simp: send_result_def take_add)

lemma send_result_sleep:
  "send_result fd data tot (usleep 1000 (k\<lparr>errno := e, outq := (outq k)(fd := r)\<rparr>)) res
     = send_result fd data tot k (map_option (\<lambda>(m, e, r, z). (m, e, r, Suc z)) res)"
  "send_result fd data tot (usleep 1000 (k\<lparr>outq := (outq k)(fd := r)\<rparr>)) res
     = send_result fd data tot k (map_option (\<lambda>(m, e, r, z). (m, e, r, Suc z)) res)"
  by (cases res; auto simp: send_result_def usleep_def)+

locale send_channel =
  fixes tx :: snd_prim and fd :: int and usable :: bool
  assumes tx_stream: "usable \<Longrightarrow> tx ds k = sys_send fd ds k"
begin

lemma tx_err:
  assumes "usable" "outq k fd = SendErr e # r"
  shows "tx ds k = ok (-1, k\<lparr>errno := e, outq := (outq k)(fd := r)\<rparr>)"
  using assms by (simp add: tx_stream sys_send_def)

lemma tx_zero:
  assumes "usable" "outq k fd = Sent 0 # r"
  shows "tx ds k = ok (0, k\<lparr>outq := (outq k)(fd := r)\<rparr>)"
  using assms by (simp add: tx_stream sys_send_def)

lemma tx_some:
  assumes "usable" "outq k fd = Sent m # r"
  shows "tx ds k = ok (int (min m (length ds)),
           k\<lparr>outq := (outq k)(fd := r), sent := (sent k)(fd := sent k fd @ take m ds)\<rparr>)"
  using assms by (simp add: tx_stream sys_send_def min.commute)

lemma send_timeout_push:
  assumes u: "usable" and "n \<le> length data" and "n < 2 ^ 31" and "errno k = e" and "outq k fd = outs"
    and "lf = int n"
  shows "send_timeout tx data lf b tot k = send_result fd data tot k (push (Some b) n e outs)"
  using assms(2-)
proof (induction "Some b" n e outs arbitrary: data tot k lf b rule: push.induct)
  case (1 e outs)
  then show ?case by (subst send_timeout.simps) auto
next
  case (2 n e)
  then show ?case by (subst send_timeout.simps) (simp add: tx_stream [OF u] c_read_def sys_send_def)
next
  case (3 n e e' r)
  then show ?case
    by (subst send_timeout.simps)
      (simp add: tx_err [OF u] c_read_def send_result_sleep flip: retry_errno_def, simp add: send_result_def)
next
  case (4 n e r)
  then show ?case
    by (subst send_timeout.simps)
      (simp add: tx_zero [OF u] c_read_def send_result_sleep flip: retry_errno_def, simp add: send_result_def)
next
  case (5 n e m r)
  define q where "q = min (Suc n) (Suc m)"
  have q: "0 < q" "q \<le> Suc n" "q \<le> length data" using "5.prems" by (auto simp: q_def)
  have t: "tx (take (Suc n) data) k = ok (int q,
      k\<lparr>outq := (outq k)(fd := r), sent := (sent k)(fd := sent k fd @ take q data)\<rparr>)"
    using "5.prems" by (simp add: tx_some [OF u] q_def min.commute)
  have IH: "send_timeout tx (drop q data) (lf - int q) b (tot + int q)
      (k\<lparr>outq := (outq k)(fd := r), sent := (sent k)(fd := sent k fd @ take q data)\<rparr>)
    = send_result fd (drop q data) (tot + int q)
      (k\<lparr>outq := (outq k)(fd := r), sent := (sent k)(fd := sent k fd @ take q data)\<rparr>)
      (push (Some b) (Suc n - q) e r)"
    unfolding q_def by (rule "5.hyps") (use "5.prems" in \<open>auto simp: min_def of_nat_diff\<close>)
  have "push (Some b) (Suc n) e (Sent (Suc m) # r)
      = map_option (\<lambda>(m', e, r, z). (q + m', e, r, z)) (push (Some b) (Suc n - q) e r)"
    by (simp only: push.simps q_def)
  then show ?case using "5.prems" q t IH
    by (subst send_timeout.simps) (simp add: c_read_def send_result_chunk del: push.simps)
qed

lemma send_block_push:
  assumes u: "usable" and "n \<le> length data" and "n < 2 ^ 31" and "errno k = e" and "outq k fd = outs"
    and "lf = int n"
  shows "send_block tx data lf tot k = send_result fd data tot k (push (None :: int option) n e outs)"
  using assms(2-)
proof (induction "None :: int option" n e outs arbitrary: data tot k lf rule: push.induct)
  case (1 e outs)
  then show ?case by (subst send_block.simps) auto
next
  case (2 n e)
  then show ?case by (subst send_block.simps) (simp add: tx_stream [OF u] c_read_def sys_send_def)
next
  case (3 n e e' r)
  then show ?case
    by (subst send_block.simps)
      (simp add: tx_err [OF u] c_read_def send_result_sleep retry_errno_wouldblock, simp add: send_result_def)
next
  case (4 n e r)
  then show ?case
    by (subst send_block.simps)
      (simp add: tx_zero [OF u] c_read_def send_result_sleep retry_errno_wouldblock, simp add: send_result_def)
next
  case (5 n e m r)
  define q where "q = min (Suc n) (Suc m)"
  have q: "0 < q" "q \<le> Suc n" "q \<le> length data" using "5.prems" by (auto simp: q_def)
  have t: "tx (take (Suc n) data) k = ok (int q,
      k\<lparr>outq := (outq k)(fd := r), sent := (sent k)(fd := sent k fd @ take q data)\<rparr>)"
    using "5.prems" by (simp add: tx_some [OF u] q_def min.commute)
  have IH: "send_block tx (drop q data) (lf - int q) (tot + int q)
      (k\<lparr>outq := (outq k)(fd := r), sent := (sent k)(fd := sent k fd @ take q data)\<rparr>)
    = send_result fd (drop q data) (tot + int q)
      (k\<lparr>outq := (outq k)(fd := r), sent := (sent k)(fd := sent k fd @ take q data)\<rparr>)
      (push (None :: int option) (Suc n - q) e r)"
    unfolding q_def by (rule "5.hyps") (use "5.prems" in \<open>auto simp: min_def of_nat_diff\<close>)
  have "push (None :: int option) (Suc n) e (Sent (Suc m) # r)
      = map_option (\<lambda>(m', e, r, z). (q + m', e, r, z)) (push (None :: int option) (Suc n - q) e r)"
    by (simp only: push.simps q_def)
  then show ?case using "5.prems" q t IH
    by (subst send_block.simps) (simp add: c_read_def send_result_chunk del: push.simps)
qed

end

section \<open>What the reference behaviour gives\<close>

definition stream_of :: "recv_out list \<Rightarrow> byte list" where
  "stream_of outs = concat (map (\<lambda>c. case c of Recvd bs \<Rightarrow> bs | RecvErr e \<Rightarrow> []) outs)"

lemma stream_of_simps [simp]:
  "stream_of [] = []" "stream_of (Recvd bs # r) = bs @ stream_of r" "stream_of (RecvErr e # r) = stream_of r"
  by (simp_all add: stream_of_def)

text \<open>The outcomes contain nothing that makes a blocking loop give up, starting from errno \<open>e\<close>.\<close>

fun calm :: "int \<Rightarrow> recv_out list \<Rightarrow> bool" where
  "calm e [] = True"
| "calm e (RecvErr e' # r) = (retry_errno e' \<and> calm e' r)"
| "calm e (Recvd bs # r) = ((bs = [] \<longrightarrow> retry_errno e) \<and> calm e r)"

lemma drain_length: "drain bud n e outs = Some (ds, e', r, z) \<Longrightarrow> length ds \<le> n"
  by (induction bud n e outs arbitrary: ds e' r z rule: drain.induct)
    (fastforce split: if_splits option.splits)+

lemma drain_stream: "drain bud n e outs = Some (ds, e', r, z) \<Longrightarrow> stream_of outs = ds @ stream_of r"
  by (induction bud n e outs arbitrary: ds e' r z rule: drain.induct)
    (fastforce split: if_splits option.splits)+

lemma drain_sleeps: "drain (Some b) n e outs = Some (ds, e', r, z) \<Longrightarrow> z \<le> nat (b + 1)"
  by (induction "Some b" n e outs arbitrary: b ds e' r z rule: drain.induct)
    (fastforce split: if_splits)+

lemma drain_calm:
  assumes "calm e outs" and "n \<le> length (stream_of outs)"
  shows "\<exists>e' r z. drain None n e outs = Some (take n (stream_of outs), e', r, z)"
  using assms
  by (induction "None :: int option" n e outs rule: drain.induct) fastforce+

lemma drain_enough:
  assumes "n + nat (b + 2) \<le> length outs"
  shows "\<exists>res. drain (Some b) n e outs = Some res"
  using assms
proof (induction "Some b" n e outs arbitrary: b rule: drain.induct)
  case (5 n e c cs r)
  have "n - length cs + nat (b + 2) \<le> length r" using "5.prems" by simp
  with "5.hyps" show ?case by fastforce
qed (fastforce split: if_splits)+

lemma drain_short_blocking:
  "drain None n e outs = Some (ds, e', r, z) \<Longrightarrow> length ds < n \<Longrightarrow> \<not> retry_errno e'"
  by (induction "None :: int option" n e outs arbitrary: ds e' r z rule: drain.induct)
    (fastforce split: if_splits)+

text \<open>A blocking receive on a stream without errors returns with all it wants, or not at all.\<close>

lemma drain_stalls:
  assumes "calm e outs" and "length (stream_of outs) < n"
  shows "drain None n e outs = None"
  using assms
proof (induction "None :: int option" n e outs rule: drain.induct)
  case (5 n e c cs r)
  then have "length (stream_of r) < Suc n - length (c # cs)" and "calm e r" and "\<not> Suc n < length (c # cs)" by auto
  with 5 show ?case by simp
qed auto

lemma drain_eof_spins: "retry_errno e \<Longrightarrow> drain None (Suc n) e (replicate m (Recvd [])) = None"
  by (induction m) simp_all

lemma push_le: "push bud n e outs = Some (m, e', r, z) \<Longrightarrow> m \<le> n"
  by (induction bud n e outs arbitrary: m e' r z rule: push.induct)
    (fastforce split: if_splits option.splits)+

lemma push_sleeps: "push (Some b) n e outs = Some (m, e', r, z) \<Longrightarrow> z \<le> nat (b + 1)"
  by (induction "Some b" n e outs arbitrary: b m e' r z rule: push.induct)
    (fastforce split: if_splits)+

lemma push_enough:
  assumes "n + nat (b + 2) \<le> length outs"
  shows "\<exists>res. push (Some b) n e outs = Some res"
  using assms
proof (induction "Some b" n e outs arbitrary: b rule: push.induct)
  case (5 n e m r)
  have "Suc n - min (Suc n) (Suc m) + nat (b + 2) \<le> length r" using "5.prems" by simp
  with "5.hyps" show ?case by fastforce
qed (fastforce split: if_splits)+

section \<open>The client's primitives meet the contracts\<close>

text \<open>The server's primitives go through a proxy pointer; they are interpreted with the class.\<close>

interpretation client_rx: recv_channel "sock_client_recv (Some c)" "cl_socketfd c" True for c
  by unfold_locales (simp add: sock_client_recv_def)

interpretation client_tx: send_channel "sock_client_send (Some c)" "cl_socketfd c" True for c
  by unfold_locales (simp add: sock_client_send_def)

end
