(* ===== verification/Sock_Utils.thy ===== *)
theory Sock_Utils
  imports Sock_Transfer
begin

text \<open>
  The classes of \<open>sock_utils/sock_utils.cpp\<close>: \<open>SockServer\<close>, which owns the client proxies, picks a
  default client and runs the listener thread, and \<open>SockClient\<close>. The callbacks a program registers
  are functions over the program's own state.
\<close>

section \<open>SockServer: state\<close>

definition MAX_CLIENTS :: nat where "MAX_CLIENTS = 255"

datatype sock_work_mode_t = SOCK_BLOCK_MODE | SOCK_NONBLOCK_MODE | SOCK_TIMEOUT_MODE

text \<open>
  \<open>proxies\<close> is the heap of the client proxies; \<open>stale_log_reads\<close> counts the reads of a deleted proxy
  made by log statements, whose value does not influence the run.
\<close>

record SockServer =
  m_server :: "sock_server_t option"
  m_clients :: "nat option list"
  m_pclient :: "nat option"
  m_port :: int
  m_ncount :: int
  m_be_working :: bool
  m_client_status_check_timeout :: int
  m_connection_timeout_ms :: int
  m_sock_type :: int
  m_thread :: bool
  proxies :: pheap
  stale_log_reads :: nat

type_synonym 'a callback = "SockServer \<Rightarrow> nat \<Rightarrow> 'a \<Rightarrow> kern \<Rightarrow> ('a \<times> kern) run"

record 'a callbacks =
  m_listener_callback :: "'a callback option"
  m_connected_callback :: "'a callback option"
  m_disconnected_callback :: "'a callback option"

text \<open>A server starts without callbacks; a program registers those it wants.\<close>

definition no_callbacks :: "'a callbacks" where
  "no_callbacks = \<lparr>m_listener_callback = None, m_connected_callback = None, m_disconnected_callback = None\<rparr>"

definition register_connected_callback :: "'a callback \<Rightarrow> 'a callbacks \<Rightarrow> 'a callbacks" where
  "register_connected_callback f cbs = cbs\<lparr>m_connected_callback := Some f\<rparr>"

definition register_listener_callback :: "'a callback \<Rightarrow> 'a callbacks \<Rightarrow> 'a callbacks" where
  "register_listener_callback f cbs = cbs\<lparr>m_listener_callback := Some f\<rparr>"

definition register_disconnected_callback :: "'a callback \<Rightarrow> 'a callbacks \<Rightarrow> 'a callbacks" where
  "register_disconnected_callback f cbs = cbs\<lparr>m_disconnected_callback := Some f\<rparr>"

lemmas registration_defs [simp] = no_callbacks_def register_connected_callback_def register_listener_callback_def
  register_disconnected_callback_def

definition call_cb :: "'a callback option \<Rightarrow> SockServer \<Rightarrow> nat \<Rightarrow> 'a \<Rightarrow> kern \<Rightarrow> ('a \<times> kern) run" where
  "call_cb cb ss p a k = (case cb of None \<Rightarrow> ok (a, k) | Some f \<Rightarrow> f ss p a k)"

definition SockServer_new :: "int \<Rightarrow> int \<Rightarrow> pheap \<Rightarrow> SockServer" where
  "SockServer_new port sockType h =
     \<lparr>m_server = None, m_clients = replicate MAX_CLIENTS None, m_pclient = None, m_port = port,
      m_ncount = 0, m_be_working = False, m_client_status_check_timeout = 8,
      m_connection_timeout_ms = 1, m_sock_type = sockType, m_thread = False, proxies = h,
      stale_log_reads = 0\<rparr>"

section \<open>SockServer: life cycle\<close>

fun delete_all :: "nat option list \<Rightarrow> pheap \<Rightarrow> pheap" where
  "delete_all [] h = h"
| "delete_all (None # ps) h = delete_all ps h"
| "delete_all (Some p # ps) h = delete_all ps (delete_proxy p h)"

definition SockServer_start ::
  "string \<Rightarrow> string option \<Rightarrow> SockServer \<Rightarrow> kern \<Rightarrow> (int \<times> SockServer \<times> kern) run" where
  "SockServer_start container_id k8s ss k =
     (let ss = ss\<lparr>m_be_working := True\<rparr> in
      bindr (sock_server_init (m_sock_type ss) (m_port ss) container_id k8s k) (\<lambda>(sv, k).
      let ss = ss\<lparr>m_server := sv\<rparr> in
      if sv = None then ok (-1, ss, k) else
      ok (0, ss\<lparr>proxies := delete_all (m_clients ss) (proxies ss),
                m_clients := map (\<lambda>_. None) (m_clients ss), m_thread := True\<rparr>, k)))"

definition SockServer_stop :: "SockServer \<Rightarrow> SockServer" where
  "SockServer_stop ss = ss\<lparr>m_be_working := False\<rparr>"

definition SockServer_delete :: "SockServer \<Rightarrow> kern \<Rightarrow> (SockServer \<times> kern) run" where
  "SockServer_delete ss k =
     (let ss = SockServer_stop ss in
      bindr (sock_server_close (m_server ss) k) (\<lambda>k.
      ok (ss\<lparr>m_server := None, proxies := delete_all (m_clients ss) (proxies ss),
             m_clients := map (\<lambda>_. None) (m_clients ss), m_thread := False, m_pclient := None\<rparr>, k)))"

definition get_sock_client :: "SockServer \<Rightarrow> nat option" where
  "get_sock_client ss = m_pclient ss"

definition check_connection_default :: "SockServer \<Rightarrow> sock_conn_status_t" where
  "check_connection_default ss = (if m_pclient ss = None then disconnect else normal)"

section \<open>SockServer: the listener thread\<close>

text \<open>Entering an accepted client: the first one becomes the default client.\<close>

definition enter_client :: "nat \<Rightarrow> SockServer \<Rightarrow> SockServer run" where
  "enter_client p ss =
     (let ss = (if m_pclient ss = None then ss\<lparr>m_pclient := Some p\<rparr> else ss) in
      bindr (deref_proxy (proxies ss) p) (\<lambda>c.
      bindr (arr_set (m_clients ss) (proxy_id c) (Some p)) (\<lambda>cl.
      ok (ss\<lparr>m_clients := cl, m_ncount := m_ncount ss + 1\<rparr>))))"

definition admit_client ::
  "'a callbacks \<Rightarrow> nat \<Rightarrow> SockServer \<Rightarrow> 'a \<Rightarrow> kern \<Rightarrow> (int \<times> SockServer \<times> 'a \<times> kern) run" where
  "admit_client cbs p ss a k =
     bindr (enter_client p ss) (\<lambda>ss.
     bindr (call_cb (m_connected_callback cbs) ss p a k) (\<lambda>(a, k).
     ok (m_ncount ss, ss, a, k)))"

definition check_new_connection ::
  "'a callbacks \<Rightarrow> SockServer \<Rightarrow> 'a \<Rightarrow> kern \<Rightarrow> (int \<times> SockServer \<times> 'a \<times> kern) run" where
  "check_new_connection cbs ss a k =
     bindr (sock_server_has_newconn (m_server ss) (m_connection_timeout_ms ss) k) (\<lambda>(has, k).
     if \<not> has then ok (m_ncount ss, ss, a, k) else
     bindr (sock_server_create_client (m_server ss) (proxies ss) k) (\<lambda>(client, sv, h, k).
     let ss = ss\<lparr>m_server := sv, proxies := h\<rparr> in
     case client of None \<Rightarrow> ok (m_ncount ss, ss, a, k) | Some p \<Rightarrow> admit_client cbs p ss a k))"

text \<open>
  Closing a disconnected client: the proxy is deleted, the log statement after it still reads
  \<open>m_clients[i]->id\<close>, then the entry is cleared. \<open>Some r\<close> is the early return.
\<close>

definition forget_client :: "nat \<Rightarrow> nat \<Rightarrow> SockServer \<Rightarrow> (int option \<times> SockServer) run" where
  "forget_client i p ss =
     (let ss = (if m_pclient ss = Some p then ss\<lparr>m_pclient := None\<rparr> else ss);
          ss = (if objs (proxies ss) p = None then ss\<lparr>stale_log_reads := Suc (stale_log_reads ss)\<rparr> else ss) in
      bindr (arr_set (m_clients ss) (int i) None) (\<lambda>cl.
      let ss = ss\<lparr>m_clients := cl, m_ncount := m_ncount ss - 1\<rparr> in
      ok (if m_ncount ss = 0 then Some (int i + 1) else None, ss)))"

definition drop_client ::
  "'a callbacks \<Rightarrow> nat \<Rightarrow> nat \<Rightarrow> SockServer \<Rightarrow> 'a \<Rightarrow> kern \<Rightarrow> (int option \<times> SockServer \<times> 'a \<times> kern) run" where
  "drop_client cbs i p ss a k =
     bindr (call_cb (m_disconnected_callback cbs) ss p a k) (\<lambda>(a, k).
     bindr (sock_server_close_client (m_server ss) (Some p) (proxies ss) k) (\<lambda>(sv, h, k).
     bindr (forget_client i p (ss\<lparr>m_server := sv, proxies := h\<rparr>)) (\<lambda>(r, ss). ok (r, ss, a, k))))"

fun scan_clients ::
  "'a callbacks \<Rightarrow> nat list \<Rightarrow> SockServer \<Rightarrow> 'a \<Rightarrow> kern \<Rightarrow> (int option \<times> SockServer \<times> 'a \<times> kern) run" where
  "scan_clients cbs [] ss a k = ok (None, ss, a, k)"
| "scan_clients cbs (i # ids) ss a k =
     bindr (arr_get (m_clients ss) (int i)) (\<lambda>entry.
     case entry of None \<Rightarrow> scan_clients cbs ids ss a k
     | Some p \<Rightarrow>
         bindr (deref_proxy (proxies ss) p) (\<lambda>c.
         bindr (sock_server_check_connect (m_server ss) (Some c) k) (\<lambda>(st, k).
         case st of
           readable \<Rightarrow> bindr (call_cb (m_listener_callback cbs) ss p a k) (\<lambda>(a, k). scan_clients cbs ids ss a k)
         | disconnect \<Rightarrow> bindr (drop_client cbs i p ss a k) (\<lambda>(r, ss, a, k).
             case r of Some early \<Rightarrow> ok (Some early, ss, a, k) | None \<Rightarrow> scan_clients cbs ids ss a k)
         | normal \<Rightarrow> scan_clients cbs ids ss a k)))"

fun first_client :: "nat option list \<Rightarrow> nat option" where
  "first_client [] = None"
| "first_client (None # ps) = first_client ps"
| "first_client (Some p # ps) = Some p"

definition choose_default :: "SockServer \<Rightarrow> SockServer" where
  "choose_default ss = (if m_pclient ss = None then ss\<lparr>m_pclient := first_client (m_clients ss)\<rparr> else ss)"

definition check_new_message ::
  "'a callbacks \<Rightarrow> SockServer \<Rightarrow> 'a \<Rightarrow> kern \<Rightarrow> (int \<times> SockServer \<times> 'a \<times> kern) run" where
  "check_new_message cbs ss a k =
     bindr (sock_server_clients_readable (m_server ss) (m_client_status_check_timeout ss) k) (\<lambda>(rd, sv, k).
     let ss = ss\<lparr>m_server := sv\<rparr> in
     if \<not> rd then ok (-1, ss, a, k) else
     bindr (scan_clients cbs [0..<MAX_CLIENTS] ss a k) (\<lambda>(r, ss, a, k).
     case r of Some early \<Rightarrow> ok (early, ss, a, k) | None \<Rightarrow> ok (0, choose_default ss, a, k)))"

text \<open>
  The loop of the listener thread. The list gives the values of \<open>m_be_working\<close> it reads, which
  another thread may change at any time.
\<close>

fun listener ::
  "'a callbacks \<Rightarrow> bool list \<Rightarrow> SockServer \<Rightarrow> 'a \<Rightarrow> kern \<Rightarrow> (SockServer \<times> 'a \<times> kern) run" where
  "listener cbs [] ss a k = None"
| "listener cbs (working # ws) ss a k =
     (if working \<and> m_server ss \<noteq> None then
        bindr (check_new_connection cbs ss a k) (\<lambda>(_, ss, a, k).
        bindr (check_new_message cbs ss a k) (\<lambda>(_, ss, a, k).
        listener cbs ws ss a k))
      else ok (ss, a, k))"

section \<open>SockServer: transfers\<close>

definition server_snd :: "SockServer \<Rightarrow> nat \<Rightarrow> snd_prim" where
  "server_snd ss p ds k = bindr (deref_proxy (proxies ss) p) (\<lambda>c. sock_server_send (m_server ss) (Some c) ds k)"

definition server_rcv :: "SockServer \<Rightarrow> nat \<Rightarrow> rcv_prim" where
  "server_rcv ss p buf off n k =
     bindr (deref_proxy (proxies ss) p) (\<lambda>c. sock_server_recv (m_server ss) (Some c) buf off n k)"

definition SockServer_send_data ::
  "SockServer \<Rightarrow> nat option \<Rightarrow> byte list \<Rightarrow> int \<Rightarrow> sock_work_mode_t \<Rightarrow> int \<Rightarrow> kern \<Rightarrow> (int \<times> kern) run" where
  "SockServer_send_data ss client data len mode timeout_ms k =
     (if m_server ss = None then ok (-1, k) else
      case client of None \<Rightarrow> ok (-1, k)
      | Some p \<Rightarrow> (case mode of
          SOCK_NONBLOCK_MODE \<Rightarrow> bindr (c_read data (size_t len)) (\<lambda>ds. server_snd ss p ds k)
        | SOCK_TIMEOUT_MODE \<Rightarrow> send_timeout (server_snd ss p) data len timeout_ms 0 k
        | SOCK_BLOCK_MODE \<Rightarrow> send_block (server_snd ss p) data len 0 k))"

definition SockServer_send_data_default ::
  "SockServer \<Rightarrow> byte list \<Rightarrow> int \<Rightarrow> sock_work_mode_t \<Rightarrow> int \<Rightarrow> kern \<Rightarrow> (int \<times> kern) run" where
  "SockServer_send_data_default ss data len mode timeout_ms k =
     SockServer_send_data ss (m_pclient ss) data len mode timeout_ms k"

definition SockServer_recv_data ::
  "SockServer \<Rightarrow> nat option \<Rightarrow> byte list \<Rightarrow> nat \<Rightarrow> int \<Rightarrow> sock_work_mode_t \<Rightarrow> int \<Rightarrow> kern
     \<Rightarrow> (int \<times> byte list \<times> kern) run" where
  "SockServer_recv_data ss client buf off len mode timeout_ms k =
     (if m_server ss = None then ok (-1, buf, k) else
      case client of None \<Rightarrow> ok (-1, buf, k)
      | Some p \<Rightarrow> (case mode of
          SOCK_BLOCK_MODE \<Rightarrow> recv_block (server_rcv ss p) buf off len 0 k
        | SOCK_NONBLOCK_MODE \<Rightarrow> server_rcv ss p buf off (size_t len) k
        | SOCK_TIMEOUT_MODE \<Rightarrow> recv_timeout (server_rcv ss p) buf off len timeout_ms 0 k))"

section \<open>The server's primitives meet the transfer contracts\<close>

text \<open>The descriptor behind a client pointer, when the pointer is live and its slot exists.\<close>

definition client_fd :: "SockServer \<Rightarrow> nat \<Rightarrow> int option" where
  "client_fd ss p = (case m_server ss of None \<Rightarrow> None | Some sv \<Rightarrow>
     (case objs (proxies ss) p of None \<Rightarrow> None | Some c \<Rightarrow>
       (if 0 \<le> proxy_id c \<and> proxy_id c < int (length (client_slots sv))
        then Some (client_slots sv ! nat (proxy_id c)) else None)))"

lemma client_fd_SomeE:
  assumes "client_fd ss p = Some fd"
  obtains sv c where "m_server ss = Some sv" and "objs (proxies ss) p = Some c"
    and "0 \<le> proxy_id c" and "proxy_id c < int (length (client_slots sv))"
    and "fd = client_slots sv ! nat (proxy_id c)"
  using assms by (auto simp: client_fd_def split: option.splits if_splits)

interpretation server_rx: recv_channel "server_rcv ss p" fd "client_fd ss p = Some fd" for ss p fd
proof unfold_locales
  fix buf off n k
  assume "client_fd ss p = Some fd"
  then show "server_rcv ss p buf off n k = bindr (sys_recv fd n k) (\<lambda>(ret, ds, k).
      bindr (buf_write buf off ds) (\<lambda>buf. ok (ret, buf, k)))"
    by (elim client_fd_SomeE) (simp add: server_rcv_def deref_proxy_def sock_server_recv_def arr_get_ok)
qed

interpretation server_tx: send_channel "server_snd ss p" fd "client_fd ss p = Some fd" for ss p fd
proof unfold_locales
  fix ds k
  assume "client_fd ss p = Some fd"
  then show "server_snd ss p ds k = sys_send fd ds k"
    by (elim client_fd_SomeE) (simp add: server_snd_def deref_proxy_def sock_server_send_def arr_get_ok)
qed

lemma recv_data_block:
  assumes "client_fd ss p = Some fd" and "off + nat len \<le> length buf" and "0 \<le> len" and "len < 2 ^ 31"
  shows "SockServer_recv_data ss (Some p) buf off len SOCK_BLOCK_MODE tmo k
       = recv_result fd buf off 0 k (drain None (nat len) (errno k) (inbox k fd))"
proof -
  from assms(1) obtain sv where "m_server ss = Some sv" by (rule client_fd_SomeE)
  with assms show ?thesis
    by (simp add: SockServer_recv_data_def server_rx.recv_block_drain [where n = "nat len"])
qed

lemma recv_data_timeout:
  assumes "client_fd ss p = Some fd" and "off + nat len \<le> length buf" and "0 \<le> len" and "len < 2 ^ 31"
  shows "SockServer_recv_data ss (Some p) buf off len SOCK_TIMEOUT_MODE tmo k
       = recv_result fd buf off 0 k (drain (Some tmo) (nat len) (errno k) (inbox k fd))"
proof -
  from assms(1) obtain sv where "m_server ss = Some sv" by (rule client_fd_SomeE)
  with assms show ?thesis
    by (simp add: SockServer_recv_data_def server_rx.recv_timeout_drain [where n = "nat len"])
qed

lemma send_data_timeout:
  assumes "client_fd ss p = Some fd" and "nat len \<le> length data" and "0 \<le> len" and "len < 2 ^ 31"
  shows "SockServer_send_data ss (Some p) data len SOCK_TIMEOUT_MODE tmo k
       = send_result fd data 0 k (push (Some tmo) (nat len) (errno k) (outq k fd))"
proof -
  from assms(1) obtain sv where "m_server ss = Some sv" by (rule client_fd_SomeE)
  with assms show ?thesis
    by (simp add: SockServer_send_data_def server_tx.send_timeout_push [where n = "nat len"])
qed

lemma send_data_block:
  assumes "client_fd ss p = Some fd" and "nat len \<le> length data" and "0 \<le> len" and "len < 2 ^ 31"
  shows "SockServer_send_data ss (Some p) data len SOCK_BLOCK_MODE tmo k
       = send_result fd data 0 k (push None (nat len) (errno k) (outq k fd))"
proof -
  from assms(1) obtain sv where "m_server ss = Some sv" by (rule client_fd_SomeE)
  with assms show ?thesis
    by (simp add: SockServer_send_data_def server_tx.send_block_push [where n = "nat len"])
qed

section \<open>The client table\<close>

text \<open>
  The invariant ties the three views of the connected clients together: the descriptor slots of the
  C layer, the array of proxy pointers, and the heap. The C layer has 512 slots, the array 255
  entries; the invariant confines the used slots to those the array can hold.
\<close>

definition slots_inv :: "SockServer \<Rightarrow> sock_server_t \<Rightarrow> bool" where
  "slots_inv ss sv \<longleftrightarrow>
     length (client_slots sv) = SOCK_MAX_CLIENTS \<and> 0 \<le> socketfd sv \<and> socketfd sv < 1024 \<and>
     (\<forall>i < SOCK_MAX_CLIENTS. client_slots sv ! i = -1 \<or> 0 \<le> client_slots sv ! i \<and> client_slots sv ! i < 1024) \<and>
     (\<forall>i < MAX_CLIENTS. case m_clients ss ! i of None \<Rightarrow> client_slots sv ! i = -1
        | Some p \<Rightarrow> client_slots sv ! i \<noteq> -1 \<and> (\<exists>c. objs (proxies ss) p = Some c \<and> proxy_id c = int i)) \<and>
     (\<forall>i. MAX_CLIENTS \<le> i \<and> i < SOCK_MAX_CLIENTS \<longrightarrow> client_slots sv ! i = -1)"

definition connected :: "SockServer \<Rightarrow> nat option list" where
  "connected ss = filter (\<lambda>e. e \<noteq> None) (m_clients ss)"

definition table_inv :: "SockServer \<Rightarrow> bool" where
  "table_inv ss \<longleftrightarrow>
     length (m_clients ss) = MAX_CLIENTS \<and>
     (\<forall>p. objs (proxies ss) p \<noteq> None \<longrightarrow> p < next_ptr (proxies ss)) \<and>
     m_ncount ss = int (length (connected ss)) \<and>
     (\<forall>p. m_pclient ss = Some p \<longrightarrow> Some p \<in> set (m_clients ss)) \<and>
     (case m_server ss of None \<Rightarrow> connected ss = [] | Some sv \<Rightarrow> slots_inv ss sv)"

lemma slots_inv_entry:
  "slots_inv ss sv \<Longrightarrow> i < MAX_CLIENTS \<Longrightarrow> m_clients ss ! i = Some p \<Longrightarrow>
     client_slots sv ! i \<noteq> -1 \<and> (\<exists>c. objs (proxies ss) p = Some c \<and> proxy_id c = int i)"
  unfolding slots_inv_def by fastforce

text \<open>Between two rounds of the listener there is a default client whenever there is a client.\<close>

definition server_inv :: "SockServer \<Rightarrow> bool" where
  "server_inv ss \<longleftrightarrow> table_inv ss \<and> (m_pclient ss = None \<longrightarrow> m_ncount ss = 0)"

text \<open>The kernel hands out descriptors below \<open>FD_SETSIZE\<close> only.\<close>

definition fd_ok :: "kern \<Rightarrow> bool" where
  "fd_ok k \<longleftrightarrow> (\<forall>a \<in> set (sysq k). ans_ret a < 1024)"

lemma fd_ok_sys: "sys c k = ok (a, k') \<Longrightarrow> fd_ok k \<Longrightarrow> fd_ok k' \<and> ans_ret a < 1024"
  by (auto simp: fd_ok_def dest: sys_ok(6))

lemma fd_ok_close [simp]: "fd_ok (sys_close fd k) = fd_ok k"
  by (simp add: fd_ok_def)

lemma safe_run_sys: "safe_run (sys c k) P \<longleftrightarrow> (\<forall>a k'. sys c k = ok (a, k') \<longrightarrow> P (a, k'))"
  by (auto simp: safe_run_def sys_def split: list.splits)

lemma safe_run_select:
  assumes "fd_ok k" and "\<And>n rs' k'. set rs' \<subseteq> set rs \<Longrightarrow> fd_ok k' \<Longrightarrow> P (n, rs', [], k')"
  shows "safe_run (sys_select rs [] tmo k) P"
  unfolding sys_select_def safe_run_bindr safe_run_sys
  using assms(1) by (auto intro!: assms(2) dest: fd_ok_sys)

lemma table_inv_new: "objs h = Map.empty \<Longrightarrow> server_inv (SockServer_new port ty h)"
  by (simp add: server_inv_def table_inv_def SockServer_new_def connected_def)

section \<open>Connecting\<close>

lemma table_inv_room:
  assumes "table_inv ss" and "m_server ss = Some sv" and "m_ncount ss < int MAX_CLIENTS"
  shows "sock_server_find_empty_slot sv < MAX_CLIENTS"
proof -
  from assms(1,3) have "length (filter (\<lambda>e. e \<noteq> None) (m_clients ss)) < length (m_clients ss)"
    by (simp add: table_inv_def connected_def)
  then obtain e where "e \<in> set (m_clients ss)" "e = None" by (metis (mono_tags, lifting) filter_True less_irrefl)
  with assms(1) obtain i where "i < MAX_CLIENTS" "m_clients ss ! i = None"
    by (auto simp: in_set_conv_nth table_inv_def)
  with assms(1,2) have "client_slots sv ! i = -1"
    by (auto simp: table_inv_def slots_inv_def)
  then have "\<not> i < sock_server_find_empty_slot sv" by (auto dest: find_empty_slot_least)
  with \<open>i < MAX_CLIENTS\<close> show ?thesis by simp
qed

lemma has_newconn_safe:
  assumes "m_server ss = Some sv" and "table_inv ss" and "fd_ok k"
  shows "safe_run (sock_server_has_newconn (Some sv) tmo k) (\<lambda>(has, k'). fd_ok k')"
  using assms
  by (auto simp: sock_server_has_newconn_def table_inv_def slots_inv_def FD_SET_def FD_ISSET_def safe_run_bindr
      safe_run_sys intro!: safe_run_select dest: fd_ok_sys)

text \<open>A new client takes the least free slot; nothing else changes.\<close>

definition created :: "sock_server_t \<Rightarrow> pheap \<Rightarrow> nat option \<Rightarrow> sock_server_t option \<Rightarrow> pheap \<Rightarrow> bool" where
  "created sv h client sv' h' = (case client of
     None \<Rightarrow> sv' = Some sv \<and> h' = h
   | Some p \<Rightarrow> (\<exists>fd. 0 \<le> fd \<and> fd < 1024 \<and> sock_server_find_empty_slot sv < SOCK_MAX_CLIENTS \<and>
       sv' = Some (sv\<lparr>client_slots := (client_slots sv)[sock_server_find_empty_slot sv := fd]\<rparr>) \<and>
       (p, h') = new_proxy \<lparr>proxy_id = int (sock_server_find_empty_slot sv), m_msg_buf = []\<rparr> h))"

lemma create_client_safe:
  assumes "m_server ss = Some sv" and "table_inv ss" and "fd_ok k"
  shows "safe_run (sock_server_create_client (Some sv) h k) (\<lambda>(client, sv', h', k').
    fd_ok k' \<and> created sv h client sv' h')"
proof -
  from assms(1,2) have "length (client_slots sv) = SOCK_MAX_CLIENTS"
    by (simp add: table_inv_def slots_inv_def)
  with assms(3) show ?thesis
    by (auto simp: sock_server_create_client_def safe_run_bindr safe_run_sys Let_def arr_set_ok created_def
        new_proxy_def dest!: fd_ok_sys) (metis linorder_not_less)
qed

lemma add_client_inv:
  assumes inv: "table_inv ss" and sv: "m_server ss = Some sv"
    and cr: "created sv (proxies ss) (Some p) sv' h'" and room: "sock_server_find_empty_slot sv < MAX_CLIENTS"
    and pc: "pc = (if m_pclient ss = None then Some p else m_pclient ss)"
  shows "table_inv (ss\<lparr>m_server := sv', proxies := h', m_pclient := pc,
           m_clients := (m_clients ss)[sock_server_find_empty_slot sv := Some p], m_ncount := m_ncount ss + 1\<rparr>)"
    (is "table_inv ?ss'")
proof -
  define i where "i = sock_server_find_empty_slot sv"
  from cr obtain fd where fd: "0 \<le> fd" "fd < 1024"
    and sv': "sv' = Some (sv\<lparr>client_slots := (client_slots sv)[i := fd]\<rparr>)"
    and p: "p = next_ptr (proxies ss)"
    and h': "h' = (proxies ss)\<lparr>next_ptr := Suc p, objs := (objs (proxies ss))(p \<mapsto> \<lparr>proxy_id = int i, m_msg_buf = []\<rparr>)\<rparr>"
    by (auto simp: created_def new_proxy_def i_def)
  from inv sv have slots: "slots_inv ss sv" and len: "length (m_clients ss) = MAX_CLIENTS"
    by (auto simp: table_inv_def)
  have i: "i < MAX_CLIENTS" "i < SOCK_MAX_CLIENTS"
    using room by (auto simp: i_def MAX_CLIENTS_def SOCK_MAX_CLIENTS_def)
  have free: "client_slots sv ! i = -1"
    using i slots find_empty_slot_free [of sv] by (simp add: i_def slots_inv_def)
  have none: "m_clients ss ! i = None"
    using slots i free by (auto simp: slots_inv_def split: option.splits)
  have fresh: "q \<noteq> p" if "objs (proxies ss) q \<noteq> None" for q
    using inv that by (auto simp: table_inv_def p)
  have "int (length (filter (\<lambda>e. e \<noteq> None) ((m_clients ss)[i := Some p]))) = m_ncount ss + 1"
    using length_filter_update [of i "m_clients ss" "\<lambda>e. e \<noteq> None" "Some p"] i len none inv
    by (simp add: table_inv_def connected_def)
  moreover have "Some q \<in> set ((m_clients ss)[i := Some p])" if "pc = Some q" for q
  proof (cases "m_pclient ss")
    case None
    with that pc i len show ?thesis by (simp add: set_update_memI)
  next
    case (Some q')
    with that pc inv have "Some q \<in> set (m_clients ss)" by (auto simp: table_inv_def)
    with none i len show ?thesis
      by (metis in_set_conv_nth length_list_update nth_list_update_neq option.distinct(1))
  qed
  moreover have "slots_inv ?ss' (sv\<lparr>client_slots := (client_slots sv)[i := fd]\<rparr>)"
    using slots i fd len fresh unfolding slots_inv_def h' i_def [symmetric]
    by (auto simp: nth_list_update split: option.splits) blast+
  moreover have "\<forall>q. objs h' q \<noteq> None \<longrightarrow> q < next_ptr h'"
    using inv by (auto simp: table_inv_def h' p less_Suc_eq)
  ultimately show ?thesis using len
    by (auto simp: table_inv_def connected_def sv' i_def [symmetric])
qed

text \<open>The live clients are those in the table.\<close>

lemma client_fd_connected:
  assumes "table_inv ss" and "Some p \<in> set (m_clients ss)" and "m_server ss = Some sv"
  obtains i where "i < MAX_CLIENTS" and "m_clients ss ! i = Some p"
    and "client_fd ss p = Some (client_slots sv ! i)" and "0 \<le> client_slots sv ! i" and "client_slots sv ! i < 1024"
    and "objs (proxies ss) p \<noteq> None"
proof -
  from assms obtain i where i: "i < MAX_CLIENTS" "m_clients ss ! i = Some p"
    by (auto simp: in_set_conv_nth table_inv_def)
  have i': "i < SOCK_MAX_CLIENTS" using i by (simp add: MAX_CLIENTS_def SOCK_MAX_CLIENTS_def)
  have slots: "slots_inv ss sv" using assms by (simp add: table_inv_def)
  with i obtain c where c: "objs (proxies ss) p = Some c" "proxy_id c = int i" "client_slots sv ! i \<noteq> -1"
    by (auto dest: slots_inv_entry)
  with slots i' assms(3) have "client_fd ss p = Some (client_slots sv ! i)"
    by (simp add: client_fd_def slots_inv_def)
  with slots i i' c show thesis
    by (intro that [of i]) (auto simp: slots_inv_def)
qed

section \<open>Disconnecting\<close>

lemma remove_client_inv:
  assumes inv: "table_inv ss" and sv: "m_server ss = Some sv" and i: "i < MAX_CLIENTS"
    and p: "m_clients ss ! i = Some p"
    and pc: "pc = (if m_pclient ss = Some p then None else m_pclient ss)"
  shows "table_inv (ss\<lparr>m_server := Some (sv\<lparr>client_slots := (client_slots sv)[i := -1]\<rparr>),
           proxies := delete_proxy p (proxies ss), m_pclient := pc, stale_log_reads := n,
           m_clients := (m_clients ss)[i := None], m_ncount := m_ncount ss - 1\<rparr>)"
    (is "table_inv ?ss'")
proof -
  from inv sv have slots: "slots_inv ss sv" and len: "length (m_clients ss) = MAX_CLIENTS"
    by (auto simp: table_inv_def)
  have i': "i < SOCK_MAX_CLIENTS" using i by (simp add: MAX_CLIENTS_def SOCK_MAX_CLIENTS_def)
  have other: "m_clients ss ! j \<noteq> Some p" if "j < MAX_CLIENTS" "j \<noteq> i" for j
    using slots_inv_entry [OF slots i p] slots_inv_entry [OF slots that(1)] that(2) by fastforce
  have "int (length (filter (\<lambda>e. e \<noteq> None) ((m_clients ss)[i := None]))) = m_ncount ss - 1"
    using length_filter_update [of i "m_clients ss" "\<lambda>e. e \<noteq> None" None] i len p inv
    by (simp add: table_inv_def connected_def)
  moreover have "Some q \<in> set ((m_clients ss)[i := None])" if "pc = Some q" for q
  proof -
    from that pc inv have "Some q \<in> set (m_clients ss)" and "q \<noteq> p"
      by (auto simp: table_inv_def split: if_splits)
    then obtain j where "j < length (m_clients ss)" "m_clients ss ! j = Some q" by (auto simp: in_set_conv_nth)
    moreover from this p \<open>q \<noteq> p\<close> have "j \<noteq> i" by auto
    ultimately have "(m_clients ss)[i := None] ! j = Some q" and "j < length (m_clients ss)" by simp_all
    then show ?thesis by (metis length_list_update nth_mem)
  qed
  moreover have "slots_inv ?ss' (sv\<lparr>client_slots := (client_slots sv)[i := -1]\<rparr>)"
    using slots i i' len other unfolding slots_inv_def delete_proxy_def
    by (auto simp: nth_list_update split: option.splits)
  ultimately show ?thesis using inv len
    by (auto simp: table_inv_def connected_def delete_proxy_def)
qed

section \<open>Choosing the default client\<close>

lemma first_client_Some: "first_client ps = Some p \<Longrightarrow> Some p \<in> set ps"
  by (induction ps rule: first_client.induct) auto

lemma first_client_None: "first_client ps = None \<Longrightarrow> filter (\<lambda>e. e \<noteq> None) ps = []"
  by (induction ps rule: first_client.induct) auto

lemma choose_default_inv: "table_inv ss \<Longrightarrow> server_inv (choose_default ss)"
  by (auto simp: choose_default_def server_inv_def table_inv_def slots_inv_def connected_def
      dest: first_client_Some first_client_None split: option.splits)

lemma table_inv_idle: "table_inv ss \<Longrightarrow> m_ncount ss = 0 \<Longrightarrow> server_inv ss"
  by (simp add: server_inv_def)

lemma fd_set_slots_safe:
  "\<forall>fd \<in> set fds. fd = -1 \<or> 0 \<le> fd \<and> fd < 1024 \<Longrightarrow> safe_run (fd_set_slots fds s) (\<lambda>_. True)"
  by (induction fds arbitrary: s) (auto simp: FD_SET_def)

section \<open>The contract between the server and the program\<close>

text \<open>
  A program hands its callbacks to the server. The server calls them with a live client pointer and
  relies on them to keep the program's own invariant and to leave the kernel's supply of
  descriptors below the limit; in return the listener keeps the client table consistent.
\<close>

locale server_app =
  fixes cbs :: "'a callbacks" and app_inv :: "'a \<Rightarrow> bool"
  assumes listener_ok: "m_listener_callback cbs = Some f \<Longrightarrow> app_inv a \<Longrightarrow> client_fd ss p = Some fd \<Longrightarrow>
      fd_ok k \<Longrightarrow> safe_run (f ss p a k) (\<lambda>(a', k'). app_inv a' \<and> fd_ok k')"
    and connected_ok: "m_connected_callback cbs = Some f \<Longrightarrow> app_inv a \<Longrightarrow> server_inv ss \<Longrightarrow> client_fd ss p = Some fd \<Longrightarrow>
      fd_ok k \<Longrightarrow> safe_run (f ss p a k) (\<lambda>(a', k'). app_inv a' \<and> fd_ok k')"
    and disconnected_ok: "m_disconnected_callback cbs = Some f \<Longrightarrow> app_inv a \<Longrightarrow> client_fd ss p = Some fd \<Longrightarrow>
      fd_ok k \<Longrightarrow> safe_run (f ss p a k) (\<lambda>(a', k'). app_inv a' \<and> fd_ok k')"
begin

lemma call_listener:
  "app_inv a \<Longrightarrow> client_fd ss p = Some fd \<Longrightarrow> fd_ok k \<Longrightarrow>
     safe_run (call_cb (m_listener_callback cbs) ss p a k) (\<lambda>(a', k'). app_inv a' \<and> fd_ok k')"
  by (auto simp: call_cb_def split: option.splits intro: listener_ok)

lemma call_connected:
  "app_inv a \<Longrightarrow> server_inv ss \<Longrightarrow> client_fd ss p = Some fd \<Longrightarrow> fd_ok k \<Longrightarrow>
     safe_run (call_cb (m_connected_callback cbs) ss p a k) (\<lambda>(a', k'). app_inv a' \<and> fd_ok k')"
  by (auto simp: call_cb_def split: option.splits intro: connected_ok)

lemma call_disconnected:
  "app_inv a \<Longrightarrow> client_fd ss p = Some fd \<Longrightarrow> fd_ok k \<Longrightarrow>
     safe_run (call_cb (m_disconnected_callback cbs) ss p a k) (\<lambda>(a', k'). app_inv a' \<and> fd_ok k')"
  by (auto simp: call_cb_def split: option.splits intro: disconnected_ok)

lemma drop_client_safe:
  assumes inv: "table_inv ss" and sv: "m_server ss = Some sv" and i: "i < MAX_CLIENTS"
    and p: "m_clients ss ! i = Some p" and a: "app_inv a" and k: "fd_ok k"
  shows "safe_run (drop_client cbs i p ss a k) (\<lambda>(r, ss', a', k').
    table_inv ss' \<and> m_server ss' \<noteq> None \<and> app_inv a' \<and> fd_ok k' \<and> (r \<noteq> None \<longrightarrow> m_ncount ss' = 0))"
proof -
  from inv sv have slots: "slots_inv ss sv" and len: "length (m_clients ss) = MAX_CLIENTS"
    by (auto simp: table_inv_def)
  from slots_inv_entry [OF slots i p] obtain c where
    c: "objs (proxies ss) p = Some c" "proxy_id c = int i" "client_slots sv ! i \<noteq> -1" by auto
  have i': "int i < int (length (client_slots sv))"
    using slots i by (simp add: slots_inv_def MAX_CLIENTS_def SOCK_MAX_CLIENTS_def)
  then have live: "client_fd ss p = Some (client_slots sv ! i)"
    using c sv by (simp add: client_fd_def)
  have close: "sock_server_close_client (m_server ss) (Some p) (proxies ss) k' =
      ok (Some (sv\<lparr>client_slots := (client_slots sv)[i := -1]\<rparr>), delete_proxy p (proxies ss),
          sys_close (client_slots sv ! i) k')" for k'
    using c i' sv by (simp add: sock_server_close_client_def deref_proxy_def arr_get_ok arr_set_ok)
  show ?thesis
    unfolding drop_client_def safe_run_bindr
    using remove_client_inv [OF inv sv i p refl, of "Suc (stale_log_reads ss)"] i len
    by (intro safe_run_mono [OF call_disconnected [OF a live k]])
      (auto simp: close forget_client_def Let_def arr_set_ok delete_proxy_def cong: if_cong)
qed

lemma scan_clients_safe:
  assumes "table_inv ss" and "m_server ss \<noteq> None" and "app_inv a" and "fd_ok k" and "\<forall>i \<in> set ids. i < MAX_CLIENTS"
  shows "safe_run (scan_clients cbs ids ss a k) (\<lambda>(r, ss', a', k').
    table_inv ss' \<and> m_server ss' \<noteq> None \<and> app_inv a' \<and> fd_ok k' \<and> (r \<noteq> None \<longrightarrow> m_ncount ss' = 0))"
    (is "safe_run _ ?Q")
  using assms
proof (induction ids arbitrary: ss a k)
  case Nil
  then show ?case by simp
next
  case (Cons i ids)
  then obtain sv where sv: "m_server ss = Some sv" and i: "i < MAX_CLIENTS" by auto
  have len: "length (m_clients ss) = MAX_CLIENTS" using Cons.prems(1) by (simp add: table_inv_def)
  show ?case
  proof (cases "m_clients ss ! i")
    case None
    with Cons i len show ?thesis by (simp add: arr_get_ok)
  next
    case (Some p)
    have "Some p \<in> set (m_clients ss)" using Some i len by (metis nth_mem)
    then obtain j where j: "j < MAX_CLIENTS" "m_clients ss ! j = Some p"
      and fd: "client_fd ss p = Some (client_slots sv ! j)" "0 \<le> client_slots sv ! j" "client_slots sv ! j < 1024"
      using client_fd_connected [OF Cons.prems(1) _ sv] by metis
    from fd(1) sv obtain c where c: "objs (proxies ss) p = Some c"
      and chk: "arr_get (client_slots sv) (proxy_id c) = ok (client_slots sv ! j)"
      by (elim client_fd_SomeE) (auto simp: arr_get_def)
    have IH: "safe_run (scan_clients cbs ids ss' a' k') ?Q"
      if "table_inv ss'" "m_server ss' \<noteq> None" "app_inv a'" "fd_ok k'" for ss' a' k'
      using Cons.IH [OF that] Cons.prems(5) by simp
    have step: "safe_run (case st of
           readable \<Rightarrow> bindr (call_cb (m_listener_callback cbs) ss p a k') (\<lambda>(a, k). scan_clients cbs ids ss a k)
         | disconnect \<Rightarrow> bindr (drop_client cbs i p ss a k') (\<lambda>(r, ss, a, k).
             case r of Some early \<Rightarrow> ok (Some early, ss, a, k) | None \<Rightarrow> scan_clients cbs ids ss a k)
         | normal \<Rightarrow> scan_clients cbs ids ss a k') ?Q" if "fd_ok k'" for st k'
      using that Cons.prems sv IH
      by (cases st) (auto simp: safe_run_bindr split: option.splits intro!: safe_run_mono [OF call_listener [OF _ fd(1)]]
          safe_run_mono [OF drop_client_safe [OF _ sv i Some]])
    have chkc: "safe_run (sock_server_check_connect (m_server ss) (Some c) k) (\<lambda>(st, k'). fd_ok k')"
      using sv fd Cons.prems(4)
      by (auto simp: sock_server_check_connect_def chk FD_ISSET_def safe_run_bindr safe_run_sys dest!: fd_ok_sys)
    have "safe_run (bindr (sock_server_check_connect (m_server ss) (Some c) k) (\<lambda>(st, k'). case st of
           readable \<Rightarrow> bindr (call_cb (m_listener_callback cbs) ss p a k') (\<lambda>(a, k). scan_clients cbs ids ss a k)
         | disconnect \<Rightarrow> bindr (drop_client cbs i p ss a k') (\<lambda>(r, ss, a, k).
             case r of Some early \<Rightarrow> ok (Some early, ss, a, k) | None \<Rightarrow> scan_clients cbs ids ss a k)
         | normal \<Rightarrow> scan_clients cbs ids ss a k')) ?Q"
      unfolding safe_run_bindr by (rule safe_run_mono [OF chkc]) (use step in auto)
    then show ?thesis using Some i len c by (simp add: arr_get_ok deref_proxy_def)
  qed
qed

lemma admit_client_safe:
  assumes tab: "table_inv ss" and sv: "m_server ss = Some sv" and cr: "created sv (proxies ss) (Some p) sv' h'"
    and small: "sock_server_find_empty_slot sv < MAX_CLIENTS" and a: "app_inv a" and k: "fd_ok k"
  shows "safe_run (admit_client cbs p (ss\<lparr>m_server := sv', proxies := h'\<rparr>) a k) (\<lambda>(n, ss', a', k').
    server_inv ss' \<and> app_inv a' \<and> fd_ok k' \<and> n = m_ncount ss' \<and> m_ncount ss' = m_ncount ss + 1)"
proof -
  define i where "i = sock_server_find_empty_slot sv"
  define pc where "pc = (if m_pclient ss = None then Some p else m_pclient ss)"
  define ss' where "ss' = ss\<lparr>m_server := sv', proxies := h', m_pclient := pc,
      m_clients := (m_clients ss)[i := Some p], m_ncount := m_ncount ss + 1\<rparr>"
  have len: "length (m_clients ss) = MAX_CLIENTS" using tab by (simp add: table_inv_def)
  have inv': "table_inv ss'"
    unfolding ss'_def i_def using tab sv cr small pc_def by (rule add_client_inv)
  then have inv: "server_inv ss'"
    unfolding server_inv_def by (auto simp: ss'_def pc_def)
  obtain sv1 where sv1: "m_server ss' = Some sv1" "objs h' p = Some \<lparr>proxy_id = int i, m_msg_buf = []\<rparr>"
    using cr by (auto simp: created_def new_proxy_def ss'_def i_def)
  have "Some p \<in> set (m_clients ss')" using small len by (simp add: ss'_def i_def set_update_memI)
  then obtain fd where live: "client_fd ss' p = Some fd"
    using client_fd_connected [OF inv' _ sv1(1)] by metis
  have "admit_client cbs p (ss\<lparr>m_server := sv', proxies := h'\<rparr>) a k
      = bindr (call_cb (m_connected_callback cbs) ss' p a k) (\<lambda>(a, k). ok (m_ncount ss', ss', a, k))"
    using sv1(2) small len
    by (simp add: admit_client_def enter_client_def Let_def deref_proxy_def arr_set_ok ss'_def pc_def flip: i_def)
  then show ?thesis
    using safe_run_mono [OF call_connected [OF a inv live k]] inv
    by (auto simp: safe_run_bindr ss'_def)
qed

lemma check_new_connection_safe:
  assumes inv: "server_inv ss" and room: "m_ncount ss < int MAX_CLIENTS" and a: "app_inv a" and k: "fd_ok k"
  shows "safe_run (check_new_connection cbs ss a k) (\<lambda>(n, ss', a', k').
    server_inv ss' \<and> app_inv a' \<and> fd_ok k' \<and> n = m_ncount ss' \<and> m_ncount ss' \<le> m_ncount ss + 1)"
proof (cases "m_server ss")
  case None
  with inv a k show ?thesis by (simp add: check_new_connection_def sock_server_has_newconn_def)
next
  case (Some sv)
  from inv have tab: "table_inv ss" by (simp add: server_inv_def)
  have small: "sock_server_find_empty_slot sv < MAX_CLIENTS"
    using tab Some room by (rule table_inv_room)
  have eq: "ss\<lparr>m_server := Some sv, proxies := proxies ss\<rparr> = ss" using Some by simp
  have "safe_run (case client of None \<Rightarrow> ok (m_ncount (ss\<lparr>m_server := sv', proxies := h'\<rparr>), ss\<lparr>m_server := sv', proxies := h'\<rparr>, a, k')
      | Some p \<Rightarrow> admit_client cbs p (ss\<lparr>m_server := sv', proxies := h'\<rparr>) a k') (\<lambda>(n, ss', a', k').
    server_inv ss' \<and> app_inv a' \<and> fd_ok k' \<and> n = m_ncount ss' \<and> m_ncount ss' \<le> m_ncount ss + 1)"
    if "created sv (proxies ss) client sv' h'" "fd_ok k'" for client sv' h' k'
  proof (cases client)
    case None
    with that inv a eq show ?thesis by (simp add: created_def)
  next
    case (Some p)
    show ?thesis
      unfolding Some option.case
      by (rule safe_run_mono [OF admit_client_safe [OF tab \<open>m_server ss = Some sv\<close> _ small a]])
        (use that Some in auto)
  qed
  then show ?thesis
    unfolding check_new_connection_def safe_run_bindr Some using inv a
    by (auto intro!: safe_run_mono [OF has_newconn_safe [OF Some tab k]]
        safe_run_mono [OF create_client_safe [OF Some tab]] simp: safe_run_bindr Let_def)
qed

lemma check_new_message_safe:
  assumes inv: "server_inv ss" and a: "app_inv a" and k: "fd_ok k"
  shows "safe_run (check_new_message cbs ss a k) (\<lambda>(n, ss', a', k'). server_inv ss' \<and> app_inv a' \<and> fd_ok k')"
proof (cases "m_server ss")
  case None
  then have "ss\<lparr>m_server := None\<rparr> = ss" by (cases ss) simp
  then have "server_inv (ss\<lparr>m_server := None\<rparr>)" using inv by (simp only:)
  with None a k show ?thesis by (simp add: check_new_message_def sock_server_clients_readable_def)
next
  case (Some sv)
  from inv have tab: "table_inv ss" by (simp add: server_inv_def)
  with Some have slots: "slots_inv ss sv" by (simp add: table_inv_def)
  then have rng: "\<forall>fd \<in> set (client_slots sv). fd = -1 \<or> 0 \<le> fd \<and> fd < 1024"
    by (metis in_set_conv_nth slots_inv_def)
  have tab': "table_inv (ss\<lparr>m_server := Some (sv\<lparr>rfds := rf\<rparr>)\<rparr>)" for rf
    using tab slots Some by (simp add: table_inv_def slots_inv_def connected_def cong: option.case_cong)
  have rd: "server_inv (ss\<lparr>m_server := Some (sv\<lparr>rfds := rf\<rparr>)\<rparr>)" for rf
    using inv tab' by (simp add: server_inv_def)
  show ?thesis
    unfolding check_new_message_def safe_run_bindr Some sock_server_clients_readable_def option.case
    using rd tab' a
    by (intro safe_run_mono [OF fd_set_slots_safe [OF rng]])
      (auto intro!: safe_run_select [OF k] safe_run_mono [OF scan_clients_safe] simp: Let_def safe_run_bindr
        choose_default_inv table_inv_idle split: option.splits)
qed

text \<open>One round of the listener, as its loop makes it.\<close>

lemma listener_round_safe:
  assumes "server_inv ss" and "m_ncount ss < int MAX_CLIENTS" and "app_inv a" and "fd_ok k"
  shows "safe_run (bindr (check_new_connection cbs ss a k) (\<lambda>(_, ss, a, k). check_new_message cbs ss a k))
    (\<lambda>(n, ss', a', k'). server_inv ss' \<and> app_inv a' \<and> fd_ok k')"
  unfolding safe_run_bindr
  by (rule safe_run_mono [OF check_new_connection_safe [OF assms]])
    (clarify, rule check_new_message_safe)

end

end
