(* ===== verification/Sensor_Device.thy ===== *)
theory Sensor_Device
  imports Sensor_Types Sock_Utils "HOL-Library.Signed_Division"
begin

text \<open>
  The class \<open>SensorDevice\<close> of \<open>sensors_vhal.cpp\<close>: the event slots and their pending mask, the message
  queue and the buffer pool shared with the listener thread, the stored configuration of every
  sensor, and the operations the HAL entry points call. The body of the polling call is here too;
  its waiting and locking is the subject of the theory \<open>Sensor_System\<close>. The field
  \<open>sensor_data_count\<close> is the function-local static array of the polling function. The companion
  array \<open>last_sensor_time\<close> is only ever printed and is left out. The 64-bit time stamps are words: where
  their sums leave the signed range, which C++ does not define, the model wraps around as the
  targets do.
\<close>

section \<open>State\<close>

record SensorDevice =
  m_flush_count :: "u32 list"
  m_pending_sensors :: u32
  m_time_start :: u64
  m_time_offset :: u64
  m_log_trace_count :: int
  m_sensors :: "sensors_event_t list"
  m_sensor_config_status :: "sensor_config_msg_t list"
  m_msg_mem_pool :: "byte list list"
  m_sensor_msg_queue :: "byte list list"
  sensor_data_count :: "int list"

definition MEM_POOL_SIZE :: nat where "MEM_POOL_SIZE = 16"
definition MAX_MSG_QUEUE_SIZE :: nat where "MAX_MSG_QUEUE_SIZE = 128"

definition zero_config :: sensor_config_msg_t where
  "zero_config = \<lparr>cfg_sensor_type = 0, cfg_enabled = 0, cfg_sample_period = 0\<rparr>"

text \<open>
  The constructor's effect on the device. \<open>junk\<close> is what the memory of the event slots held, of which
  the constructor sets the type only; \<open>trace\<close> is the logging interval, 50 unless the property
  \<open>sys.sensor.log_trace.interval\<close> is set.
\<close>

definition SensorDevice_new :: "sensors_h \<Rightarrow> sensors_event_t list \<Rightarrow> int option \<Rightarrow> SensorDevice" where
  "SensorDevice_new H junk trace =
     \<lparr>m_flush_count = replicate MAX_NUM_SENSORS 0, m_pending_sensors = 0, m_time_start = 0,
      m_time_offset = 0, m_log_trace_count = (case trace of None \<Rightarrow> 50 | Some n \<Rightarrow> n),
      m_sensors = map (\<lambda>e. e\<lparr>ev_type := SENSOR_TYPE_META_DATA H + 1\<rparr>) junk,
      m_sensor_config_status = replicate MAX_NUM_SENSORS zero_config,
      m_msg_mem_pool = replicate MEM_POOL_SIZE (replicate MSG_BUF_SIZE 0),
      m_sensor_msg_queue = [], sensor_data_count = replicate MAX_NUM_SENSORS 0\<rparr>"

section \<open>Configuration\<close>

definition sensor_device_send_config_msg ::
  "SockServer \<Rightarrow> byte list \<Rightarrow> kern \<Rightarrow> (int \<times> kern) run" where
  "sensor_device_send_config_msg ss cmd k = (case get_sock_client ss of
       None \<Rightarrow> ok (0, k)
     | Some client \<Rightarrow>
         bindr (SockServer_send_data ss (Some client) cmd (int (length cmd)) SOCK_TIMEOUT_MODE 5 k) (\<lambda>(ret, k).
         ok (if ret < 0 then - errno k else ret, k)))"

definition sensor_device_activate ::
  "sensors_h \<Rightarrow> SockServer \<Rightarrow> int \<Rightarrow> int \<Rightarrow> SensorDevice \<Rightarrow> kern \<Rightarrow> (int \<times> SensorDevice \<times> kern) run" where
  "sensor_device_activate H ss handle enabled d k =
     (let ty = get_type_from_hanle H handle in
      if ty < 0 then ok (- EINVAL, d, k) else
      bindr (arr_get (m_sensor_config_status d) handle) (\<lambda>c.
      let c = c\<lparr>cfg_sensor_type := ty, cfg_enabled := enabled\<rparr> in
      bindr (arr_set (m_sensor_config_status d) handle c) (\<lambda>cs.
      let d = d\<lparr>m_sensor_config_status := cs\<rparr> in
      if enabled = 0 then
        bindr (sensor_device_send_config_msg ss (config_bytes c) k) (\<lambda>(ret, k).
        ok (if ret < 0 then - errno k else 0, d, k))
      else ok (0, d, k))))"

text \<open>\<open>(int32_t)(ns / 1000000)\<close>: truncating division, then the low 32 bits.\<close>

definition period_ms :: "int \<Rightarrow> int" where
  "period_ms ns = sint (word_of_int (ns sdiv 1000000) :: u32)"

definition sensor_device_batch ::
  "sensors_h \<Rightarrow> SockServer \<Rightarrow> int \<Rightarrow> int \<Rightarrow> SensorDevice \<Rightarrow> kern \<Rightarrow> (int \<times> SensorDevice \<times> kern) run" where
  "sensor_device_batch H ss handle sampling_period_ns d k =
     (let ty = get_type_from_hanle H handle in
      if ty < 0 then ok (- EINVAL, d, k) else
      bindr (arr_get (m_sensor_config_status d) handle) (\<lambda>c.
      let c = c\<lparr>cfg_sensor_type := ty, cfg_enabled := 1, cfg_sample_period := period_ms sampling_period_ns\<rparr> in
      bindr (arr_set (m_sensor_config_status d) handle c) (\<lambda>cs.
      let d = d\<lparr>m_sensor_config_status := cs\<rparr> in
      bindr (sensor_device_send_config_msg ss (config_bytes c) k) (\<lambda>(ret, k).
      ok (if ret < 0 then - errno k else 0, d, k)))))"

text \<open>\<open>sensor_device_set_delay\<close> repeats the body of \<open>sensor_device_batch\<close>.\<close>

definition sensor_device_set_delay ::
  "sensors_h \<Rightarrow> SockServer \<Rightarrow> int \<Rightarrow> int \<Rightarrow> SensorDevice \<Rightarrow> kern \<Rightarrow> (int \<times> SensorDevice \<times> kern) run" where
  "sensor_device_set_delay H ss handle ns d k =
     (let ty = get_type_from_hanle H handle in
      if ty < 0 then ok (- EINVAL, d, k) else
      bindr (arr_get (m_sensor_config_status d) handle) (\<lambda>c.
      let c = c\<lparr>cfg_sensor_type := ty, cfg_enabled := 1, cfg_sample_period := period_ms ns\<rparr> in
      bindr (arr_set (m_sensor_config_status d) handle c) (\<lambda>cs.
      let d = d\<lparr>m_sensor_config_status := cs\<rparr> in
      bindr (sensor_device_send_config_msg ss (config_bytes c) k) (\<lambda>(ret, k).
      ok (if ret < 0 then - errno k else 0, d, k)))))"

fun send_all_configs :: "sensor_config_msg_t list \<Rightarrow> SockServer \<Rightarrow> kern \<Rightarrow> kern run" where
  "send_all_configs [] ss k = ok k"
| "send_all_configs (c # cs) ss k =
     bindr (sensor_device_send_config_msg ss (config_bytes c) k) (\<lambda>(_, k). send_all_configs cs ss k)"

definition client_connected_callback :: "SensorDevice callback" where
  "client_connected_callback ss client d k =
     bindr (send_all_configs (m_sensor_config_status d) ss k) (\<lambda>k. ok (d, k))"

section \<open>Messages from the client\<close>

text \<open>The queue drops its oldest message when it is full; the buffer goes back to the pool.\<close>

fun drop_oldest :: "byte list list \<Rightarrow> byte list list \<Rightarrow> byte list list \<times> byte list list" where
  "drop_oldest [] pool = ([], pool)"
| "drop_oldest (m # q) pool =
     (if length (m # q) \<ge> MAX_MSG_QUEUE_SIZE then drop_oldest q (pool @ [m]) else (m # q, pool))"

definition enqueue_msg :: "byte list \<Rightarrow> SensorDevice \<Rightarrow> SensorDevice" where
  "enqueue_msg buf d =
     (let (q, pool) = drop_oldest (m_sensor_msg_queue d) (m_msg_mem_pool d) in
      d\<lparr>m_sensor_msg_queue := q @ [buf], m_msg_mem_pool := pool\<rparr>)"

text \<open>The two critical sections on the pool: a new buffer when it has run out, and the front buffer.\<close>

definition new_pool_buffer :: "SensorDevice \<Rightarrow> SensorDevice" where
  "new_pool_buffer d = d\<lparr>m_msg_mem_pool := m_msg_mem_pool d @ [replicate MSG_BUF_SIZE 0]\<rparr>"

definition pop_pool_buffer :: "SensorDevice \<Rightarrow> (byte list \<times> SensorDevice) run" where
  "pop_pool_buffer d = (case m_msg_mem_pool d of [] \<Rightarrow> fault Empty_Front
     | b # bs \<Rightarrow> ok (b, d\<lparr>m_msg_mem_pool := bs\<rparr>))"

definition take_pool_buffer :: "SensorDevice \<Rightarrow> (byte list \<times> SensorDevice) run" where
  "take_pool_buffer d = pop_pool_buffer (if m_msg_mem_pool d = [] then new_pool_buffer d else d)"

text \<open>The header on the stack is not initialised: \<open>junk\<close> are its 16 bytes.\<close>

definition stack_header :: "u64 \<times> u64 \<Rightarrow> byte list" where
  "stack_header junk = le_bytes 8 (fst junk) @ le_bytes 8 (snd junk)"

definition sensor_event_callback :: "sensors_h \<Rightarrow> u64 \<times> u64 \<Rightarrow> SensorDevice callback" where
  "sensor_event_callback H junk ss client d k =
     bindr (SockServer_recv_data ss (Some client) (stack_header junk) 0 (int SIZEOF_AIC_EVENT) SOCK_BLOCK_MODE 5 k) (\<lambda>(len, hdr, k).
     if len \<le> 0 then ok (d, k) else
     bindr (load32 hdr 0) (\<lambda>ty.
     let payload_len = get_payload_len H (sint ty) in
     if payload_len = 0 then ok (d, k) else
     bindr (take_pool_buffer d) (\<lambda>(buf, d).
     bindr (buf_write buf 0 hdr) (\<lambda>buf.
     bindr (SockServer_recv_data ss (Some client) buf SIZEOF_AIC_EVENT payload_len SOCK_BLOCK_MODE 5 k) (\<lambda>(len, buf, k).
     if len \<le> 0 then ok (d, k) else ok (enqueue_msg buf d, k))))))"

section \<open>Flush\<close>

text \<open>The flush notice written over a slot.\<close>

definition flush_notice :: "sensors_h \<Rightarrow> int \<Rightarrow> sensors_event_t \<Rightarrow> sensors_event_t" where
  "flush_notice H handle e =
     e\<lparr>ev_version := META_DATA_VERSION H, ev_type := SENSOR_TYPE_META_DATA H, ev_sensor := 0,
       ev_timestamp := 0,
       ev_data := overlay [word_of_int (META_DATA_FLUSH_COMPLETE H), word_of_int handle] (ev_data e)\<rparr>"

definition sensor_device_flush :: "sensors_h \<Rightarrow> int \<Rightarrow> SensorDevice \<Rightarrow> (int \<times> SensorDevice) run" where
  "sensor_device_flush H handle d =
     bindr (shl1 handle) (\<lambda>b.
     bindr (if m_pending_sensors d AND b \<noteq> 0
            then bindr (arr_get (m_sensors d) handle) (\<lambda>e. ok (ev_type e = SENSOR_TYPE_META_DATA H))
            else ok False) (\<lambda>queued.
     if queued then
       bindr (arr_get (m_flush_count d) handle) (\<lambda>n.
       bindr (arr_set (m_flush_count d) handle (n + 1)) (\<lambda>fc.
       ok (0, d\<lparr>m_flush_count := fc\<rparr>)))
     else
       bindr (arr_set (m_flush_count d) handle 0) (\<lambda>fc.
       bindr (arr_get (m_sensors d) handle) (\<lambda>e.
       bindr (arr_set (m_sensors d) handle (flush_notice H handle e)) (\<lambda>es.
       ok (0, d\<lparr>m_flush_count := fc, m_sensors := es, m_pending_sensors := m_pending_sensors d OR b\<rparr>))))))"

section \<open>Handing out events\<close>

definition sensor_device_pick_pending_event_locked ::
  "sensors_h \<Rightarrow> SensorDevice \<Rightarrow> (int \<times> sensors_event_t option \<times> SensorDevice) run" where
  "sensor_device_pick_pending_event_locked H d =
     (let mask = SUPPORTED_SENSORS AND m_pending_sensors d in
      if mask \<noteq> 0 then
        let i = 31 - clz32 mask;
            d = d\<lparr>m_pending_sensors := m_pending_sensors d AND NOT (push_bit i 1)\<rparr> in
        bindr (arr_get (m_sensors d) (int i)) (\<lambda>event.
        if ev_type event = SENSOR_TYPE_META_DATA H then
          bindr (arr_get (m_flush_count d) (int i)) (\<lambda>n.
          if n > 0 then
            bindr (arr_set (m_flush_count d) (int i) (n - 1)) (\<lambda>fc.
            ok (int i, Some event, d\<lparr>m_flush_count := fc, m_pending_sensors := m_pending_sensors d OR push_bit i 1\<rparr>))
          else
            bindr (arr_set (m_sensors d) (int i) (event\<lparr>ev_type := SENSOR_TYPE_META_DATA H + 1\<rparr>)) (\<lambda>es.
            ok (int i, Some event, d\<lparr>m_sensors := es\<rparr>)))
        else ok (int i, Some (event\<lparr>ev_sensor := int i, ev_version := SIZEOF_SENSORS_EVENT H\<rparr>), d))
      else ok (- EINVAL, None, d))"

text \<open>The reading loop of \<open>sensor_device_poll\<close>: at most \<open>n\<close> more events.\<close>

fun pick_loop ::
  "sensors_h \<Rightarrow> nat \<Rightarrow> int \<Rightarrow> sensors_event_t list \<Rightarrow> SensorDevice \<Rightarrow> (int \<times> sensors_event_t list \<times> SensorDevice) run" where
  "pick_loop H 0 result evs d = ok (result, evs, d)"
| "pick_loop H (Suc n) result evs d =
     (if m_pending_sensors d = 0 then ok (result, evs, d) else
      bindr (sensor_device_pick_pending_event_locked H d) (\<lambda>(ret, ev, d).
      if ret < 0 then ok (if result = 0 then ret else result, evs, d)
      else pick_loop H n (result + 1) (evs @ (case ev of None \<Rightarrow> [] | Some e \<Rightarrow> [e])) d))"

section \<open>Taking in a message\<close>

fun load_floats :: "byte list \<Rightarrow> nat \<Rightarrow> nat \<Rightarrow> u32 list run" where
  "load_floats buf off 0 = ok []"
| "load_floats buf off (Suc n) =
     bindr (load32 buf off) (\<lambda>w. bindr (load_floats buf (off + 4) n) (\<lambda>ws. ok (w # ws)))"

definition put_event ::
  "int \<Rightarrow> (sensors_event_t \<Rightarrow> sensors_event_t) \<Rightarrow> SensorDevice \<Rightarrow> SensorDevice run" where
  "put_event i f d =
     bindr (arr_get (m_sensors d) i) (\<lambda>e.
     bindr (arr_set (m_sensors d) i (f e)) (\<lambda>es. ok (d\<lparr>m_sensors := es\<rparr>)))"

text \<open>
  One case of the \<open>switch\<close>: the values go to the slot \<open>data_id\<close>, the time stamp and the type to the
  slot \<open>id\<close>. The two are the same slot in every case of the source but the one for the uncalibrated
  magnetic field.
\<close>

definition store_values ::
  "int \<Rightarrow> int \<Rightarrow> int \<Rightarrow> nat \<Rightarrow> u64 \<Rightarrow> byte list \<Rightarrow> SensorDevice \<Rightarrow> (u32 option \<times> SensorDevice) run" where
  "store_values sensor_id data_id ty n ts buf d =
     bindr (shl1 sensor_id) (\<lambda>b.
     bindr (load_floats buf SIZEOF_AIC_EVENT n) (\<lambda>ws.
     bindr (put_event data_id (\<lambda>e. e\<lparr>ev_data := overlay ws (ev_data e)\<rparr>) d) (\<lambda>d.
     bindr (put_event sensor_id (\<lambda>e. e\<lparr>ev_timestamp := ts, ev_type := ty\<rparr>) d) (\<lambda>d.
     ok (Some b, d)))))"

definition store_event :: "sensors_h \<Rightarrow> byte list \<Rightarrow> SensorDevice \<Rightarrow> (u32 option \<times> SensorDevice) run" where
  "store_event H buf d =
     bindr (load32 buf 0) (\<lambda>ty32. bindr (load64 buf 8) (\<lambda>ts.
     let ty = sint ty32; words = nat (get_payload_len H ty div sizeof_float) in
     if ty = SENSOR_TYPE_ACCELEROMETER H
       then store_values (ID_ACCELEROMETER H) (ID_ACCELEROMETER H) ty 3 ts buf d
     else if ty = SENSOR_TYPE_GYROSCOPE H
       then store_values (ID_GYROSCOPE H) (ID_GYROSCOPE H) ty 3 ts buf d
     else if ty = SENSOR_TYPE_MAGNETIC_FIELD H
       then store_values (ID_MAGNETIC_FIELD H) (ID_MAGNETIC_FIELD H) ty 3 ts buf d
     else if ty = SENSOR_TYPE_ACCELEROMETER_UNCALIBRATED H
       then store_values (ID_ACCELEROMETER_UNCALIBRATED H) (ID_ACCELEROMETER_UNCALIBRATED H) ty words ts buf d
     else if ty = SENSOR_TYPE_GYROSCOPE_UNCALIBRATED H
       then store_values (ID_GYROSCOPE_UNCALIBRATED H) (ID_GYROSCOPE_UNCALIBRATED H) ty words ts buf d
     else if ty = SENSOR_TYPE_MAGNETIC_FIELD_UNCALIBRATED H
       then store_values (ID_MAGNETIC_FIELD_UNCALIBRATED H) (ID_MAGNETIC_FIELD H) ty words ts buf d
     else if ty = SENSOR_TYPE_LIGHT H
       then store_values (ID_LIGHT H) (ID_LIGHT H) ty 1 ts buf d
     else if ty = SENSOR_TYPE_PROXIMITY H
       then store_values (ID_PROXIMITY H) (ID_PROXIMITY H) ty 1 ts buf d
     else if ty = SENSOR_TYPE_AMBIENT_TEMPERATURE H
       then store_values (ID_TEMPERATURE H) (ID_TEMPERATURE H) ty 1 ts buf d
     else ok (None, d)))"

text \<open>Counting the message for the log; the remainder is taken whatever the log level is.\<close>

definition count_event :: "sensors_h \<Rightarrow> int \<Rightarrow> SensorDevice \<Rightarrow> SensorDevice run" where
  "count_event H ty d =
     (let handle = get_handle_from_type H ty in
      bindr (arr_get (sensor_data_count d) handle) (\<lambda>n.
      bindr (arr_set (sensor_data_count d) handle (n + 1)) (\<lambda>cs.
      if m_log_trace_count d = 0 then fault Div_By_Zero else ok (d\<lparr>sensor_data_count := cs\<rparr>))))"

definition now_ns :: "int \<times> int \<Rightarrow> u64" where
  "now_ns ts = word_of_int (fst ts * 1000000000 + snd ts)"

function stamp_events :: "u32 \<Rightarrow> u64 \<Rightarrow> sensors_event_t list \<Rightarrow> sensors_event_t list run" where
  "stamp_events new_sensors ts es =
     (if new_sensors = 0 then ok es else
      let i = 31 - clz32 new_sensors in
      bindr (arr_get es (int i)) (\<lambda>e.
      bindr (arr_set es (int i) (e\<lparr>ev_timestamp := ts\<rparr>)) (\<lambda>es.
      stamp_events (new_sensors AND NOT (push_bit i 1)) ts es)))"
  by pat_completeness auto

termination
proof (relation "measure (\<lambda>(w, ts, es). card (bits_of w))")
  fix w :: u32 and ts :: u64 and es i e es'
  assume w: "w \<noteq> 0" and i: "i = 31 - clz32 w"
  have "i \<in> bits_of w" using clz32_highest(2) [OF w] by (simp add: i bits_of_def)
  then have "card (bits_of w - {i}) < card (bits_of w)" by (rule card_Diff1_less [OF finite_bits_of])
  then show "((w AND NOT (push_bit i 1), ts, es'), (w, ts, es)) \<in> measure (\<lambda>(w, ts, es). card (bits_of w))"
    by (simp add: bits_of_clear del: card_Diff_insert card_Diff_singleton)
qed simp

declare stamp_events.simps [simp del]

text \<open>The time stamps of the new events: shifted by the offset seen first, and never in the future.\<close>

definition stamp_new :: "u32 \<Rightarrow> u64 \<Rightarrow> int \<times> int \<Rightarrow> SensorDevice \<Rightarrow> SensorDevice run" where
  "stamp_new new_sensors remote clock d =
     (if new_sensors = 0 then ok d else
      let d = d\<lparr>m_pending_sensors := m_pending_sensors d OR new_sensors\<rparr>;
          host = now_ns clock;
          d = (if m_time_start d = 0 then d\<lparr>m_time_start := host, m_time_offset := host - remote\<rparr> else d);
          remote = remote + m_time_offset d;
          remote = (if sint remote > sint host then host else remote) in
      bindr (stamp_events new_sensors remote (m_sensors d)) (\<lambda>es. ok (d\<lparr>m_sensors := es\<rparr>)))"

text \<open>
  The part of \<open>sensor_device_poll_event_locked\<close> that runs with a message in hand and the mutex held,
  up to the time stamps; \<open>False\<close> means that the loop goes on to wait for the next message. Then the
  buffer goes back to the pool.
\<close>

definition store_msg :: "sensors_h \<Rightarrow> int \<times> int \<Rightarrow> byte list \<Rightarrow> SensorDevice \<Rightarrow> (bool \<times> SensorDevice) run" where
  "store_msg H clock buf d =
     (if buf = [] then ok (False, d) else
      bindr (store_event H buf d) (\<lambda>(b, d).
      case b of None \<Rightarrow> ok (False, d)
      | Some new_sensors \<Rightarrow>
          bindr (load32 buf 0) (\<lambda>ty. bindr (count_event H (sint ty) d) (\<lambda>d.
          bindr (load64 buf 8) (\<lambda>remote. bindr (stamp_new new_sensors remote clock d) (\<lambda>d.
          ok (True, d)))))))"

definition recycle_buffer :: "byte list \<Rightarrow> SensorDevice \<Rightarrow> SensorDevice" where
  "recycle_buffer buf d = d\<lparr>m_msg_mem_pool := m_msg_mem_pool d @ [buf]\<rparr>"

definition process_msg :: "sensors_h \<Rightarrow> int \<times> int \<Rightarrow> byte list \<Rightarrow> SensorDevice \<Rightarrow> (bool \<times> SensorDevice) run" where
  "process_msg H clock buf d = bindr (store_msg H clock buf d) (\<lambda>(got, d).
     ok (got, if got then recycle_buffer buf d else d))"

section \<open>The device invariant\<close>

text \<open>
  The arrays keep their sizes, the queue its bound and the buffers their length; only supported
  sensors are pending, and a pending slot holds either a flush notice or an event of its own
  sensor. The logging interval is not 0.
\<close>

definition bufs_ok :: "byte list list \<Rightarrow> bool" where
  "bufs_ok bs \<longleftrightarrow> list_all (\<lambda>b. length b = MSG_BUF_SIZE) bs"

definition slots_ok :: "sensors_h \<Rightarrow> u32 \<Rightarrow> sensors_event_t list \<Rightarrow> bool" where
  "slots_ok H pending es \<longleftrightarrow> length es = MAX_NUM_SENSORS \<and>
     bits_of pending \<subseteq> {..<MAX_NUM_SENSORS} \<and>
     (\<forall>i < MAX_NUM_SENSORS. length (ev_data (es ! i)) = EVENT_WORDS \<and>
        (ev_type (es ! i) = SENSOR_TYPE_META_DATA H \<longrightarrow> i \<in> bits_of pending) \<and>
        (i \<in> bits_of pending \<longrightarrow> ev_type (es ! i) = SENSOR_TYPE_META_DATA H \<or> ev_type (es ! i) = type_list H ! i))"

definition dev_inv :: "sensors_h \<Rightarrow> SensorDevice \<Rightarrow> bool" where
  "dev_inv H d \<longleftrightarrow>
     length (m_flush_count d) = MAX_NUM_SENSORS \<and> slots_ok H (m_pending_sensors d) (m_sensors d) \<and>
     length (m_sensor_config_status d) = MAX_NUM_SENSORS \<and>
     length (sensor_data_count d) = MAX_NUM_SENSORS \<and>
     length (m_sensor_msg_queue d) \<le> MAX_MSG_QUEUE_SIZE \<and>
     bufs_ok (m_sensor_msg_queue d) \<and> bufs_ok (m_msg_mem_pool d) \<and> m_log_trace_count d \<noteq> 0"

lemma dev_inv_new:
  assumes "length junk = MAX_NUM_SENSORS" and "\<forall>e \<in> set junk. length (ev_data e) = EVENT_WORDS" and "trace \<noteq> Some 0"
  shows "dev_inv H (SensorDevice_new H junk trace)"
  using assms
  by (auto simp: dev_inv_def SensorDevice_new_def slots_ok_def bufs_ok_def list_all_iff split: option.splits)

lemma SUPPORTED_bits: "bits_of (SUPPORTED_SENSORS AND w) = bits_of w \<inter> {..<MAX_NUM_SENSORS}"
proof -
  have "SUPPORTED_SENSORS = mask MAX_NUM_SENSORS"
    by (simp add: SUPPORTED_SENSORS_def mask_eq_exp_minus_1)
  then show ?thesis unfolding \<open>SUPPORTED_SENSORS = _\<close>
    by (auto simp: bits_of_def bit_and_iff bit_mask_iff dest: bit32_less)
qed

lemma and_bit_zero: "0 \<le> h \<Longrightarrow> h < 32 \<Longrightarrow> w AND 2 ^ nat h = (0 :: u32) \<longleftrightarrow> nat h \<notin> bits_of w"
  by (simp add: and_exp_eq_0_iff_not_bit bits_of_def)

section \<open>Flush and hand-out keep the invariant\<close>

lemma slots_ok_nth:
  assumes "slots_ok H w es" and "i < MAX_NUM_SENSORS"
  shows "length (ev_data (es ! i)) = EVENT_WORDS"
    and "ev_type (es ! i) = SENSOR_TYPE_META_DATA H \<Longrightarrow> i \<in> bits_of w"
    and "i \<in> bits_of w \<Longrightarrow> ev_type (es ! i) = SENSOR_TYPE_META_DATA H \<or> ev_type (es ! i) = type_list H ! i"
  using assms by (auto simp: slots_ok_def)

lemma slots_ok_length: "slots_ok H w es \<Longrightarrow> length es = MAX_NUM_SENSORS"
  by (simp add: slots_ok_def)

lemma slots_ok_set:
  assumes "slots_ok H w es" and "i < MAX_NUM_SENSORS" and "length (ev_data e) = EVENT_WORDS"
    and "ev_type e = SENSOR_TYPE_META_DATA H \<or> ev_type e = type_list H ! i"
  shows "slots_ok H (w OR 2 ^ i) (es[i := e])"
  using assms by (auto simp: slots_ok_def nth_list_update bits_of_set MAX_NUM_SENSORS_def)

lemma slots_ok_clear:
  assumes "slots_ok H w es" and "i < MAX_NUM_SENSORS" and "ev_type e \<noteq> SENSOR_TYPE_META_DATA H"
    and "length (ev_data e) = EVENT_WORDS"
  shows "slots_ok H (w AND NOT (2 ^ i)) (es[i := e])"
  using assms by (auto simp: slots_ok_def nth_list_update bits_of_clear)

lemma flush_eq:
  assumes inv: "dev_inv H d" and h: "h < MAX_NUM_SENSORS"
  shows "sensor_device_flush H (int h) d = ok (0,
    if ev_type (m_sensors d ! h) = SENSOR_TYPE_META_DATA H
    then d\<lparr>m_flush_count := (m_flush_count d)[h := m_flush_count d ! h + 1]\<rparr>
    else d\<lparr>m_flush_count := (m_flush_count d)[h := 0],
           m_sensors := (m_sensors d)[h := flush_notice H (int h) (m_sensors d ! h)],
           m_pending_sensors := m_pending_sensors d OR 2 ^ h\<rparr>)"
proof -
  from inv have slots: "slots_ok H (m_pending_sensors d) (m_sensors d)"
    and len: "length (m_flush_count d) = MAX_NUM_SENSORS" by (simp_all add: dev_inv_def)
  note lens = len slots_ok_length [OF slots]
  have h32: "int h < 32" using h by (simp add: MAX_NUM_SENSORS_def)
  show ?thesis
    using h h32 lens slots_ok_nth(2) [OF slots h] and_bit_zero [of "int h" "m_pending_sensors d"]
    by (auto simp: sensor_device_flush_def shl1_ok arr_get_ok arr_set_ok)
qed

lemma flush_inv:
  assumes inv: "dev_inv H d" and h: "h < MAX_NUM_SENSORS" and run: "sensor_device_flush H (int h) d = ok (r, d')"
  shows "dev_inv H d'"
proof -
  from inv have slots: "slots_ok H (m_pending_sensors d) (m_sensors d)" by (simp add: dev_inv_def)
  have "length (ev_data (flush_notice H (int h) (m_sensors d ! h))) = EVENT_WORDS"
    using slots_ok_nth(1) [OF slots h] by (simp add: flush_notice_def overlay_def EVENT_WORDS_def)
  then have "slots_ok H (m_pending_sensors d OR 2 ^ h) ((m_sensors d)[h := flush_notice H (int h) (m_sensors d ! h)])"
    by (intro slots_ok_set [OF slots h]) (simp_all add: flush_notice_def)
  then show ?thesis using run inv
    by (auto simp: flush_eq [OF inv h] dev_inv_def split: if_splits)
qed

text \<open>What handing out the slot \<open>i\<close> returns and leaves behind.\<close>

definition hand_out :: "sensors_h \<Rightarrow> nat \<Rightarrow> SensorDevice \<Rightarrow> sensors_event_t \<times> SensorDevice" where
  "hand_out H i d =
     (let e = m_sensors d ! i; w = m_pending_sensors d AND NOT (2 ^ i) in
      if ev_type e = SENSOR_TYPE_META_DATA H then
        (e, if m_flush_count d ! i > 0
         then d\<lparr>m_flush_count := (m_flush_count d)[i := m_flush_count d ! i - 1], m_pending_sensors := w OR 2 ^ i\<rparr>
         else d\<lparr>m_sensors := (m_sensors d)[i := e\<lparr>ev_type := SENSOR_TYPE_META_DATA H + 1\<rparr>], m_pending_sensors := w\<rparr>)
      else (e\<lparr>ev_sensor := int i, ev_version := SIZEOF_SENSORS_EVENT H\<rparr>, d\<lparr>m_pending_sensors := w\<rparr>))"

lemma pick_eq:
  assumes inv: "dev_inv H d" and pend: "m_pending_sensors d \<noteq> 0"
    and i: "i = Max (bits_of (m_pending_sensors d))"
  shows "sensor_device_pick_pending_event_locked H d = ok (int i, Some (fst (hand_out H i d)), snd (hand_out H i d))"
    and "i < MAX_NUM_SENSORS" and "i \<in> bits_of (m_pending_sensors d)"
proof -
  from inv have slots: "slots_ok H (m_pending_sensors d) (m_sensors d)"
    and len: "length (m_flush_count d) = MAX_NUM_SENSORS" by (simp_all add: dev_inv_def)
  have sub: "bits_of (m_pending_sensors d) \<subseteq> {..<MAX_NUM_SENSORS}" using slots by (simp add: slots_ok_def)
  then have "bits_of (SUPPORTED_SENSORS AND m_pending_sensors d) = bits_of (m_pending_sensors d)"
    by (auto simp: SUPPORTED_bits)
  then have mask: "SUPPORTED_SENSORS AND m_pending_sensors d = m_pending_sensors d"
    by (auto simp: bits_of_def bit_eq_iff)
  show mem: "i \<in> bits_of (m_pending_sensors d)"
    using pend unfolding i by (simp add: bits_of_eq_empty Max_in)
  then show small: "i < MAX_NUM_SENSORS" using sub by auto
  have "31 - clz32 (m_pending_sensors d) = i" unfolding i by (rule clz32_Max [OF pend])
  then show "sensor_device_pick_pending_event_locked H d
      = ok (int i, Some (fst (hand_out H i d)), snd (hand_out H i d))"
    using pend small len slots_ok_length [OF slots]
    by (simp add: sensor_device_pick_pending_event_locked_def hand_out_def mask Let_def arr_get_ok arr_set_ok)
qed

lemma set_clear_bit: "i \<in> bits_of w \<Longrightarrow> (w AND NOT (2 ^ i)) OR 2 ^ i = w"
  by (rule bit_word_eqI) (auto simp: bit_or_iff clear_bit_iff bit_one_shl bits_of_def)

lemma hand_out_inv:
  assumes inv: "dev_inv H d" and i: "i < MAX_NUM_SENSORS" "i \<in> bits_of (m_pending_sensors d)"
  shows "dev_inv H (snd (hand_out H i d))"
proof -
  from inv have slots: "slots_ok H (m_pending_sensors d) (m_sensors d)" by (simp add: dev_inv_def)
  have "slots_ok H (m_pending_sensors d AND NOT (2 ^ i)) ((m_sensors d)[i := e])"
    if "ev_type e \<noteq> SENSOR_TYPE_META_DATA H" "ev_data e = ev_data (m_sensors d ! i)" for e
    using slots_ok_clear [OF slots i(1)] that slots_ok_nth(1) [OF slots i(1)] by simp
  from this [of "(m_sensors d ! i)\<lparr>ev_type := SENSOR_TYPE_META_DATA H + 1\<rparr>"] this [of "m_sensors d ! i"]
  show ?thesis using inv i
    by (auto simp: hand_out_def Let_def dev_inv_def set_clear_bit)
qed

section \<open>The slots as a specification\<close>

text \<open>
  Abstractly a slot is empty, owes a number of flush notices, or holds one reading. The mask, the
  flush counters and the type field of the concrete slots encode this.
\<close>

datatype slot = Empty | Flushing nat | Reading sensors_event_t

definition slot_of :: "sensors_h \<Rightarrow> SensorDevice \<Rightarrow> nat \<Rightarrow> slot" where
  "slot_of H d i =
     (if i \<notin> bits_of (m_pending_sensors d) then Empty
      else if ev_type (m_sensors d ! i) = SENSOR_TYPE_META_DATA H then Flushing (unat (m_flush_count d ! i) + 1)
      else Reading (m_sensors d ! i))"

fun slot_flush :: "slot \<Rightarrow> slot" where
  "slot_flush (Flushing n) = Flushing (n + 1)"
| "slot_flush _ = Flushing 1"

fun slot_take :: "slot \<Rightarrow> slot" where
  "slot_take (Flushing n) = (if n > 1 then Flushing (n - 1) else Empty)"
| "slot_take _ = Empty"

fun slot_weight :: "slot \<Rightarrow> nat" where
  "slot_weight Empty = 0"
| "slot_weight (Flushing n) = n"
| "slot_weight (Reading e) = 1"

fun slot_notices :: "slot \<Rightarrow> nat" where
  "slot_notices (Flushing n) = n"
| "slot_notices _ = 0"

lemma slot_of_eq_Empty: "slot_of H d i = Empty \<longleftrightarrow> i \<notin> bits_of (m_pending_sensors d)"
  by (simp add: slot_of_def)

lemma flush_refines:
  assumes inv: "dev_inv H d" and h: "h < MAX_NUM_SENSORS" and "unat (m_flush_count d ! h) + 1 < 2 ^ 32"
    and run: "sensor_device_flush H (int h) d = ok (r, d')"
  shows "slot_of H d' = (slot_of H d)(h := slot_flush (slot_of H d h))"
proof -
  from inv have slots: "slots_ok H (m_pending_sensors d) (m_sensors d)" by (simp add: dev_inv_def)
  have lens: "length (m_flush_count d) = MAX_NUM_SENSORS" "length (m_sensors d) = MAX_NUM_SENSORS"
    using inv slots_ok_length [OF slots] by (simp_all add: dev_inv_def)
  have "h < 32" using h by (simp add: MAX_NUM_SENSORS_def)
  have "unat (m_flush_count d ! h + 1) = unat (m_flush_count d ! h) + 1"
    using assms(3) by (simp add: unat_word_ariths)
  with run h lens \<open>h < 32\<close> slots_ok_nth(2) [OF slots h] show ?thesis
    by (auto simp: flush_eq [OF inv h] slot_of_def fun_eq_iff bits_of_set flush_notice_def nth_list_update
        split: if_splits)
qed

lemma hand_out_refines:
  assumes inv: "dev_inv H d" and i: "i < MAX_NUM_SENSORS" "i \<in> bits_of (m_pending_sensors d)"
  shows "slot_of H (snd (hand_out H i d)) = (slot_of H d)(i := slot_take (slot_of H d i))"
    and "fst (hand_out H i d) = (case slot_of H d i of
           Reading e \<Rightarrow> e\<lparr>ev_sensor := int i, ev_version := SIZEOF_SENSORS_EVENT H\<rparr> | _ \<Rightarrow> m_sensors d ! i)"
proof -
  from inv have slots: "slots_ok H (m_pending_sensors d) (m_sensors d)" by (simp add: dev_inv_def)
  have lens: "length (m_flush_count d) = MAX_NUM_SENSORS" "length (m_sensors d) = MAX_NUM_SENSORS"
    using inv slots_ok_length [OF slots] by (simp_all add: dev_inv_def)
  have dec: "unat (m_flush_count d ! i - 1) = unat (m_flush_count d ! i) - 1" if "m_flush_count d ! i > 0"
    using that by (metis unat_minus_one word_gt_0)
  have pos: "m_flush_count d ! i > 0 \<longleftrightarrow> 0 < unat (m_flush_count d ! i)"
    by (simp add: word_gt_0 unat_gt_0)
  show "slot_of H (snd (hand_out H i d)) = (slot_of H d)(i := slot_take (slot_of H d i))"
    using i lens dec pos
    by (auto simp: hand_out_def slot_of_def Let_def fun_eq_iff bits_of_clear set_clear_bit nth_list_update)
  show "fst (hand_out H i d) = (case slot_of H d i of
           Reading e \<Rightarrow> e\<lparr>ev_sensor := int i, ev_version := SIZEOF_SENSORS_EVENT H\<rparr> | _ \<Rightarrow> m_sensors d ! i)"
    using i by (auto simp: hand_out_def slot_of_def Let_def)
qed

section \<open>The reading loop\<close>

text \<open>The number of events the device owes to the framework.\<close>

definition outstanding :: "sensors_h \<Rightarrow> SensorDevice \<Rightarrow> nat" where
  "outstanding H d = (\<Sum>i < MAX_NUM_SENSORS. slot_weight (slot_of H d i))"

definition notices :: "sensors_h \<Rightarrow> SensorDevice \<Rightarrow> nat" where
  "notices H d = (\<Sum>i < MAX_NUM_SENSORS. slot_notices (slot_of H d i))"

definition is_notice :: "sensors_h \<Rightarrow> sensors_event_t \<Rightarrow> bool" where
  "is_notice H e \<longleftrightarrow> ev_type e = SENSOR_TYPE_META_DATA H"

text \<open>An event as the framework may receive it: a flush notice, or a reading labelled with its sensor.\<close>

definition event_ok :: "sensors_h \<Rightarrow> sensors_event_t \<Rightarrow> bool" where
  "event_ok H e \<longleftrightarrow> length (ev_data e) = EVENT_WORDS \<and>
     (is_notice H e \<or>
      0 \<le> ev_sensor e \<and> ev_sensor e < int MAX_NUM_SENSORS \<and> ev_type e = get_type_from_hanle H (ev_sensor e) \<and>
      ev_version e = SIZEOF_SENSORS_EVENT H)"

lemma sum_fun_upd_nat:
  fixes f :: "nat \<Rightarrow> 'b" and g :: "'b \<Rightarrow> nat"
  assumes "i < n"
  shows "(\<Sum>j < n. g ((f(i := v)) j)) + g (f i) = (\<Sum>j < n. g (f j)) + g v"
proof -
  have "(\<Sum>j < n. g ((f(i := v)) j)) = g v + (\<Sum>j \<in> {..<n} - {i}. g (f j))"
    using assms by (subst sum.remove [of _ i]) auto
  moreover have "(\<Sum>j < n. g (f j)) = g (f i) + (\<Sum>j \<in> {..<n} - {i}. g (f j))"
    using assms by (subst sum.remove [of _ i]) auto
  ultimately show ?thesis by simp
qed

lemma slot_take_weight: "s \<noteq> Empty \<Longrightarrow> s \<noteq> Flushing 0 \<Longrightarrow> slot_weight (slot_take s) + 1 = slot_weight s"
  by (cases s) auto

lemma slot_take_notices:
  "s \<noteq> Flushing 0 \<Longrightarrow> slot_notices (slot_take s) + (case s of Flushing n \<Rightarrow> 1 | _ \<Rightarrow> 0) = slot_notices s"
  by (cases s) auto

lemma hand_out_is_notice:
  "i \<in> bits_of (m_pending_sensors d) \<Longrightarrow>
     (if is_notice H (fst (hand_out H i d)) then 1 else 0) = (case slot_of H d i of Flushing n \<Rightarrow> 1 | _ \<Rightarrow> 0)"
  by (simp add: is_notice_def hand_out_def slot_of_def Let_def)

lemma outstanding_pos: "dev_inv H d \<Longrightarrow> outstanding H d = 0 \<longleftrightarrow> m_pending_sensors d = 0"
proof -
  assume "dev_inv H d"
  then have "bits_of (m_pending_sensors d) \<subseteq> {..<MAX_NUM_SENSORS}" by (simp add: dev_inv_def slots_ok_def)
  moreover have "slot_weight (slot_of H d i) = 0 \<longleftrightarrow> i \<notin> bits_of (m_pending_sensors d)" for i
    by (simp add: slot_of_def)
  ultimately show ?thesis by (auto simp: outstanding_def simp flip: bits_of_eq_empty)
qed

lemma hand_out_outstanding:
  assumes inv: "dev_inv H d" and i: "i < MAX_NUM_SENSORS" "i \<in> bits_of (m_pending_sensors d)"
  shows "outstanding H (snd (hand_out H i d)) + 1 = outstanding H d"
    and "notices H (snd (hand_out H i d)) + (if is_notice H (fst (hand_out H i d)) then 1 else 0) = notices H d"
proof -
  let ?s = "slot_of H d"
  have ne: "?s i \<noteq> Empty" "?s i \<noteq> Flushing 0" using i by (auto simp: slot_of_def)
  show "outstanding H (snd (hand_out H i d)) + 1 = outstanding H d"
    using sum_fun_upd_nat [OF i(1), of slot_weight ?s "slot_take (?s i)"] slot_take_weight [OF ne]
    by (simp add: outstanding_def hand_out_refines(1) [OF assms])
  show "notices H (snd (hand_out H i d)) + (if is_notice H (fst (hand_out H i d)) then 1 else 0) = notices H d"
    unfolding hand_out_is_notice [OF i(2)]
    using sum_fun_upd_nat [OF i(1), of slot_notices ?s "slot_take (?s i)"] slot_take_notices [OF ne(2)]
    by (simp add: notices_def hand_out_refines(1) [OF assms])
qed

lemma hand_out_event_ok:
  assumes "header_ok H" and inv: "dev_inv H d" and i: "i < MAX_NUM_SENSORS" "i \<in> bits_of (m_pending_sensors d)"
  shows "event_ok H (fst (hand_out H i d))"
proof -
  from inv have slots: "slots_ok H (m_pending_sensors d) (m_sensors d)" by (simp add: dev_inv_def)
  show ?thesis
    using slots_ok_nth [OF slots i(1)] i
    by (auto simp: event_ok_def hand_out_def Let_def is_notice_def get_type_int [OF assms(1)])
qed

lemma pick_loop_spec:
  assumes "header_ok H" and "dev_inv H d"
  shows "\<exists>out d'. pick_loop H n r evs d = ok (r + int (length out), evs @ out, d') \<and> dev_inv H d' \<and>
     length out = min n (outstanding H d) \<and> outstanding H d' = outstanding H d - length out \<and>
     notices H d = notices H d' + length (filter (is_notice H) out) \<and> list_all (event_ok H) out"
  using assms(2)
proof (induction n arbitrary: r evs d)
  case 0
  then show ?case by simp
next
  case (Suc n)
  show ?case
  proof (cases "m_pending_sensors d = 0")
    case True
    with Suc.prems outstanding_pos [OF Suc.prems] show ?thesis by simp
  next
    case False
    define i where "i = Max (bits_of (m_pending_sensors d))"
    note p = pick_eq [OF Suc.prems False i_def]
    let ?e = "fst (hand_out H i d)" and ?d = "snd (hand_out H i d)"
    note out = hand_out_outstanding [OF Suc.prems p(2,3)]
    from Suc.IH [OF hand_out_inv [OF Suc.prems p(2,3)], of "r + 1" "evs @ [?e]"] obtain out' d' where
      o: "pick_loop H n (r + 1) (evs @ [?e]) ?d = ok (r + 1 + int (length out'), (evs @ [?e]) @ out', d')"
      "dev_inv H d'" "length out' = min n (outstanding H ?d)" "outstanding H d' = outstanding H ?d - length out'"
      "notices H ?d = notices H d' + length (filter (is_notice H) out')" "list_all (event_ok H) out'" by blast
    have "pick_loop H (Suc n) r evs d = ok (r + int (length (?e # out')), evs @ ?e # out', d')"
      using False p(1) o(1) by simp
    moreover have "length (?e # out') = min (Suc n) (outstanding H d)"
      using o(3) out(1) by simp
    moreover have "outstanding H d' = outstanding H d - length (?e # out')" using o(4) out(1) by simp
    moreover have "notices H d = notices H d' + length (filter (is_notice H) (?e # out'))" using o(5) out(2) by auto
    moreover have "list_all (event_ok H) (?e # out')"
      using o(6) hand_out_event_ok [OF assms(1) Suc.prems p(2,3)] by simp
    ultimately show ?thesis using o(2) by blast
  qed
qed

end
