(* ===== verification/Sensor_Messages.thy ===== *)
theory Sensor_Messages
  imports Sensor_Device
begin

text \<open>
  What the listener thread does with the client's bytes: the bounded queue, the buffer pool, the
  two receives of \<open>sensor_event_callback\<close>, and the configuration messages going the other way. The
  callbacks meet the contract of the server, which gives the safety of the whole listener.
\<close>

section \<open>The bounded queue\<close>

text \<open>The specification of a queue that keeps the newest \<open>n\<close> messages.\<close>

definition keep_newest :: "nat \<Rightarrow> 'a list \<Rightarrow> 'a list" where
  "keep_newest n xs = drop (length xs - n) xs"

lemma length_keep_newest: "length (keep_newest n xs) = min n (length xs)"
  by (simp add: keep_newest_def)

lemma keep_newest_snoc: "keep_newest n (keep_newest n xs @ ys) = keep_newest n (xs @ ys)"
  by (cases "n \<le> length xs") (simp_all add: keep_newest_def drop_append add.commute)

lemma drop_oldest_eq:
  "drop_oldest q pool =
     (drop (Suc (length q) - MAX_MSG_QUEUE_SIZE) q, pool @ take (Suc (length q) - MAX_MSG_QUEUE_SIZE) q)"
proof (induction q pool rule: drop_oldest.induct)
  case (1 pool)
  then show ?case by simp
next
  case (2 m q pool)
  show ?case
  proof (cases "length (m # q) \<ge> MAX_MSG_QUEUE_SIZE")
    case True
    then have "Suc (length (m # q)) - MAX_MSG_QUEUE_SIZE = Suc (Suc (length q) - MAX_MSG_QUEUE_SIZE)" by simp
    with True "2.IH" show ?thesis by simp
  next
    case False
    then show ?thesis by simp
  qed
qed

text \<open>The contract of a lossy queue: one more message, the oldest ones make room.\<close>

locale lossy_queue =
  fixes enq :: "'m \<Rightarrow> 's \<Rightarrow> 's" and content :: "'s \<Rightarrow> 'm list" and cap :: nat
  assumes enq_content: "content (enq m s) = keep_newest cap (content s @ [m])"
begin

lemma enq_all: "length (content s) \<le> cap \<Longrightarrow> content (fold enq ms s) = keep_newest cap (content s @ ms)"
proof (induction ms arbitrary: s)
  case Nil
  then show ?case by (simp add: keep_newest_def)
next
  case (Cons m ms)
  have "length (content (enq m s)) \<le> cap" by (simp add: enq_content length_keep_newest)
  from Cons.IH [OF this] show ?case
    by (simp add: enq_content keep_newest_snoc)
qed

lemma enq_bounded: "length (content (enq m s)) \<le> cap"
  by (simp add: enq_content length_keep_newest)

end

lemma enqueue_content:
  "m_sensor_msg_queue (enqueue_msg b d) = keep_newest MAX_MSG_QUEUE_SIZE (m_sensor_msg_queue d @ [b])"
  by (simp add: enqueue_msg_def drop_oldest_eq keep_newest_def MAX_MSG_QUEUE_SIZE_def)

interpretation msg_queue: lossy_queue enqueue_msg m_sensor_msg_queue MAX_MSG_QUEUE_SIZE
  by unfold_locales (rule enqueue_content)

text \<open>No buffer is lost: what leaves the queue goes to the pool.\<close>

lemma enqueue_conserves:
  "m_msg_mem_pool (enqueue_msg b d) @ m_sensor_msg_queue (enqueue_msg b d)
     = m_msg_mem_pool d @ m_sensor_msg_queue d @ [b]"
  by (simp add: enqueue_msg_def drop_oldest_eq)

lemma enqueue_frame [simp]:
  "m_flush_count (enqueue_msg b d) = m_flush_count d" "m_pending_sensors (enqueue_msg b d) = m_pending_sensors d"
  "m_sensors (enqueue_msg b d) = m_sensors d" "m_sensor_config_status (enqueue_msg b d) = m_sensor_config_status d"
  "sensor_data_count (enqueue_msg b d) = sensor_data_count d" "m_log_trace_count (enqueue_msg b d) = m_log_trace_count d"
  by (simp_all add: enqueue_msg_def drop_oldest_eq)

lemma enqueue_inv:
  assumes "dev_inv H d" and "length b = MSG_BUF_SIZE"
  shows "dev_inv H (enqueue_msg b d)"
proof -
  have "set (m_msg_mem_pool (enqueue_msg b d)) \<union> set (m_sensor_msg_queue (enqueue_msg b d))
      = set (m_msg_mem_pool d) \<union> set (m_sensor_msg_queue d) \<union> {b}"
    using arg_cong [OF enqueue_conserves [of b d], of set] by auto
  with assms have "bufs_ok (m_msg_mem_pool (enqueue_msg b d))" "bufs_ok (m_sensor_msg_queue (enqueue_msg b d))"
    by (auto simp: dev_inv_def bufs_ok_def list_all_iff)
  with assms show ?thesis
    by (simp add: dev_inv_def msg_queue.enq_bounded)
qed

lemma take_pool_buffer_ok:
  assumes "dev_inv H d"
  obtains b d' where "take_pool_buffer d = ok (b, d')" and "length b = MSG_BUF_SIZE" and "dev_inv H d'"
    and "m_sensor_msg_queue d' = m_sensor_msg_queue d" and "d' = d\<lparr>m_msg_mem_pool := m_msg_mem_pool d'\<rparr>"
  using assms
  by (cases "m_msg_mem_pool d")
    (auto simp: take_pool_buffer_def pop_pool_buffer_def new_pool_buffer_def dev_inv_def bufs_ok_def slots_ok_def intro!: that)

section \<open>Receiving a message\<close>

lemma recv_result_safe:
  assumes "\<And>ds e r z. res = Some (ds, e, r, z) \<Longrightarrow>
     P (tot + int (length ds), take p buf @ ds @ drop (p + length ds) buf,
        k\<lparr>errno := e, inbox := (inbox k)(fd := r), slept_us := slept_us k + 1000 * z\<rparr>)"
  shows "safe_run (recv_result fd buf p tot k res) P"
  using assms by (cases res) (auto simp: recv_result_def)

lemma fd_ok_recv [simp]: "fd_ok (k\<lparr>errno := e, inbox := i, slept_us := z\<rparr>) = fd_ok k"
  by (simp add: fd_ok_def)

lemma length_stack_header [simp]: "length (stack_header junk) = SIZEOF_AIC_EVENT"
  by (simp add: stack_header_def SIZEOF_AIC_EVENT_def)

lemma length_recv_buf:
  assumes "drain bud n e outs = Some (ds, e', r, z)" and "p + n \<le> length buf"
  shows "length (take p buf @ ds @ drop (p + length ds) buf) = length buf"
  using drain_length [OF assms(1)] assms(2) by simp

lemma recv_data_safe:
  assumes "client_fd ss p = Some fd" and "off + nat len \<le> length buf" and "0 \<le> len" and "len < 2 ^ 31" and "fd_ok k"
  shows "safe_run (SockServer_recv_data ss (Some p) buf off len SOCK_BLOCK_MODE tmo k)
    (\<lambda>(n, buf', k'). n \<le> len \<and> length buf' = length buf \<and> fd_ok k')"
  unfolding recv_data_block [OF assms(1-4)]
proof (rule recv_result_safe)
  fix ds e r z
  assume run: "drain None (nat len) (errno k) (inbox k fd) = Some (ds, e, r, z)"
  from length_recv_buf [OF run assms(2)] drain_length [OF run] assms(3,5)
  show "case (0 + int (length ds), take off buf @ ds @ drop (off + length ds) buf,
      k\<lparr>errno := e, inbox := (inbox k)(fd := r), slept_us := slept_us k + 1000 * z\<rparr>)
    of (n, buf', k') \<Rightarrow> n \<le> len \<and> length buf' = length buf \<and> fd_ok k'"
    by (simp add: nat_le_iff del: length_append)
qed

lemma event_callback_safe:
  assumes inv: "dev_inv H d" and live: "client_fd ss p = Some fd" and k: "fd_ok k"
  shows "safe_run (sensor_event_callback H junk ss p d k) (\<lambda>(d', k'). dev_inv H d' \<and> fd_ok k')"
proof -
  obtain b d1 where t: "take_pool_buffer d = ok (b, d1)" "length b = MSG_BUF_SIZE" "dev_inv H d1"
    using take_pool_buffer_ok [OF inv] by metis
  have second: "safe_run (bindr (buf_write b 0 hdr) (\<lambda>buf.
      bindr (SockServer_recv_data ss (Some p) buf SIZEOF_AIC_EVENT (get_payload_len H ty) SOCK_BLOCK_MODE 5 k1)
        (\<lambda>(len, buf, k). if len \<le> 0 then ok (d1, k) else ok (enqueue_msg buf d1, k))))
      (\<lambda>(d', k'). dev_inv H d' \<and> fd_ok k')"
    if hdr: "length hdr = SIZEOF_AIC_EVENT" and k1: "fd_ok k1" for hdr ty k1
  proof -
    obtain buf where buf: "buf_write b 0 hdr = ok buf" "length buf = MSG_BUF_SIZE"
      using hdr t(2) by (simp add: buf_write_def MSG_BUF_SIZE_def)
    have "SIZEOF_AIC_EVENT + nat (get_payload_len H ty) \<le> length buf" "0 \<le> get_payload_len H ty"
      "get_payload_len H ty < 2 ^ 31"
      using get_payload_len_cases [of H ty] buf(2)
      by (auto simp: MSG_BUF_SIZE_def MAX_SENSOR_PAYLOAD_SIZE_def)
    from recv_data_safe [OF live this k1, of 5] show ?thesis
      unfolding buf(1) bindr_ok safe_run_bindr
      by (rule safe_run_mono) (use t(3) buf(2) in \<open>auto intro!: enqueue_inv\<close>)
  qed
  have "safe_run (SockServer_recv_data ss (Some p) (stack_header junk) 0 (int SIZEOF_AIC_EVENT) SOCK_BLOCK_MODE 5 k)
    (\<lambda>(n, buf', k'). n \<le> int SIZEOF_AIC_EVENT \<and> length buf' = length (stack_header junk) \<and> fd_ok k')"
    by (rule recv_data_safe [OF live _ _ _ k]) (simp_all add: SIZEOF_AIC_EVENT_def)
  then show ?thesis
    unfolding sensor_event_callback_def safe_run_bindr
    by (rule safe_run_mono)
      (use inv second in \<open>auto simp: load32_def SIZEOF_AIC_EVENT_def t Let_def safe_run_bindr\<close>)
qed

section \<open>Sending the configuration\<close>

lemma length_config_bytes [simp]: "length (config_bytes c) = SIZEOF_CONFIG_MSG"
  by (simp add: config_bytes_def SIZEOF_CONFIG_MSG_def)

text \<open>The default client of a consistent server is live.\<close>

lemma default_client_live:
  assumes "table_inv ss" and "m_pclient ss = Some p"
  obtains fd where "client_fd ss p = Some fd"
proof -
  from assms have mem: "Some p \<in> set (m_clients ss)" by (simp add: table_inv_def)
  then have "connected ss \<noteq> []" by (auto simp: connected_def filter_empty_conv)
  with assms(1) obtain sv where "m_server ss = Some sv" by (auto simp: table_inv_def split: option.splits)
  with client_fd_connected [OF assms(1) mem] that show thesis by metis
qed

text \<open>
  What happens to a configuration message: without a client it is dropped, otherwise it goes through
  the sending loop with six one-millisecond retries. A failure is never reported.
\<close>

definition config_outcome :: "SockServer \<Rightarrow> byte list \<Rightarrow> kern \<Rightarrow> (int \<times> kern) run" where
  "config_outcome ss cmd k = (case m_pclient ss of None \<Rightarrow> ok (0, k)
     | Some p \<Rightarrow> (case client_fd ss p of None \<Rightarrow> fault Use_After_Free
       | Some fd \<Rightarrow> send_result fd cmd 0 k (push (Some 5) (length cmd) (errno k) (outq k fd))))"

lemma send_result_nonneg: "send_result fd cmd 0 k res = ok (r, k') \<Longrightarrow> 0 \<le> r"
  by (cases res) (auto simp: send_result_def)

lemma send_config_eq:
  assumes "table_inv ss" and "length cmd < 2 ^ 31"
  shows "sensor_device_send_config_msg ss cmd k = config_outcome ss cmd k"
proof (cases "m_pclient ss")
  case None
  then show ?thesis by (simp add: sensor_device_send_config_msg_def get_sock_client_def config_outcome_def)
next
  case (Some p)
  obtain fd where fd: "client_fd ss p = Some fd" using default_client_live [OF assms(1) Some] .
  have "SockServer_send_data ss (Some p) cmd (int (length cmd)) SOCK_TIMEOUT_MODE 5 k
      = send_result fd cmd 0 k (push (Some 5) (length cmd) (errno k) (outq k fd))"
    using send_data_timeout [OF fd, of "int (length cmd)" cmd 5 k] assms(2) by simp
  then show ?thesis
    using Some fd send_result_nonneg [of fd cmd k]
    by (cases "push (Some 5) (length cmd) (errno k) (outq k fd)")
      (auto simp: sensor_device_send_config_msg_def get_sock_client_def config_outcome_def send_result_def)
qed

lemma config_outcome_safe:
  assumes "table_inv ss" and "fd_ok k"
  shows "safe_run (config_outcome ss cmd k) (\<lambda>(r, k'). 0 \<le> r \<and> r \<le> int (length cmd) \<and> fd_ok k')"
proof (cases "m_pclient ss")
  case None
  with assms show ?thesis by (simp add: config_outcome_def)
next
  case (Some p)
  obtain fd where fd: "client_fd ss p = Some fd" using default_client_live [OF assms(1) Some] .
  with Some assms(2) push_le [of "Some 5" "length cmd" "errno k" "outq k fd"] show ?thesis
    by (cases "push (Some 5) (length cmd) (errno k) (outq k fd)")
      (auto simp: config_outcome_def send_result_def fd_ok_def)
qed

lemma send_config_safe:
  assumes "table_inv ss" and "length cmd < 2 ^ 31" and "fd_ok k"
  shows "safe_run (sensor_device_send_config_msg ss cmd k) (\<lambda>(r, k'). 0 \<le> r \<and> r \<le> int (length cmd) \<and> fd_ok k')"
  using config_outcome_safe [OF assms(1,3)] by (simp add: send_config_eq [OF assms(1,2)])

lemma send_all_configs_safe:
  assumes "table_inv ss" and "fd_ok k"
  shows "safe_run (send_all_configs cs ss k) fd_ok"
  using assms(2)
proof (induction cs arbitrary: k)
  case (Cons c cs)
  have "length (config_bytes c) < 2 ^ 31" by (simp add: SIZEOF_CONFIG_MSG_def)
  from send_config_safe [OF assms(1) this Cons.prems] show ?case
    unfolding send_all_configs.simps safe_run_bindr
    by (rule safe_run_mono) (auto intro: Cons.IH)
qed simp

section \<open>The device as a program of the server\<close>

definition hal_callbacks :: "sensors_h \<Rightarrow> u64 \<times> u64 \<Rightarrow> SensorDevice callbacks" where
  "hal_callbacks H junk = register_connected_callback client_connected_callback
     (register_listener_callback (sensor_event_callback H junk) no_callbacks)"

interpretation hal: server_app "hal_callbacks H junk" "dev_inv H" for H junk
proof unfold_locales
  fix f :: "SensorDevice callback" and a ss p fd k
  assume inv: "dev_inv H a" and live: "client_fd ss p = Some fd" and k: "fd_ok k"
  show "safe_run (f ss p a k) (\<lambda>(a', k'). dev_inv H a' \<and> fd_ok k')"
    if "m_listener_callback (hal_callbacks H junk) = Some f"
    using that event_callback_safe [OF inv live k, of junk] by (auto simp: hal_callbacks_def)
  show "safe_run (f ss p a k) (\<lambda>(a', k'). dev_inv H a' \<and> fd_ok k')"
    if "m_connected_callback (hal_callbacks H junk) = Some f" and "server_inv ss"
  proof -
    from that have "f = client_connected_callback" "table_inv ss" by (simp_all add: hal_callbacks_def server_inv_def)
    then show ?thesis using inv
      by (auto simp: client_connected_callback_def safe_run_bindr intro!: safe_run_mono [OF send_all_configs_safe [OF _ k]])
  qed
  show "safe_run (f ss p a k) (\<lambda>(a', k'). dev_inv H a' \<and> fd_ok k')"
    if "m_disconnected_callback (hal_callbacks H junk) = Some f"
    using that by (simp add: hal_callbacks_def)
qed

end
