(* ===== verification/Sensor_Delivery.thy ===== *)
theory Sensor_Delivery
  imports Sensor_Messages
begin

text \<open>
  From the client's bytes to the message queue: the wire format of a sensor message, its decoding
  from a queue buffer, and the delivery of whole sequences of messages through the listener's
  callback, however the kernel cuts the stream into pieces.
\<close>

section \<open>Wire format\<close>

definition aic_bytes :: "aic_sensors_event_t \<Rightarrow> byte list" where
  "aic_bytes m = le_bytes 4 (word_of_int (aic_type m) :: u32) @ le_bytes 4 (word_of_int (aic_data_num m) :: u32) @
     le_bytes 8 (aic_timestamp m) @ concat (map (le_bytes 4) (aic_fdata m))"

definition int32_ok :: "int \<Rightarrow> bool" where
  "int32_ok n \<longleftrightarrow> - (2 ^ 31) \<le> n \<and> n < 2 ^ 31"

text \<open>A message of a supported type that carries as many values as the type has.\<close>

definition msg_ok :: "sensors_h \<Rightarrow> aic_sensors_event_t \<Rightarrow> bool" where
  "msg_ok H m \<longleftrightarrow> aic_type m \<in> set (type_list H) \<and> int32_ok (aic_data_num m) \<and>
     sizeof_float * int (length (aic_fdata m)) = get_payload_len H (aic_type m)"

fun words_at :: "byte list \<Rightarrow> nat \<Rightarrow> u32 list" where
  "words_at bs 0 = []"
| "words_at bs (Suc n) = le_word (take 4 bs) # words_at (drop 4 bs) n"

definition decode_msg :: "sensors_h \<Rightarrow> byte list \<Rightarrow> aic_sensors_event_t" where
  "decode_msg H buf =
     (let ty = sint (le_word (take 4 buf) :: u32) in
      \<lparr>aic_type = ty, aic_data_num = sint (le_word (take 4 (drop 4 buf)) :: u32),
       aic_timestamp = le_word (take 8 (drop 8 buf)),
       aic_fdata = words_at (drop SIZEOF_AIC_EVENT buf) (nat (get_payload_len H ty div sizeof_float))\<rparr>)"

lemma sint_word_of_int32: "int32_ok n \<Longrightarrow> sint (word_of_int n :: u32) = n"
  by (simp add: int32_ok_def sint_sbintrunc' signed_take_bit_int_eq_self)

lemma length_concat_le_bytes: "length (concat (map (le_bytes 4) ws)) = 4 * length ws"
  by (induction ws) simp_all

lemma length_aic_bytes: "length (aic_bytes m) = SIZEOF_AIC_EVENT + 4 * length (aic_fdata m)"
  by (simp add: aic_bytes_def SIZEOF_AIC_EVENT_def length_concat_le_bytes)

lemma words_at_concat: "words_at (concat (map (le_bytes 4) ws) @ rest) (length ws) = ws"
  by (induction ws) simp_all

lemma msg_ok_type: "header_ok H \<Longrightarrow> msg_ok H m \<Longrightarrow> int32_ok (aic_type m)"
  using header_ok_type [of H "aic_type m"] by (simp add: msg_ok_def int32_ok_def)

lemma decode_aic_bytes:
  assumes "header_ok H" and "msg_ok H m"
  shows "decode_msg H (aic_bytes m @ rest) = m"
proof -
  have "get_payload_len H (aic_type m) = sizeof_float * int (length (aic_fdata m))"
    using assms(2) by (simp add: msg_ok_def)
  then have "nat (get_payload_len H (aic_type m) div sizeof_float) = length (aic_fdata m)"
    by (simp add: sizeof_float_def)
  then show ?thesis
    using assms msg_ok_type [OF assms]
    by (simp add: decode_msg_def aic_bytes_def Let_def SIZEOF_AIC_EVENT_def sint_word_of_int32 words_at_concat msg_ok_def)
qed

lemma load32_type:
  assumes "header_ok H" and "msg_ok H m"
  shows "load32 (aic_bytes m @ rest) 0 = ok (word_of_int (aic_type m))"
    and "sint (word_of_int (aic_type m) :: u32) = aic_type m"
  using load32_at [of "[]" 0 "word_of_int (aic_type m)"] msg_ok_type [OF assms]
  by (simp_all add: aic_bytes_def sint_word_of_int32)

section \<open>Delivery of one message\<close>

lemma drain_keeps_calm: "drain None n e outs = Some (ds, e', r, z) \<Longrightarrow> calm e outs \<Longrightarrow> calm e' r"
  by (induction "None :: int option" n e outs arbitrary: ds e' r z rule: drain.induct)
    (fastforce split: if_splits)+

lemma recv_data_calm:
  assumes "client_fd ss p = Some fd" and "off + length ds \<le> length buf" and "length ds < 2 ^ 31"
    and "calm (errno k) (inbox k fd)" and "stream_of (inbox k fd) = ds @ rest"
  obtains k' where "SockServer_recv_data ss (Some p) buf off (int (length ds)) SOCK_BLOCK_MODE tmo k
       = ok (int (length ds), take off buf @ ds @ drop (off + length ds) buf, k')"
    and "calm (errno k') (inbox k' fd)" and "stream_of (inbox k' fd) = rest" and "sysq k' = sysq k"
    and "\<And>fd'. fd' \<noteq> fd \<Longrightarrow> inbox k' fd' = inbox k fd'" and "outq k' = outq k" and "sent k' = sent k"
proof -
  from drain_calm [OF assms(4), of "length ds"] assms(5) obtain e r z where
    run: "drain None (length ds) (errno k) (inbox k fd) = Some (ds, e, r, z)" by auto
  from drain_keeps_calm [OF run assms(4)] drain_stream [OF run] assms(5)
  have "calm e r" "stream_of r = rest" by auto
  then show thesis
    using recv_data_block [OF assms(1), of off "int (length ds)" buf tmo k] assms(2,3) run
    by (intro that [of "k\<lparr>errno := e, inbox := (inbox k)(fd := r), slept_us := slept_us k + 1000 * z\<rparr>"])
      (simp_all add: recv_result_def)
qed

text \<open>
  One call of the callback takes exactly one message off the stream and appends it to the queue.
\<close>

lemma callback_delivers:
  assumes hdr: "header_ok H" and m: "msg_ok H m" and inv: "dev_inv H d"
    and live: "client_fd ss p = Some fd"
    and calm: "calm (errno k) (inbox k fd)" and str: "stream_of (inbox k fd) = aic_bytes m @ rest"
  shows "\<exists>buf d1 k'. sensor_event_callback H junk ss p d k = ok (enqueue_msg buf d1, k') \<and>
     length buf = MSG_BUF_SIZE \<and> decode_msg H buf = m \<and> dev_inv H d1 \<and>
     d1 = d\<lparr>m_msg_mem_pool := m_msg_mem_pool d1\<rparr> \<and>
     calm (errno k') (inbox k' fd) \<and> stream_of (inbox k' fd) = rest \<and> sysq k' = sysq k"
proof -
  define h where "h = take SIZEOF_AIC_EVENT (aic_bytes m)"
  define pl where "pl = drop SIZEOF_AIC_EVENT (aic_bytes m)"
  have hp: "aic_bytes m = h @ pl" by (simp add: h_def pl_def)
  have lh: "length h = SIZEOF_AIC_EVENT" by (simp add: h_def length_aic_bytes)
  have lp: "get_payload_len H (aic_type m) = int (length pl)" and npl: "length pl \<noteq> 0"
    and spl: "length pl \<le> MAX_SENSOR_PAYLOAD_SIZE"
    using m get_payload_len_supported [of "aic_type m" H]
    by (auto simp: pl_def length_aic_bytes msg_ok_def sizeof_float_def MAX_SENSOR_PAYLOAD_SIZE_def)
  obtain k1 where r1: "SockServer_recv_data ss (Some p) (stack_header junk) 0 (int (length h)) SOCK_BLOCK_MODE 5 k
       = ok (int (length h), take 0 (stack_header junk) @ h @ drop (0 + length h) (stack_header junk), k1)"
    and k1: "calm (errno k1) (inbox k1 fd)" "stream_of (inbox k1 fd) = pl @ rest" "sysq k1 = sysq k"
    using recv_data_calm [OF live _ _ calm, of 0 h "stack_header junk" "pl @ rest" 5] lh str hp
    by (auto simp: SIZEOF_AIC_EVENT_def)
  obtain b d1 where t: "take_pool_buffer d = ok (b, d1)" "length b = MSG_BUF_SIZE" "dev_inv H d1"
    "d1 = d\<lparr>m_msg_mem_pool := m_msg_mem_pool d1\<rparr>"
    using take_pool_buffer_ok [OF inv] by metis
  define b1 where "b1 = h @ drop SIZEOF_AIC_EVENT b"
  have wr: "buf_write b 0 h = ok b1" and lb1: "length b1 = MSG_BUF_SIZE"
    using lh t(2) by (simp_all add: buf_write_def b1_def MSG_BUF_SIZE_def)
  obtain k2 where r2: "SockServer_recv_data ss (Some p) b1 SIZEOF_AIC_EVENT (int (length pl)) SOCK_BLOCK_MODE 5 k1
       = ok (int (length pl), take SIZEOF_AIC_EVENT b1 @ pl @ drop (SIZEOF_AIC_EVENT + length pl) b1, k2)"
    and k2: "calm (errno k2) (inbox k2 fd)" "stream_of (inbox k2 fd) = rest" "sysq k2 = sysq k1"
    using recv_data_calm [OF live _ _ k1(1,2), of SIZEOF_AIC_EVENT b1 5] lb1 spl
    by (auto simp: MSG_BUF_SIZE_def MAX_SENSOR_PAYLOAD_SIZE_def)
  define buf where "buf = take SIZEOF_AIC_EVENT b1 @ pl @ drop (SIZEOF_AIC_EVENT + length pl) b1"
  have buf: "buf = aic_bytes m @ drop (SIZEOF_AIC_EVENT + length pl) b1" using lh by (simp add: buf_def b1_def hp)
  have lbuf: "length buf = MSG_BUF_SIZE" using lb1 spl by (simp add: buf_def MSG_BUF_SIZE_def)
  have ty: "load32 h 0 = ok (word_of_int (aic_type m))"
    using load32_type(1) [OF hdr m, of "[]"] lh hp by (simp add: load32_def SIZEOF_AIC_EVENT_def split: if_splits)
  have "sensor_event_callback H junk ss p d k = ok (enqueue_msg buf d1, k2)"
    using r1 r2 lh ty npl lp
    by (simp add: sensor_event_callback_def load32_type(2) [OF hdr m] t(1) wr buf_def SIZEOF_AIC_EVENT_def)
  moreover have "decode_msg H buf = m" unfolding buf by (rule decode_aic_bytes [OF hdr m])
  ultimately show ?thesis using lbuf t(3,4) k1(3) k2 by auto
qed

section \<open>Delivery of a sequence\<close>

text \<open>The listener calls the callback once per round in which the client is readable.\<close>

fun callback_rounds ::
  "sensors_h \<Rightarrow> (u64 \<times> u64) list \<Rightarrow> SockServer \<Rightarrow> nat \<Rightarrow> SensorDevice \<Rightarrow> kern \<Rightarrow> (SensorDevice \<times> kern) run" where
  "callback_rounds H [] ss p d k = ok (d, k)"
| "callback_rounds H (junk # js) ss p d k =
     bindr (sensor_event_callback H junk ss p d k) (\<lambda>(d, k). callback_rounds H js ss p d k)"

lemma keep_newest_map: "keep_newest n (map f xs) = map f (keep_newest n xs)"
  by (simp add: keep_newest_def drop_map)

definition queued :: "sensors_h \<Rightarrow> SensorDevice \<Rightarrow> aic_sensors_event_t list" where
  "queued H d = map (decode_msg H) (m_sensor_msg_queue d)"

lemma queued_enqueue:
  "queued H (enqueue_msg b d) = keep_newest MAX_MSG_QUEUE_SIZE (queued H d @ [decode_msg H b])"
  by (simp add: queued_def enqueue_content flip: keep_newest_map)

lemma callback_rounds_deliver:
  assumes hdr: "header_ok H" and ms: "list_all (msg_ok H) ms" and inv: "dev_inv H d"
    and live: "client_fd ss p = Some fd" and js: "length js = length ms"
    and calm: "calm (errno k) (inbox k fd)" and str: "stream_of (inbox k fd) = concat (map aic_bytes ms) @ rest"
  shows "\<exists>d' k'. callback_rounds H js ss p d k = ok (d', k') \<and> dev_inv H d' \<and>
     queued H d' = keep_newest MAX_MSG_QUEUE_SIZE (queued H d @ ms) \<and>
     calm (errno k') (inbox k' fd) \<and> stream_of (inbox k' fd) = rest"
  using ms inv js calm str
proof (induction ms arbitrary: js d k)
  case Nil
  then have "length (queued H d) \<le> MAX_MSG_QUEUE_SIZE" by (simp add: queued_def dev_inv_def)
  with Nil show ?case by (simp add: keep_newest_def)
next
  case (Cons m ms)
  then obtain j js' where js: "js = j # js'" "length js' = length ms" by (cases js) auto
  from Cons.prems have m: "msg_ok H m" and str: "stream_of (inbox k fd) = aic_bytes m @ concat (map aic_bytes ms) @ rest"
    by simp_all
  from callback_delivers [OF hdr m Cons.prems(2) live Cons.prems(4) str, of j] obtain buf d1 k1 where
    cb: "sensor_event_callback H j ss p d k = ok (enqueue_msg buf d1, k1)" "length buf = MSG_BUF_SIZE"
      "decode_msg H buf = m" "dev_inv H d1" "d1 = d\<lparr>m_msg_mem_pool := m_msg_mem_pool d1\<rparr>"
      "calm (errno k1) (inbox k1 fd)" "stream_of (inbox k1 fd) = concat (map aic_bytes ms) @ rest" by auto
  have "queued H d1 = queued H d" using arg_cong [OF cb(5), of m_sensor_msg_queue] by (simp add: queued_def)
  moreover note Cons.IH [OF _ enqueue_inv [OF cb(4,2)] js(2) cb(6,7)]
  ultimately show ?case
    using Cons.prems(1) cb(1,3) by (simp add: js queued_enqueue keep_newest_snoc)
qed

section \<open>A message of an unknown type\<close>

text \<open>Only the header leaves the stream; the values after it are taken for the next header.\<close>

lemma callback_unsupported:
  fixes ty :: u32
  assumes ty: "sint ty \<notin> set (type_list H)" and hl: "length hdr = SIZEOF_AIC_EVENT" and h0: "take 4 hdr = le_bytes 4 ty"
    and live: "client_fd ss p = Some fd"
    and calm: "calm (errno k) (inbox k fd)" and str: "stream_of (inbox k fd) = hdr @ rest"
  shows "\<exists>k'. sensor_event_callback H junk ss p d k = ok (d, k') \<and> stream_of (inbox k' fd) = rest \<and> calm (errno k') (inbox k' fd)"
proof -
  obtain k1 where r1: "SockServer_recv_data ss (Some p) (stack_header junk) 0 (int (length hdr)) SOCK_BLOCK_MODE 5 k
       = ok (int (length hdr), take 0 (stack_header junk) @ hdr @ drop (0 + length hdr) (stack_header junk), k1)"
    and k1: "calm (errno k1) (inbox k1 fd)" "stream_of (inbox k1 fd) = rest"
    using recv_data_calm [OF live _ _ calm str, of 0 "stack_header junk" 5] hl by (auto simp: SIZEOF_AIC_EVENT_def)
  have "load32 hdr 0 = ok ty" using hl h0 by (simp add: load32_def SIZEOF_AIC_EVENT_def)
  then have "sensor_event_callback H junk ss p d k = ok (d, k1)"
    using r1 hl get_handle_unsupported(2) [OF ty] by (simp add: sensor_event_callback_def SIZEOF_AIC_EVENT_def)
  with k1 show ?thesis by blast
qed

end
