(* ===== verification/Sensor_Intake.thy ===== *)
theory Sensor_Intake
  imports Sensor_Delivery
begin

text \<open>
  What the polling thread makes of a queued message: the slot it fills, the time stamp it gives, and
  what this does to the specification of the slots.
\<close>

section \<open>Storing the values\<close>

text \<open>The slot that receives the values of a message for handle \<open>h\<close>, and the slots afterwards.\<close>

definition data_slot :: "nat \<Rightarrow> nat" where
  "data_slot h = (if h = 5 then 2 else h)"

definition stored :: "nat \<Rightarrow> aic_sensors_event_t \<Rightarrow> sensors_event_t list \<Rightarrow> sensors_event_t list" where
  "stored h m es =
     (let g = data_slot h; es1 = es[g := (es ! g)\<lparr>ev_data := overlay (aic_fdata m) (ev_data (es ! g))\<rparr>] in
      es1[h := (es1 ! h)\<lparr>ev_timestamp := aic_timestamp m, ev_type := aic_type m\<rparr>])"

lemma data_slot_less: "h < MAX_NUM_SENSORS \<Longrightarrow> data_slot h < MAX_NUM_SENSORS"
  by (simp add: data_slot_def MAX_NUM_SENSORS_def)

lemma length_words_at [simp]: "length (words_at bs n) = n"
  by (induction n arbitrary: bs) simp_all

lemma load_floats_eq:
  "off + 4 * n \<le> length buf \<Longrightarrow> load_floats buf off n = ok (words_at (drop off buf) n)"
proof (induction n arbitrary: off)
  case (Suc n)
  then have "load_floats buf (off + 4) n = ok (words_at (drop (off + 4) buf) n)" by simp
  with Suc.prems show ?case by (simp add: load32_def add.commute)
qed simp

lemma put_event_eq: "h < length (m_sensors d) \<Longrightarrow>
   put_event (int h) f d = ok (d\<lparr>m_sensors := (m_sensors d)[h := f (m_sensors d ! h)]\<rparr>)"
  by (simp add: put_event_def arr_get_ok arr_set_ok)

lemma store_values_eq:
  assumes "h < 32" and "h < length (m_sensors d)" and "g < length (m_sensors d)"
    and "SIZEOF_AIC_EVENT + 4 * n \<le> length buf"
  shows "store_values (int h) (int g) ty n ts buf d = ok (Some (2 ^ h), d\<lparr>m_sensors :=
     (let es1 = (m_sensors d)[g := (m_sensors d ! g)\<lparr>ev_data := overlay (words_at (drop SIZEOF_AIC_EVENT buf) n) (ev_data (m_sensors d ! g))\<rparr>] in
      es1[h := (es1 ! h)\<lparr>ev_timestamp := ts, ev_type := ty\<rparr>])\<rparr>)"
  using assms by (simp add: store_values_def shl1_ok load_floats_eq put_event_eq Let_def)

text \<open>Every supported message, by its handle.\<close>

lemma store_event_cases:
  assumes "header_ok H" and "h < MAX_NUM_SENSORS" and "length buf = MSG_BUF_SIZE"
    and ty: "aic_type (decode_msg H buf) = type_list H ! h"
  shows "store_event H buf d = store_values (int h) (int (data_slot h)) (type_list H ! h)
     (length (aic_fdata (decode_msg H buf))) (aic_timestamp (decode_msg H buf)) buf d"
proof -
  have l32: "load32 buf 0 = ok (le_word (take 4 buf))" and l64: "load64 buf 8 = ok (aic_timestamp (decode_msg H buf))"
    using assms(3)
    by (simp_all add: load32_def load64_def decode_msg_def Let_def MSG_BUF_SIZE_def SIZEOF_AIC_EVENT_def)
  have t: "sint (le_word (take 4 buf) :: u32) = type_list H ! h"
    using ty by (simp add: decode_msg_def Let_def)
  have n: "length (aic_fdata (decode_msg H buf)) = nat (get_payload_len H (type_list H ! h) div sizeof_float)"
    using t by (simp add: decode_msg_def Let_def)
  have "distinct (type_list H)" and "distinct (rev (type_list H))" and base: "SENSORS_HANDLE_BASE H = 0"
    using assms(1) by (simp_all add: header_ok_def)
  then have d: "distinct (type_list H) \<and> distinct (rev (type_list H))" by simp
  show ?thesis
    unfolding store_event_def l32 l64 bindr_ok t n Let_def
    using assms(2) d
    by (elim type_list_cases)
      (simp_all add: base type_list_def ID_defs data_slot_def get_payload_len_def sizeof_float_def)
qed

lemma payload_fits:
  "SIZEOF_AIC_EVENT + 4 * length (aic_fdata (decode_msg H buf)) \<le> MSG_BUF_SIZE"
proof -
  have "get_payload_len H ty div sizeof_float \<le> 6" for ty
    using get_payload_len_cases [of H ty] by (auto simp: sizeof_float_def)
  then have "length (aic_fdata (decode_msg H buf)) \<le> 6" by (simp add: decode_msg_def Let_def nat_le_iff)
  then show ?thesis by (simp add: MSG_BUF_SIZE_def MAX_SENSOR_PAYLOAD_SIZE_def)
qed

lemma store_event_eq:
  assumes "header_ok H" and l: "length (m_sensors d) = MAX_NUM_SENSORS" and h: "h < MAX_NUM_SENSORS" and len: "length buf = MSG_BUF_SIZE"
    and m: "m = decode_msg H buf" "aic_type m = type_list H ! h"
  shows "store_event H buf d = ok (Some (2 ^ h), d\<lparr>m_sensors := stored h m (m_sensors d)\<rparr>)"
proof -
  have "h < 32" using h by (simp add: MAX_NUM_SENSORS_def)
  moreover have "aic_fdata m = words_at (drop SIZEOF_AIC_EVENT buf) (length (aic_fdata m))"
    by (simp add: m(1) decode_msg_def Let_def)
  ultimately show ?thesis
    using store_event_cases [OF assms(1) h len] store_values_eq [of h d "data_slot h" "length (aic_fdata m)" buf]
      payload_fits [of H buf] l h data_slot_less [OF h] len m
    by (simp add: stored_def Let_def)
qed

lemma store_event_unsupported:
  assumes "length buf = MSG_BUF_SIZE" and "aic_type (decode_msg H buf) \<notin> set (type_list H)"
  shows "store_event H buf d = ok (None, d)"
  using assms
  by (auto simp: store_event_def load32_def load64_def decode_msg_def Let_def type_list_def MSG_BUF_SIZE_def SIZEOF_AIC_EVENT_def)

section \<open>Time stamps\<close>

lemma bits_of_single: "h < 32 \<Longrightarrow> bits_of (2 ^ h) = {h}"
  by (auto simp: bits_of_def bit_one_shl)

lemma stamp_events_single:
  assumes "h < 32" and "h < length es"
  shows "stamp_events (2 ^ h) ts es = ok (es[h := (es ! h)\<lparr>ev_timestamp := ts\<rparr>])"
proof -
  have ne: "(2 ^ h :: u32) \<noteq> 0" using bits_of_single [OF assms(1)] by (metis bits_of_0 insert_not_empty)
  have i: "31 - clz32 (2 ^ h) = h" by (simp add: clz32_Max [OF ne] bits_of_single [OF assms(1)])
  show ?thesis
    using assms by (subst stamp_events.simps) (simp add: ne i arr_get_ok arr_set_ok stamp_events.simps)
qed

text \<open>The offset used for a message, and the time stamp its event gets.\<close>

definition offset_at :: "u64 \<Rightarrow> u64 \<Rightarrow> SensorDevice \<Rightarrow> u64" where
  "offset_at host remote d = (if m_time_start d = 0 then host - remote else m_time_offset d)"

definition stamp_at :: "u64 \<Rightarrow> u64 \<Rightarrow> SensorDevice \<Rightarrow> u64" where
  "stamp_at host remote d =
     (let r = remote + offset_at host remote d in if sint r > sint host then host else r)"

lemma stamp_not_future: "sint (stamp_at host remote d) \<le> sint host"
  by (simp add: stamp_at_def Let_def)

lemma stamp_first: "m_time_start d = 0 \<Longrightarrow> stamp_at host remote d = host"
  by (simp add: stamp_at_def offset_at_def)

section \<open>Taking in a message\<close>

definition intake :: "sensors_h \<Rightarrow> int \<times> int \<Rightarrow> nat \<Rightarrow> byte list \<Rightarrow> SensorDevice \<Rightarrow> SensorDevice" where
  "intake H clock h buf d =
     (let m = decode_msg H buf; host = now_ns clock; es = stored h m (m_sensors d) in
      d\<lparr>m_sensors := es[h := (es ! h)\<lparr>ev_timestamp := stamp_at host (aic_timestamp m) d\<rparr>],
        m_pending_sensors := m_pending_sensors d OR 2 ^ h,
        m_time_start := (if m_time_start d = 0 then host else m_time_start d),
        m_time_offset := offset_at host (aic_timestamp m) d,
        sensor_data_count := (sensor_data_count d)[h := sensor_data_count d ! h + 1],
        m_msg_mem_pool := m_msg_mem_pool d @ [buf]\<rparr>)"

lemma length_stored [simp]: "length (stored h m es) = length es"
  by (simp add: stored_def Let_def)

lemma process_msg_eq:
  assumes hdr: "header_ok H" and inv: "dev_inv H d" and h: "h < MAX_NUM_SENSORS" and len: "length buf = MSG_BUF_SIZE"
    and ty: "aic_type (decode_msg H buf) = type_list H ! h"
  shows "process_msg H clock buf d = ok (True, intake H clock h buf d)"
proof -
  have ne: "buf \<noteq> []" using len by (auto simp: MSG_BUF_SIZE_def SIZEOF_AIC_EVENT_def)
  have h32: "h < 32" using h by (simp add: MAX_NUM_SENSORS_def)
  then have nz: "(2 ^ h :: u32) \<noteq> 0" using bits_of_single by (metis bits_of_0 insert_not_empty)
  have l32: "load32 buf 0 = ok (le_word (take 4 buf))" and l64: "load64 buf 8 = ok (aic_timestamp (decode_msg H buf))"
    using len by (simp_all add: load32_def load64_def decode_msg_def Let_def MSG_BUF_SIZE_def SIZEOF_AIC_EVENT_def)
  have t: "sint (le_word (take 4 buf) :: u32) = type_list H ! h" using ty by (simp add: decode_msg_def Let_def)
  from inv have l: "length (m_sensors d) = MAX_NUM_SENSORS" "length (sensor_data_count d) = MAX_NUM_SENSORS" "m_log_trace_count d \<noteq> 0"
    by (simp_all add: dev_inv_def slots_ok_def)
  have se: "stamp_events (2 ^ h) ts (stored h m (m_sensors d))
     = ok ((stored h m (m_sensors d))[h := (stored h m (m_sensors d) ! h)\<lparr>ev_timestamp := ts\<rparr>])" for ts m
    using stamp_events_single h32 h l by simp
  show ?thesis
    using ne nz h l
    by (simp add: process_msg_def store_msg_def recycle_buffer_def store_event_eq [OF hdr l(1) h len refl ty] l32 l64 t count_event_def
        get_handle_nth [OF hdr h] arr_get_ok arr_set_ok stamp_new_def Let_def intake_def offset_at_def stamp_at_def se)
qed

lemma process_msg_unsupported:
  assumes "length buf = MSG_BUF_SIZE" and "aic_type (decode_msg H buf) \<notin> set (type_list H)"
  shows "process_msg H clock buf d = ok (False, d)"
  using store_event_unsupported [OF assms, of d] by (simp add: process_msg_def store_msg_def recycle_buffer_def)

text \<open>With a logging interval of 0 the first message of a supported type divides by it.\<close>

lemma process_msg_trace_zero:
  assumes hdr: "header_ok H" and l: "length (m_sensors d) = MAX_NUM_SENSORS" "length (sensor_data_count d) = MAX_NUM_SENSORS"
    and h: "h < MAX_NUM_SENSORS" and len: "length buf = MSG_BUF_SIZE"
    and ty: "aic_type (decode_msg H buf) = type_list H ! h" and zero: "m_log_trace_count d = 0"
  shows "process_msg H clock buf d = fault Div_By_Zero"
proof -
  have ne: "buf \<noteq> []" using len by (auto simp: MSG_BUF_SIZE_def SIZEOF_AIC_EVENT_def)
  have l32: "load32 buf 0 = ok (le_word (take 4 buf))"
    using len by (simp add: load32_def MSG_BUF_SIZE_def SIZEOF_AIC_EVENT_def)
  have t: "sint (le_word (take 4 buf) :: u32) = type_list H ! h" using ty by (simp add: decode_msg_def Let_def)
  show ?thesis
    using ne h l zero
    by (simp add: process_msg_def store_msg_def recycle_buffer_def store_event_eq [OF hdr l(1) h len refl ty] l32 t count_event_def
        get_handle_nth [OF hdr h] arr_get_ok arr_set_ok)
qed

section \<open>The invariant and the slots\<close>

text \<open>The slots after the intake, entry by entry.\<close>

lemma intake_nth:
  assumes "h < length (m_sensors d)" and "data_slot h < length (m_sensors d)" and "i < length (m_sensors d)"
  shows "m_sensors (intake H clock h buf d) ! i =
    (let m = decode_msg H buf; e = m_sensors d ! i;
         e = (if i = data_slot h then e\<lparr>ev_data := overlay (aic_fdata m) (ev_data e)\<rparr> else e) in
     if i = h then e\<lparr>ev_timestamp := stamp_at (now_ns clock) (aic_timestamp m) d, ev_type := aic_type m\<rparr> else e)"
  using assms by (auto simp: intake_def stored_def Let_def nth_list_update data_slot_def)

lemma intake_frame [simp]:
  "length (m_sensors (intake H clock h buf d)) = length (m_sensors d)"
  "m_flush_count (intake H clock h buf d) = m_flush_count d"
  "m_pending_sensors (intake H clock h buf d) = m_pending_sensors d OR 2 ^ h"
  "m_sensor_config_status (intake H clock h buf d) = m_sensor_config_status d"
  "m_sensor_msg_queue (intake H clock h buf d) = m_sensor_msg_queue d"
  "m_msg_mem_pool (intake H clock h buf d) = m_msg_mem_pool d @ [buf]"
  "length (sensor_data_count (intake H clock h buf d)) = length (sensor_data_count d)"
  "m_log_trace_count (intake H clock h buf d) = m_log_trace_count d"
  by (simp_all add: intake_def Let_def)

lemma fdata_small: "length (aic_fdata (decode_msg H buf)) \<le> EVENT_WORDS"
  using payload_fits [of H buf] by (simp add: MSG_BUF_SIZE_def MAX_SENSOR_PAYLOAD_SIZE_def EVENT_WORDS_def)

lemma intake_inv:
  assumes "header_ok H" and inv: "dev_inv H d" and h: "h < MAX_NUM_SENSORS" and len: "length buf = MSG_BUF_SIZE"
    and ty: "aic_type (decode_msg H buf) = type_list H ! h"
  shows "dev_inv H (intake H clock h buf d)"
proof -
  from inv have slots: "slots_ok H (m_pending_sensors d) (m_sensors d)" by (simp add: dev_inv_def)
  have l: "length (m_sensors d) = MAX_NUM_SENSORS" by (rule slots_ok_length [OF slots])
  have h32: "h < 32" using h by (simp add: MAX_NUM_SENSORS_def)
  have "type_list H ! h \<in> set (type_list H)" using h by simp
  then have meta: "type_list H ! h \<noteq> SENSOR_TYPE_META_DATA H" by (rule header_ok_type(3) [OF assms(1)])
  have ov: "length (overlay (aic_fdata (decode_msg H buf)) xs) = EVENT_WORDS" if "length xs = EVENT_WORDS" for xs :: "u32 list"
    using length_overlay [of "aic_fdata (decode_msg H buf)" xs] fdata_small [of H buf] that by simp
  let ?d = "intake H clock h buf d"
  have "bits_of (m_pending_sensors ?d) \<subseteq> {..<MAX_NUM_SENSORS}"
    using slots h h32 by (simp add: bits_of_set slots_ok_def)
  moreover have "length (ev_data (m_sensors ?d ! i)) = EVENT_WORDS \<and>
      (ev_type (m_sensors ?d ! i) = SENSOR_TYPE_META_DATA H \<longrightarrow> i \<in> bits_of (m_pending_sensors ?d)) \<and>
      (i \<in> bits_of (m_pending_sensors ?d) \<longrightarrow>
        ev_type (m_sensors ?d ! i) = SENSOR_TYPE_META_DATA H \<or> ev_type (m_sensors ?d ! i) = type_list H ! i)"
    if i: "i < MAX_NUM_SENSORS" for i
    using slots_ok_nth [OF slots i] i h l ty meta data_slot_less [OF h] h32
    by (auto simp: intake_nth Let_def bits_of_set ov)
  ultimately have "slots_ok H (m_pending_sensors ?d) (m_sensors ?d)"
    using l unfolding slots_ok_def by (simp del: intake_frame(3))
  then show ?thesis using inv len by (simp add: dev_inv_def bufs_ok_def)
qed

text \<open>The event a message leaves in its slot.\<close>

definition reading :: "int \<times> int \<Rightarrow> aic_sensors_event_t \<Rightarrow> u32 list \<Rightarrow> SensorDevice \<Rightarrow> sensors_event_t \<Rightarrow> sensors_event_t" where
  "reading clock m ws d e = e\<lparr>ev_timestamp := stamp_at (now_ns clock) (aic_timestamp m) d, ev_type := aic_type m, ev_data := ws\<rparr>"

lemma intake_slots:
  assumes "header_ok H" and inv: "dev_inv H d" and h: "h < MAX_NUM_SENSORS" and len: "length buf = MSG_BUF_SIZE"
    and m: "m = decode_msg H buf" "aic_type m = type_list H ! h" and "h \<noteq> 5"
  shows "slot_of H (intake H clock h buf d) =
    (slot_of H d)(h := Reading (reading clock m (overlay (aic_fdata m) (ev_data (m_sensors d ! h))) d (m_sensors d ! h)))"
proof
  fix i
  have l: "length (m_sensors d) = MAX_NUM_SENSORS" using inv by (simp add: dev_inv_def slots_ok_def)
  have sub: "bits_of (m_pending_sensors d) \<subseteq> {..<MAX_NUM_SENSORS}" using inv by (simp add: dev_inv_def slots_ok_def)
  have h32: "h < 32" using h by (simp add: MAX_NUM_SENSORS_def)
  have "type_list H ! h \<in> set (type_list H)" using h by simp
  then have meta: "type_list H ! h \<noteq> SENSOR_TYPE_META_DATA H" by (rule header_ok_type(3) [OF assms(1)])
  have g: "data_slot h = h" using \<open>h \<noteq> 5\<close> by (simp add: data_slot_def)
  show "slot_of H (intake H clock h buf d) i =
    ((slot_of H d)(h := Reading (reading clock m (overlay (aic_fdata m) (ev_data (m_sensors d ! h))) d (m_sensors d ! h)))) i"
  proof (cases "i \<in> bits_of (m_pending_sensors d) \<or> i = h")
    case True
    then have "i < length (m_sensors d)" using sub h l by auto
    with True h l h32 g m meta show ?thesis
      by (auto simp: slot_of_def bits_of_set intake_nth Let_def reading_def)
  next
    case False
    then show ?thesis using h32 by (simp add: slot_of_def bits_of_set)
  qed
qed

text \<open>
  For the uncalibrated magnetic field the values land in the slot of the calibrated one: the new
  event keeps its old values, and whatever the other slot held is overwritten.
\<close>

lemma intake_mag_uncalibrated:
  assumes inv: "dev_inv H d" and len: "length buf = MSG_BUF_SIZE" and m: "m = decode_msg H buf"
  shows "ev_data (m_sensors (intake H clock 5 buf d) ! 5) = ev_data (m_sensors d ! 5)"
    and "ev_data (m_sensors (intake H clock 5 buf d) ! 2) = overlay (aic_fdata m) (ev_data (m_sensors d ! 2))"
proof -
  have "length (m_sensors d) = 9" using inv by (simp add: dev_inv_def slots_ok_def MAX_NUM_SENSORS_def)
  then show "ev_data (m_sensors (intake H clock 5 buf d) ! 5) = ev_data (m_sensors d ! 5)"
    and "ev_data (m_sensors (intake H clock 5 buf d) ! 2) = overlay (aic_fdata m) (ev_data (m_sensors d ! 2))"
    by (simp_all add: intake_nth data_slot_def Let_def m)
qed

lemma process_msg_safe:
  assumes "header_ok H" and "dev_inv H d" and "length buf = MSG_BUF_SIZE"
  shows "\<exists>b d'. process_msg H clock buf d = ok (b, d') \<and> dev_inv H d' \<and> (if b then m_pending_sensors d' \<noteq> 0 else d' = d)"
proof (cases "aic_type (decode_msg H buf) \<in> set (type_list H)")
  case True
  then obtain h where h: "h < MAX_NUM_SENSORS" "aic_type (decode_msg H buf) = type_list H ! h"
    by (auto simp: in_set_conv_nth)
  have "h \<in> bits_of (m_pending_sensors d OR 2 ^ h)" using h(1) by (simp add: bits_of_set MAX_NUM_SENSORS_def)
  then have "m_pending_sensors d OR 2 ^ h \<noteq> 0" by (metis bits_of_0 empty_iff)
  with process_msg_eq [OF assms(1,2) h(1) assms(3) h(2)] intake_inv [OF assms(1,2) h(1) assms(3) h(2)] show ?thesis
    by auto
next
  case False
  with process_msg_unsupported [OF assms(3) False] assms(2) show ?thesis by auto
qed

text \<open>The same up to the return of the buffer.\<close>

lemma process_msg_split:
  assumes "process_msg H clock buf d = ok (got, d')"
  obtains d1 where "store_msg H clock buf d = ok (got, d1)" and "d' = (if got then recycle_buffer buf d1 else d1)"
  using assms by (auto simp: process_msg_def bindr_eq_ok)

lemma recycle_frame [simp]:
  "m_flush_count (recycle_buffer b d) = m_flush_count d" "m_pending_sensors (recycle_buffer b d) = m_pending_sensors d"
  "m_sensors (recycle_buffer b d) = m_sensors d" "m_sensor_config_status (recycle_buffer b d) = m_sensor_config_status d"
  "m_sensor_msg_queue (recycle_buffer b d) = m_sensor_msg_queue d" "m_msg_mem_pool (recycle_buffer b d) = m_msg_mem_pool d @ [b]"
  "sensor_data_count (recycle_buffer b d) = sensor_data_count d" "m_log_trace_count (recycle_buffer b d) = m_log_trace_count d"
  by (simp_all add: recycle_buffer_def)

lemma recycle_inv: "length b = MSG_BUF_SIZE \<Longrightarrow> dev_inv H (recycle_buffer b d) = dev_inv H d"
  by (auto simp: dev_inv_def bufs_ok_def)

lemma store_msg_eq:
  assumes "header_ok H" and "dev_inv H d" and "h < MAX_NUM_SENSORS" and "length buf = MSG_BUF_SIZE"
    and "aic_type (decode_msg H buf) = type_list H ! h"
  obtains d1 where "store_msg H clock buf d = ok (True, d1)" and "recycle_buffer buf d1 = intake H clock h buf d"
    and "dev_inv H d1" and "m_msg_mem_pool d1 = m_msg_mem_pool d" and "m_sensor_msg_queue d1 = m_sensor_msg_queue d"
    and "m_pending_sensors d1 = m_pending_sensors d OR 2 ^ h"
proof -
  from process_msg_eq [OF assms, of clock] obtain d1 where
    s: "store_msg H clock buf d = ok (True, d1)" and r: "recycle_buffer buf d1 = intake H clock h buf d"
    by (elim process_msg_split) auto
  from intake_inv [OF assms] have "dev_inv H d1" using recycle_inv [OF assms(4), of H d1] by (simp add: r)
  moreover have "m_msg_mem_pool d1 = m_msg_mem_pool d" "m_sensor_msg_queue d1 = m_sensor_msg_queue d"
    "m_pending_sensors d1 = m_pending_sensors d OR 2 ^ h"
    using arg_cong [OF r, of m_msg_mem_pool] arg_cong [OF r, of m_sensor_msg_queue] arg_cong [OF r, of m_pending_sensors]
    by simp_all
  ultimately show thesis using that s r by blast
qed

lemma store_msg_safe:
  assumes "header_ok H" and "dev_inv H d" and "length buf = MSG_BUF_SIZE"
  shows "\<exists>got d'. store_msg H clock buf d = ok (got, d') \<and> dev_inv H d' \<and> (got \<longrightarrow> m_pending_sensors d' \<noteq> 0) \<and>
     m_msg_mem_pool d' = m_msg_mem_pool d \<and> m_sensor_msg_queue d' = m_sensor_msg_queue d"
proof (cases "aic_type (decode_msg H buf) \<in> set (type_list H)")
  case True
  then obtain h where h: "h < MAX_NUM_SENSORS" "aic_type (decode_msg H buf) = type_list H ! h"
    by (auto simp: in_set_conv_nth)
  have "h \<in> bits_of (m_pending_sensors d OR 2 ^ h)" using h(1) by (simp add: bits_of_set MAX_NUM_SENSORS_def)
  then have "m_pending_sensors d OR 2 ^ h \<noteq> 0" by (metis bits_of_0 empty_iff)
  with store_msg_eq [OF assms(1,2) h(1) assms(3) h(2), of clock] show ?thesis by metis
next
  case False
  with process_msg_unsupported [OF assms(3) False, of clock d] assms(2) show ?thesis by (elim process_msg_split) auto
qed

end
