(* ===== verification/Sensor_Config.thy ===== *)
theory Sensor_Config
  imports Sensor_Messages
begin

text \<open>
  The configuration calls of the HAL: what \<open>sensor_device_activate\<close>, \<open>sensor_device_batch\<close> and
  \<open>sensor_device_set_delay\<close> store and send, what they return, and what a client gets when it connects.
\<close>

section \<open>The configuration message\<close>

definition decode_config :: "byte list \<Rightarrow> sensor_config_msg_t" where
  "decode_config bs = \<lparr>cfg_sensor_type = sint (le_word (take 4 bs) :: u32),
     cfg_enabled = sint (le_word (take 4 (drop 4 bs)) :: u32),
     cfg_sample_period = sint (le_word (take 4 (drop 8 bs)) :: u32)\<rparr>"

lemma sint_word_of_int32_range: "- (2 ^ 31) \<le> n \<Longrightarrow> n < 2 ^ 31 \<Longrightarrow> sint (word_of_int n :: u32) = n"
  by (simp add: sint_sbintrunc' signed_take_bit_int_eq_self)

definition config_ok :: "sensor_config_msg_t \<Rightarrow> bool" where
  "config_ok c \<longleftrightarrow> (\<forall>n \<in> {cfg_sensor_type c, cfg_enabled c, cfg_sample_period c}. - (2 ^ 31) \<le> n \<and> n < 2 ^ 31)"

lemma decode_config_bytes: "config_ok c \<Longrightarrow> decode_config (config_bytes c @ rest) = c"
  by (simp add: decode_config_def config_bytes_def config_ok_def sint_word_of_int32_range)

lemma period_ms_range: "- (2 ^ 31) \<le> period_ms ns" "period_ms ns < 2 ^ 31"
  using sint_ge [of "word_of_int (ns sdiv 1000000) :: u32"] sint_lt [of "word_of_int (ns sdiv 1000000) :: u32"]
  by (simp_all add: period_ms_def)

lemma period_ms_eq:
  assumes "0 \<le> ns" and "ns < 2 ^ 31 * 1000000"
  shows "period_ms ns = ns div 1000000"
proof -
  have "ns sdiv 1000000 = ns div 1000000" using assms by (cases "ns = 0") (simp_all add: signed_divide_int_def sgn_if)
  moreover have "0 \<le> ns div 1000000" "ns div 1000000 < 2 ^ 31" using assms by simp_all
  ultimately show ?thesis by (simp add: period_ms_def sint_word_of_int32_range)
qed

section \<open>The calls\<close>

text \<open>The stored configuration after a call for sensor \<open>h\<close>.\<close>

definition activated :: "sensors_h \<Rightarrow> nat \<Rightarrow> int \<Rightarrow> SensorDevice \<Rightarrow> sensor_config_msg_t" where
  "activated H h enabled d =
     (m_sensor_config_status d ! h)\<lparr>cfg_sensor_type := type_list H ! h, cfg_enabled := enabled\<rparr>"

definition batched :: "sensors_h \<Rightarrow> nat \<Rightarrow> int \<Rightarrow> sensor_config_msg_t" where
  "batched H h ns = \<lparr>cfg_sensor_type = type_list H ! h, cfg_enabled = 1, cfg_sample_period = period_ms ns\<rparr>"

definition with_config :: "nat \<Rightarrow> sensor_config_msg_t \<Rightarrow> SensorDevice \<Rightarrow> SensorDevice" where
  "with_config h c d = d\<lparr>m_sensor_config_status := (m_sensor_config_status d)[h := c]\<rparr>"

lemma with_config_inv: "dev_inv H d \<Longrightarrow> dev_inv H (with_config h c d)"
  by (simp add: with_config_def dev_inv_def)

lemma config_msg_short: "length (config_bytes c) < 2 ^ 31"
  by (simp add: SIZEOF_CONFIG_MSG_def)

lemma type_nonneg: "header_ok H \<Longrightarrow> h < MAX_NUM_SENSORS \<Longrightarrow> \<not> type_list H ! h < 0"
  using header_ok_type(1) [of H "type_list H ! h"] by simp

text \<open>After a send whose result is never negative the call returns 0.\<close>

lemma send_then_zero:
  assumes "table_inv ss" and "length cmd < 2 ^ 31"
  shows "bindr (sensor_device_send_config_msg ss cmd k) (\<lambda>(ret, k). ok (if ret < 0 then - errno k else 0, d, k))
       = bindr (config_outcome ss cmd k) (\<lambda>(_, k). ok (0, d, k))"
proof -
  have "0 \<le> r" if "config_outcome ss cmd k = ok (r, k')" for r k'
    using that send_result_nonneg by (auto simp: config_outcome_def split: option.splits)
  then show ?thesis
    unfolding send_config_eq [OF assms] bindr_def
    by (cases "config_outcome ss cmd k") (auto split: sum.splits)
qed

lemma activate_eq:
  assumes "header_ok H" and inv: "dev_inv H d" and tab: "table_inv ss" and h: "h < MAX_NUM_SENSORS"
  shows "sensor_device_activate H ss (int h) enabled d k =
    (let c = activated H h enabled d; d' = with_config h c d in
     if enabled = 0 then bindr (config_outcome ss (config_bytes c) k) (\<lambda>(_, k). ok (0, d', k)) else ok (0, d', k))"
proof -
  have "length (m_sensor_config_status d) = MAX_NUM_SENSORS" using inv by (simp add: dev_inv_def)
  with h show ?thesis
    by (simp add: sensor_device_activate_def get_type_int [OF assms(1) h] type_nonneg [OF assms(1) h] Let_def
        arr_get_ok arr_set_ok activated_def with_config_def send_then_zero [OF tab config_msg_short])
qed

lemma batch_eq:
  assumes "header_ok H" and inv: "dev_inv H d" and tab: "table_inv ss" and h: "h < MAX_NUM_SENSORS"
  shows "sensor_device_batch H ss (int h) ns d k =
    bindr (config_outcome ss (config_bytes (batched H h ns)) k) (\<lambda>(_, k). ok (0, with_config h (batched H h ns) d, k))"
proof -
  have "length (m_sensor_config_status d) = MAX_NUM_SENSORS" using inv by (simp add: dev_inv_def)
  with h show ?thesis
    by (cases "m_sensor_config_status d ! h")
      (simp add: sensor_device_batch_def get_type_int [OF assms(1) h] type_nonneg [OF assms(1) h] Let_def
        arr_get_ok arr_set_ok batched_def with_config_def send_then_zero [OF tab config_msg_short])
qed

lemma set_delay_batch: "sensor_device_set_delay H ss handle ns d k = sensor_device_batch H ss handle ns d k"
  by (simp add: sensor_device_set_delay_def sensor_device_batch_def)

lemma config_call_unknown:
  assumes "header_ok H" and "handle < 0 \<or> int MAX_NUM_SENSORS \<le> handle"
  shows "sensor_device_activate H ss handle enabled d k = ok (- EINVAL, d, k)"
    and "sensor_device_batch H ss handle ns d k = ok (- EINVAL, d, k)"
    and "sensor_device_set_delay H ss handle ns d k = ok (- EINVAL, d, k)"
proof -
  have "get_type_from_hanle H handle = - EINVAL" using get_type_nth [OF assms(1), of handle] assms(2) by auto
  then show "sensor_device_activate H ss handle enabled d k = ok (- EINVAL, d, k)"
    and "sensor_device_batch H ss handle ns d k = ok (- EINVAL, d, k)"
    and "sensor_device_set_delay H ss handle ns d k = ok (- EINVAL, d, k)"
    by (simp_all add: sensor_device_activate_def sensor_device_batch_def sensor_device_set_delay_def EINVAL_def)
qed

lemma batch_safe:
  assumes "header_ok H" and "dev_inv H d" and tab: "table_inv ss" and h: "h < MAX_NUM_SENSORS" and k: "fd_ok k"
  shows "safe_run (sensor_device_batch H ss (int h) ns d k)
    (\<lambda>(r, d', k'). r = 0 \<and> d' = with_config h (batched H h ns) d \<and> fd_ok k')"
  unfolding batch_eq [OF assms(1-4)] safe_run_bindr
  by (rule safe_run_mono [OF config_outcome_safe [OF tab k]]) auto

lemma activate_safe:
  assumes "header_ok H" and "dev_inv H d" and tab: "table_inv ss" and h: "h < MAX_NUM_SENSORS" and k: "fd_ok k"
  shows "safe_run (sensor_device_activate H ss (int h) enabled d k)
    (\<lambda>(r, d', k'). r = 0 \<and> d' = with_config h (activated H h enabled d) d \<and> fd_ok k')"
  unfolding activate_eq [OF assms(1-4)] Let_def
  using k by (auto simp: safe_run_bindr intro!: safe_run_mono [OF config_outcome_safe [OF tab k]])

text \<open>The sending loop ends after at most as many outcomes as it has bytes and retries.\<close>

lemma config_outcome_returns:
  assumes "table_inv ss" and "\<And>p fd. m_pclient ss = Some p \<Longrightarrow> client_fd ss p = Some fd \<Longrightarrow> length cmd + 7 \<le> length (outq k fd)"
  shows "\<exists>r k'. config_outcome ss cmd k = ok (r, k')"
proof (cases "m_pclient ss")
  case None
  then show ?thesis by (simp add: config_outcome_def)
next
  case (Some p)
  obtain fd where fd: "client_fd ss p = Some fd" using default_client_live [OF assms(1) Some] .
  have "\<exists>res. push (Some 5) (length cmd) (errno k) (outq k fd) = Some res"
    by (rule push_enough) (use assms(2) [OF Some fd] in simp)
  then show ?thesis using Some fd by (auto simp: config_outcome_def send_result_def)
qed

section \<open>What a connecting client receives\<close>

text \<open>A kernel that takes every message whole.\<close>

definition takes_all :: "nat \<Rightarrow> nat \<Rightarrow> send_out list \<Rightarrow> bool" where
  "takes_all n len outs \<longleftrightarrow> n \<le> length outs \<and> list_all (\<lambda>c. case c of Sent m \<Rightarrow> len \<le> m | SendErr e \<Rightarrow> False) (take n outs)"

lemma push_whole: "0 < n \<Longrightarrow> n \<le> m \<Longrightarrow> push bud n e (Sent m # r) = Some (n, e, r, 0)"
  by (cases n; cases m) auto

lemma config_outcome_whole:
  assumes "m_pclient ss = Some p" and "client_fd ss p = Some fd" and "takes_all (Suc n) SIZEOF_CONFIG_MSG (outq k fd)"
  obtains k' where "config_outcome ss (config_bytes c) k = ok (int SIZEOF_CONFIG_MSG, k')"
    and "sent k' fd = sent k fd @ config_bytes c" and "takes_all n SIZEOF_CONFIG_MSG (outq k' fd)"
proof -
  from assms(3) obtain m r where q: "outq k fd = Sent m # r" "SIZEOF_CONFIG_MSG \<le> m" and r: "takes_all n SIZEOF_CONFIG_MSG r"
    by (cases "outq k fd") (auto simp: takes_all_def split: send_out.splits)
  have "0 < SIZEOF_CONFIG_MSG" by (simp add: SIZEOF_CONFIG_MSG_def)
  with q(2) have "push (Some 5) SIZEOF_CONFIG_MSG (errno k) (outq k fd) = Some (SIZEOF_CONFIG_MSG, errno k, r, 0)"
    unfolding q(1) by (intro push_whole)
  then show thesis
    using assms(1,2) r
    by (intro that [of "k\<lparr>outq := (outq k)(fd := r), sent := (sent k)(fd := sent k fd @ config_bytes c)\<rparr>"])
      (simp_all add: config_outcome_def send_result_def)
qed

lemma send_all_configs_whole:
  assumes "table_inv ss" and p: "m_pclient ss = Some p" and fd: "client_fd ss p = Some fd"
    and "takes_all (length cs) SIZEOF_CONFIG_MSG (outq k fd)"
  shows "\<exists>k'. send_all_configs cs ss k = ok k' \<and> sent k' fd = sent k fd @ concat (map config_bytes cs)"
  using assms(4)
proof (induction cs arbitrary: k)
  case Nil
  then show ?case by simp
next
  case (Cons c cs)
  from Cons.prems have t: "takes_all (Suc (length cs)) SIZEOF_CONFIG_MSG (outq k fd)" by simp
  obtain k1 where k1: "config_outcome ss (config_bytes c) k = ok (int SIZEOF_CONFIG_MSG, k1)"
    "sent k1 fd = sent k fd @ config_bytes c" "takes_all (length cs) SIZEOF_CONFIG_MSG (outq k1 fd)"
    by (rule config_outcome_whole [OF p fd t])
  from Cons.IH [OF k1(3)] show ?case
    by (simp add: send_config_eq [OF assms(1) config_msg_short] k1)
qed

end
