(* ===== verification/Sensor_System.thy ===== *)
theory Sensor_System
  imports Sensor_Intake Sensor_Config
begin

text \<open>
  The running HAL: the framework's polling thread, the framework's other calls and the listener
  thread, interleaved. The polling call is cut where \<open>sensor_device_poll_event_locked\<close> gives up
  \<open>m_mutex\<close>; what happens between two such points is one step. A call of the framework and a round of
  the listener are one step each.
\<close>

section \<open>State and actions\<close>

text \<open>
  Where the polling thread is: outside the call; asleep because there is no client; about to lock
  the queue; waiting on the condition variable; holding a message and about to lock \<open>m_mutex\<close>.
  The number is the \<open>count\<close> argument of the call.
\<close>

datatype poll_pc = Idle | Sleeping int | Queueing int | Blocked int | Got int "byte list"

record hal =
  dev :: SensorDevice
  srv :: SockServer
  pc :: poll_pc

datatype action =
    Poll int
  | Wake_Sleep
  | Lock_Queue
  | Wake_Cv
  | Resume "int \<times> int"
  | Activate int int kern
  | Batch int int kern
  | Set_Delay int int kern
  | Flush int
  | Listen "u64 \<times> u64" kern

text \<open>What a step gives back to the framework: the return value, and the events of a poll.\<close>

type_synonym answer = "(int \<times> sensors_event_t list) option"

section \<open>The polling call\<close>

text \<open>The top of the receiving loop, with \<open>m_mutex\<close> held.\<close>

definition await :: "int \<Rightarrow> hal \<Rightarrow> hal" where
  "await count s = s\<lparr>pc := (if get_sock_client (srv s) = None then Sleeping count else Queueing count)\<rparr>"

text \<open>The reading loop and the return of the call.\<close>

definition finish_poll :: "sensors_h \<Rightarrow> int \<Rightarrow> hal \<Rightarrow> (hal \<times> answer) run" where
  "finish_poll H count s =
     bindr (pick_loop H (nat count) 0 [] (dev s)) (\<lambda>(result, evs, d).
     ok (s\<lparr>dev := d, pc := Idle\<rparr>, Some (result, evs)))"

definition begin_poll :: "sensors_h \<Rightarrow> int \<Rightarrow> hal \<Rightarrow> (hal \<times> answer) run" where
  "begin_poll H count s =
     (if count \<le> 0 then ok (s, Some (- EINVAL, []))
      else if m_pending_sensors (dev s) = 0 then ok (await count s, None)
      else finish_poll H count s)"

definition pop_queue :: "int \<Rightarrow> hal \<Rightarrow> (hal \<times> answer) run" where
  "pop_queue count s = (case m_sensor_msg_queue (dev s) of [] \<Rightarrow> fault Empty_Front
     | buf # q \<Rightarrow> ok (s\<lparr>dev := (dev s)\<lparr>m_sensor_msg_queue := q\<rparr>, pc := Got count buf\<rparr>, None))"

definition resume_poll :: "sensors_h \<Rightarrow> int \<times> int \<Rightarrow> int \<Rightarrow> byte list \<Rightarrow> hal \<Rightarrow> (hal \<times> answer) run" where
  "resume_poll H clock count buf s =
     bindr (process_msg H clock buf (dev s)) (\<lambda>(got, d).
     let s = s\<lparr>dev := d\<rparr> in
     if got then finish_poll H count s else ok (await count s, None))"

section \<open>Steps\<close>

definition config_step :: "(int \<times> SensorDevice \<times> kern) run \<Rightarrow> hal \<Rightarrow> (hal \<times> answer) run" where
  "config_step r s = bindr r (\<lambda>(ret, d, _). ok (s\<lparr>dev := d\<rparr>, Some (ret, [])))"

definition listen_round ::
  "sensors_h \<Rightarrow> u64 \<times> u64 \<Rightarrow> SockServer \<Rightarrow> SensorDevice \<Rightarrow> kern \<Rightarrow> (int \<times> SockServer \<times> SensorDevice \<times> kern) run" where
  "listen_round H junk ss d k =
     bindr (check_new_connection (hal_callbacks H junk) ss d k) (\<lambda>(_, ss, d, k).
     check_new_message (hal_callbacks H junk) ss d k)"

fun enabled :: "action \<Rightarrow> hal \<Rightarrow> bool" where
  "enabled (Poll n) s = (pc s = Idle)"
| "enabled Wake_Sleep s = (\<exists>n. pc s = Sleeping n)"
| "enabled Lock_Queue s = (\<exists>n. pc s = Queueing n)"
| "enabled Wake_Cv s = (\<exists>n. pc s = Blocked n)"
| "enabled (Resume c) s = (\<exists>n b. pc s = Got n b)"
| "enabled _ s = True"

text \<open>The effect of an action; an action that is not enabled changes nothing.\<close>

fun exec :: "sensors_h \<Rightarrow> action \<Rightarrow> hal \<Rightarrow> (hal \<times> answer) run" where
  "exec H (Poll n) s = (case pc s of Idle \<Rightarrow> begin_poll H n s | _ \<Rightarrow> ok (s, None))"
| "exec H Wake_Sleep s = (case pc s of Sleeping n \<Rightarrow> ok (await n s, None) | _ \<Rightarrow> ok (s, None))"
| "exec H Lock_Queue s = (case pc s of
       Queueing n \<Rightarrow> if m_sensor_msg_queue (dev s) = [] then ok (s\<lparr>pc := Blocked n\<rparr>, None) else pop_queue n s
     | _ \<Rightarrow> ok (s, None))"
| "exec H Wake_Cv s = (case pc s of Blocked n \<Rightarrow> pop_queue n s | _ \<Rightarrow> ok (s, None))"
| "exec H (Resume clock) s = (case pc s of Got n buf \<Rightarrow> resume_poll H clock n buf s | _ \<Rightarrow> ok (s, None))"
| "exec H (Activate h en k) s = config_step (sensor_device_activate H (srv s) h en (dev s) k) s"
| "exec H (Batch h ns k) s = config_step (sensor_device_batch H (srv s) h ns (dev s) k) s"
| "exec H (Set_Delay h ns k) s = config_step (sensor_device_set_delay H (srv s) h ns (dev s) k) s"
| "exec H (Flush h) s = bindr (sensor_device_flush H h (dev s)) (\<lambda>(r, d). ok (s\<lparr>dev := d\<rparr>, Some (r, [])))"
| "exec H (Listen junk k) s =
     bindr (listen_round H junk (srv s) (dev s) k) (\<lambda>(_, ss, d, _). ok (s\<lparr>srv := ss, dev := d\<rparr>, None))"

fun exec_all :: "sensors_h \<Rightarrow> action list \<Rightarrow> hal \<Rightarrow> (hal \<times> answer list) run" where
  "exec_all H [] s = ok (s, [])"
| "exec_all H (a # as) s =
     bindr (exec H a s) (\<lambda>(s, r). bindr (exec_all H as s) (\<lambda>(s, rs). ok (s, r # rs)))"

section \<open>The environment\<close>

text \<open>
  What the HAL takes for granted of its environment: the framework flushes sensors of the list only,
  the condition variable does not wake up without a message, there is room for one more client,
  and descriptors fit an \<open>fd_set\<close>.
\<close>

fun env_ok :: "action \<Rightarrow> hal \<Rightarrow> bool" where
  "env_ok Wake_Cv s = (m_sensor_msg_queue (dev s) \<noteq> [])"
| "env_ok (Flush h) s = (0 \<le> h \<and> h < int MAX_NUM_SENSORS)"
| "env_ok (Activate h en k) s = fd_ok k"
| "env_ok (Batch h ns k) s = fd_ok k"
| "env_ok (Set_Delay h ns k) s = fd_ok k"
| "env_ok (Listen junk k) s = (fd_ok k \<and> m_ncount (srv s) < int MAX_CLIENTS)"
| "env_ok _ s = True"

inductive step :: "sensors_h \<Rightarrow> hal \<Rightarrow> action \<Rightarrow> answer \<Rightarrow> hal \<Rightarrow> bool" for H where
  step: "enabled a s \<Longrightarrow> env_ok a s \<Longrightarrow> exec H a s = ok (s', r) \<Longrightarrow> step H s a r s'"

inductive_cases stepE: "step H s a r s'"

definition hal_init :: "sensors_h \<Rightarrow> sensors_event_t list \<Rightarrow> int option \<Rightarrow> SockServer \<Rightarrow> hal" where
  "hal_init H junk trace ss = \<lparr>dev = SensorDevice_new H junk trace, srv = ss, pc = Idle\<rparr>"

text \<open>The states the HAL gets into after its constructor has started the server.\<close>

inductive reachable :: "sensors_h \<Rightarrow> hal \<Rightarrow> bool" for H where
  init: "length junk = MAX_NUM_SENSORS \<Longrightarrow> \<forall>e \<in> set junk. length (ev_data e) = EVENT_WORDS \<Longrightarrow>
     trace \<noteq> Some 0 \<Longrightarrow> server_inv ss \<Longrightarrow> reachable H (hal_init H junk trace ss)"
| next_state: "reachable H s \<Longrightarrow> step H s a r s' \<Longrightarrow> reachable H s'"

section \<open>The invariant\<close>

fun pc_ok :: "poll_pc \<Rightarrow> bool" where
  "pc_ok Idle = True"
| "pc_ok (Sleeping n) = (0 < n)"
| "pc_ok (Queueing n) = (0 < n)"
| "pc_ok (Blocked n) = (0 < n)"
| "pc_ok (Got n b) = (0 < n \<and> length b = MSG_BUF_SIZE)"

definition hal_inv :: "sensors_h \<Rightarrow> hal \<Rightarrow> bool" where
  "hal_inv H s \<longleftrightarrow> dev_inv H (dev s) \<and> server_inv (srv s) \<and> pc_ok (pc s)"

text \<open>What the framework may be told by a step.\<close>

fun answer_ok :: "sensors_h \<Rightarrow> action \<Rightarrow> hal \<Rightarrow> answer \<Rightarrow> bool" where
  "answer_ok H a s None = True"
| "answer_ok H a s (Some (r, evs)) = (case a of
       Poll n \<Rightarrow> if n \<le> 0 then r = - EINVAL \<and> evs = []
                 else 1 \<le> r \<and> r \<le> n \<and> r = int (length evs) \<and> list_all (event_ok H) evs
     | Resume c \<Rightarrow> (\<forall>n b. pc s = Got n b \<longrightarrow>
                 1 \<le> r \<and> r \<le> n \<and> r = int (length evs) \<and> list_all (event_ok H) evs)
     | Activate h en k \<Rightarrow> r = (if 0 \<le> h \<and> h < int MAX_NUM_SENSORS then 0 else - EINVAL)
     | Batch h ns k \<Rightarrow> r = (if 0 \<le> h \<and> h < int MAX_NUM_SENSORS then 0 else - EINVAL)
     | Set_Delay h ns k \<Rightarrow> r = (if 0 \<le> h \<and> h < int MAX_NUM_SENSORS then 0 else - EINVAL)
     | Flush h \<Rightarrow> r = 0
     | _ \<Rightarrow> False)"

lemma await_inv: "dev_inv H (dev s) \<Longrightarrow> server_inv (srv s) \<Longrightarrow> 0 < n \<Longrightarrow> hal_inv H (await n s)"
  by (simp add: await_def hal_inv_def)

lemma finish_poll_ok:
  assumes "header_ok H" and inv: "dev_inv H (dev s)" "server_inv (srv s)" and n: "0 < n"
    and pend: "m_pending_sensors (dev s) \<noteq> 0"
  shows "\<exists>s' r evs. finish_poll H n s = ok (s', Some (r, evs)) \<and> hal_inv H s' \<and> pc s' = Idle \<and>
     1 \<le> r \<and> r \<le> n \<and> r = int (length evs) \<and> list_all (event_ok H) evs \<and>
     notices H (dev s) = notices H (dev s') + length (filter (is_notice H) evs)"
proof -
  from pick_loop_spec [OF assms(1) inv(1), of "nat n" 0 "[]"] obtain out d' where
    o: "pick_loop H (nat n) 0 [] (dev s) = ok (int (length out), out, d')" "dev_inv H d'"
      "length out = min (nat n) (outstanding H (dev s))" "list_all (event_ok H) out"
      "notices H (dev s) = notices H d' + length (filter (is_notice H) out)" by auto
  have "0 < outstanding H (dev s)" using outstanding_pos [OF inv(1)] pend by simp
  with n o(3) have "1 \<le> int (length out)" "int (length out) \<le> n" by auto
  with o inv(2) show ?thesis by (simp add: finish_poll_def hal_inv_def)
qed

text \<open>Every kind of step keeps the invariant and answers as it should.\<close>

abbreviation good_step :: "sensors_h \<Rightarrow> action \<Rightarrow> hal \<Rightarrow> hal \<times> answer \<Rightarrow> bool" where
  "good_step H a s \<equiv> \<lambda>(s', r). hal_inv H s' \<and> answer_ok H a s r"

lemma poll_good:
  assumes "header_ok H" and inv: "hal_inv H s"
  shows "safe_run (exec H (Poll n) s) (good_step H (Poll n) s)"
proof (cases "pc s = Idle \<and> 0 < n")
  case True
  from inv have d: "dev_inv H (dev s)" "server_inv (srv s)" by (simp_all add: hal_inv_def)
  show ?thesis
  proof (cases "m_pending_sensors (dev s) = 0")
    case pend: True
    with True await_inv [OF d] show ?thesis by (simp add: begin_poll_def)
  next
    case False
    with True finish_poll_ok [OF assms(1) d _ False, of n] show ?thesis by (auto simp: begin_poll_def)
  qed
next
  case False
  with inv show ?thesis by (auto simp: begin_poll_def split: poll_pc.splits)
qed

lemma pop_queue_good:
  assumes inv: "hal_inv H s" and "m_sensor_msg_queue (dev s) \<noteq> []" and "0 < n"
  shows "safe_run (pop_queue n s) (\<lambda>(s', r). hal_inv H s' \<and> r = None)"
  using assms by (cases "m_sensor_msg_queue (dev s)") (auto simp: pop_queue_def hal_inv_def dev_inv_def bufs_ok_def)

lemma queue_good:
  assumes "hal_inv H s"
  shows "safe_run (exec H Lock_Queue s) (good_step H Lock_Queue s)"
    and "env_ok Wake_Cv s \<Longrightarrow> safe_run (exec H Wake_Cv s) (good_step H Wake_Cv s)"
    and "safe_run (exec H Wake_Sleep s) (good_step H Wake_Sleep s)"
proof -
  have p: "0 < n" if "pc s = Queueing n \<or> pc s = Blocked n \<or> pc s = Sleeping n" for n
    using that assms by (auto simp: hal_inv_def)
  show "safe_run (exec H Lock_Queue s) (good_step H Lock_Queue s)"
    using assms p by (auto simp: hal_inv_def split: poll_pc.splits intro!: safe_run_mono [OF pop_queue_good [OF assms]])
  show "env_ok Wake_Cv s \<Longrightarrow> safe_run (exec H Wake_Cv s) (good_step H Wake_Cv s)"
    using assms p by (auto split: poll_pc.splits intro!: safe_run_mono [OF pop_queue_good [OF assms]])
  show "safe_run (exec H Wake_Sleep s) (good_step H Wake_Sleep s)"
    using assms p by (auto simp: hal_inv_def split: poll_pc.splits dest: await_inv)
qed

lemma resume_good:
  assumes "header_ok H" and inv: "hal_inv H s"
  shows "safe_run (exec H (Resume c) s) (good_step H (Resume c) s)"
proof (cases "\<exists>n b. pc s = Got n b")
  case True
  then obtain n b where pc: "pc s = Got n b" by blast
  from inv pc have d: "dev_inv H (dev s)" "server_inv (srv s)" and n: "0 < n" and b: "length b = MSG_BUF_SIZE"
    by (simp_all add: hal_inv_def)
  from process_msg_safe [OF assms(1) d(1) b, of c] obtain got d' where
    p: "process_msg H c b (dev s) = ok (got, d')" "dev_inv H d'" "got \<Longrightarrow> m_pending_sensors d' \<noteq> 0" by (metis (full_types))
  show ?thesis
  proof (cases got)
    case True
    with finish_poll_ok [OF assms(1), of "s\<lparr>dev := d'\<rparr>" n] p d(2) n pc show ?thesis
      by (auto simp: resume_poll_def)
  next
    case False
    with await_inv [of H "s\<lparr>dev := d'\<rparr>" n] p d(2) n pc show ?thesis by (simp add: resume_poll_def)
  qed
next
  case False
  with inv show ?thesis by (auto split: poll_pc.splits)
qed

lemma handle_cases:
  assumes "0 \<le> (h :: int) \<and> h < int MAX_NUM_SENSORS"
  obtains i where "h = int i" and "i < MAX_NUM_SENSORS"
  using assms by (metis nonneg_int_cases of_nat_less_iff)

lemma config_good:
  assumes "header_ok H" and inv: "hal_inv H s" and k: "fd_ok k"
  shows "safe_run (exec H (Activate h en k) s) (good_step H (Activate h en k) s)"
    and "safe_run (exec H (Batch h ns k) s) (good_step H (Batch h ns k) s)"
    and "safe_run (exec H (Set_Delay h ns k) s) (good_step H (Set_Delay h ns k) s)"
proof -
  from inv have d: "dev_inv H (dev s)" and srv: "server_inv (srv s)" "table_inv (srv s)" and pc: "pc_ok (pc s)"
    by (simp_all add: hal_inv_def server_inv_def)
  have keep: "hal_inv H (s\<lparr>dev := with_config i c (dev s)\<rparr>)" for i c
    using with_config_inv [OF d] srv pc by (simp add: hal_inv_def)
  have same: "hal_inv H (s\<lparr>dev := dev s\<rparr>)" using inv by simp
  show act: "safe_run (exec H (Activate h en k) s) (good_step H (Activate h en k) s)"
  proof (cases "0 \<le> h \<and> h < int MAX_NUM_SENSORS")
    case True
    then obtain i where i: "h = int i" "i < MAX_NUM_SENSORS" by (rule handle_cases)
    with keep show ?thesis
      by (auto simp: config_step_def safe_run_bindr intro!: safe_run_mono [OF activate_safe [OF assms(1) d srv(2) i(2) k]])
  next
    case False
    with config_call_unknown(1) [OF assms(1), of h] same show ?thesis by (auto simp: config_step_def)
  qed
  show bat: "safe_run (exec H (Batch h ns k) s) (good_step H (Batch h ns k) s)"
  proof (cases "0 \<le> h \<and> h < int MAX_NUM_SENSORS")
    case True
    then obtain i where i: "h = int i" "i < MAX_NUM_SENSORS" by (rule handle_cases)
    with keep show ?thesis
      by (auto simp: config_step_def safe_run_bindr intro!: safe_run_mono [OF batch_safe [OF assms(1) d srv(2) i(2) k]])
  next
    case False
    with config_call_unknown(2) [OF assms(1), of h] same show ?thesis by (auto simp: config_step_def)
  qed
  have "answer_ok H (Set_Delay h ns k) s r = answer_ok H (Batch h ns k) s r" for r by (cases r) auto
  with bat show "safe_run (exec H (Set_Delay h ns k) s) (good_step H (Set_Delay h ns k) s)"
    by (simp add: set_delay_batch)
qed

lemma flush_good:
  assumes inv: "hal_inv H s" and "env_ok (Flush h) s"
  shows "safe_run (exec H (Flush h) s) (good_step H (Flush h) s)"
proof -
  from assms(2) have "0 \<le> h \<and> h < int MAX_NUM_SENSORS" by simp
  then obtain i where i: "h = int i" "i < MAX_NUM_SENSORS" by (rule handle_cases)
  from inv have d: "dev_inv H (dev s)" by (simp add: hal_inv_def)
  from flush_eq [OF d i(2)] obtain d' where "sensor_device_flush H (int i) (dev s) = ok (0, d')" by auto
  with flush_inv [OF d i(2) this] inv i show ?thesis by (simp add: hal_inv_def)
qed

lemma listen_round_safe:
  assumes "server_inv ss" and "m_ncount ss < int MAX_CLIENTS" and "dev_inv H d" and "fd_ok k"
  shows "safe_run (listen_round H junk ss d k) (\<lambda>(n, ss', d', k'). server_inv ss' \<and> dev_inv H d' \<and> fd_ok k')"
  unfolding listen_round_def using assms by (rule hal.listener_round_safe)

lemma listen_good:
  assumes inv: "hal_inv H s" and env: "env_ok (Listen junk k) s"
  shows "safe_run (exec H (Listen junk k) s) (good_step H (Listen junk k) s)"
proof -
  from assms have "safe_run (listen_round H junk (srv s) (dev s) k)
      (\<lambda>(n, ss', d', k'). server_inv ss' \<and> dev_inv H d' \<and> fd_ok k')"
    by (intro listen_round_safe) (simp_all add: hal_inv_def)
  then show ?thesis
    unfolding exec.simps safe_run_bindr
    by (rule safe_run_mono) (use inv in \<open>auto simp: hal_inv_def\<close>)
qed

lemma exec_good:
  assumes "header_ok H" and "hal_inv H s" and "env_ok a s"
  shows "safe_run (exec H a s) (good_step H a s)"
proof (cases a)
  case (Poll n)
  with poll_good [OF assms(1,2)] show ?thesis by (simp only:)
next
  case Wake_Sleep
  with queue_good(3) [OF assms(2)] show ?thesis by (simp only:)
next
  case Lock_Queue
  with queue_good(1) [OF assms(2)] show ?thesis by (simp only:)
next
  case Wake_Cv
  with queue_good(2) [OF assms(2)] assms(3) show ?thesis by (simp only:)
next
  case (Resume c)
  with resume_good [OF assms(1,2)] show ?thesis by (simp only:)
next
  case (Activate h en k)
  with config_good(1) [OF assms(1,2)] assms(3) show ?thesis by (simp only: env_ok.simps)
next
  case (Batch h ns k)
  with config_good(2) [OF assms(1,2)] assms(3) show ?thesis by (simp only: env_ok.simps)
next
  case (Set_Delay h ns k)
  with config_good(3) [OF assms(1,2)] assms(3) show ?thesis by (simp only: env_ok.simps)
next
  case (Flush h)
  with flush_good [OF assms(2)] assms(3) show ?thesis by (simp only:)
next
  case (Listen junk k)
  with listen_good [OF assms(2)] assms(3) show ?thesis by (simp only:)
qed

lemma hal_inv_init:
  assumes "length junk = MAX_NUM_SENSORS" and "\<forall>e \<in> set junk. length (ev_data e) = EVENT_WORDS" and "trace \<noteq> Some 0"
    and "server_inv ss"
  shows "hal_inv H (hal_init H junk trace ss)"
  using dev_inv_new [OF assms(1-3)] assms(4) by (simp add: hal_inv_def hal_init_def)

lemma reachable_inv:
  assumes "header_ok H" and "reachable H s"
  shows "hal_inv H s"
  using assms(2)
proof induction
  case (init junk trace ss)
  then show ?case by (intro hal_inv_init)
next
  case (next_state s a r s')
  from next_state.hyps(2) have "env_ok a s" "exec H a s = ok (s', r)" by (auto elim: stepE)
  with exec_good [OF assms(1) next_state.IH, of a] show ?case by simp
qed

end
