(* ===== verification/Hal_Module.thy ===== *)
theory Hal_Module
  imports Complex_Main Sensor_System
begin

text \<open>
  The module the platform loads: the list of sensors, the opening of the device with the properties
  it reads, and the closing. The flags and the device name of the platform header are a parameter like the types;
  floating-point members of the list are the decimal values written in the source, and the members
  that are zero in every entry (the fifo counts and the permission) are left out.
\<close>

section \<open>The sensor list\<close>

record module_h =
  SENSOR_FLAG_CONTINUOUS_MODE :: int
  SENSOR_FLAG_ON_CHANGE_MODE :: int
  SENSOR_FLAG_WAKE_UP :: int
  SENSORS_HARDWARE_POLL :: string
  SENSORS_HARDWARE_MODULE_ID :: string
  HARDWARE_MODULE_TAG :: int

record sensor_t =
  s_name :: string
  s_vendor :: string
  s_version :: int
  s_handle :: int
  s_type :: int
  s_maxRange :: rat
  s_resolution :: rat
  s_power :: rat
  s_minDelay :: int
  s_maxDelay :: int
  s_stringType :: string
  s_flags :: int

definition sSensorListInit :: "sensors_h \<Rightarrow> module_h \<Rightarrow> sensor_t list" where
  "sSensorListInit H F =
    [\<lparr>s_name = ''AIC 3-axis Accelerometer'', s_vendor = ''Intel ACGSS'', s_version = 1,
      s_handle = ID_ACCELEROMETER H, s_type = SENSOR_TYPE_ACCELEROMETER H,
      s_maxRange = 28 / 10, s_resolution = 1 / 4032, s_power = 3, s_minDelay = 10000, s_maxDelay = 500 * 1000,
      s_stringType = ''android.sensor.accelerometer'', s_flags = SENSOR_FLAG_CONTINUOUS_MODE F\<rparr>,
     \<lparr>s_name = ''AIC 3-axis Gyroscope'', s_vendor = ''Intel ACGSS'', s_version = 1,
      s_handle = ID_GYROSCOPE H, s_type = SENSOR_TYPE_GYROSCOPE H,
      s_maxRange = 111111111 / 10000000, s_resolution = 1 / 1000, s_power = 3, s_minDelay = 10000, s_maxDelay = 500 * 1000,
      s_stringType = ''android.sensor.gyroscope'', s_flags = 0\<rparr>,
     \<lparr>s_name = ''AIC 3-axis Magnetic field sensor'', s_vendor = ''Intel ACGSS'', s_version = 1,
      s_handle = ID_MAGNETIC_FIELD H, s_type = SENSOR_TYPE_MAGNETIC_FIELD H,
      s_maxRange = 2000, s_resolution = 1, s_power = 67 / 10, s_minDelay = 10000, s_maxDelay = 500 * 1000,
      s_stringType = ''android.sensor.magnetic_field'', s_flags = SENSOR_FLAG_CONTINUOUS_MODE F\<rparr>,
     \<lparr>s_name = ''AIC 3-axis uncalibrated accelerometer '', s_vendor = ''Intel ACGSS'', s_version = 1,
      s_handle = ID_ACCELEROMETER_UNCALIBRATED H, s_type = SENSOR_TYPE_ACCELEROMETER_UNCALIBRATED H,
      s_maxRange = 28 / 10, s_resolution = 1 / 4032, s_power = 3, s_minDelay = 10000, s_maxDelay = 500 * 1000,
      s_stringType = ''android.sensor.accelerometer_uncalibrated'', s_flags = SENSOR_FLAG_CONTINUOUS_MODE F\<rparr>,
     \<lparr>s_name = ''AIC 3-axis uncalibrated gyroscope'', s_vendor = ''Intel ACGSS'', s_version = 1,
      s_handle = ID_GYROSCOPE_UNCALIBRATED H, s_type = SENSOR_TYPE_GYROSCOPE_UNCALIBRATED H,
      s_maxRange = 111111111 / 10000000, s_resolution = 1 / 1000, s_power = 3, s_minDelay = 10000, s_maxDelay = 500 * 1000,
      s_stringType = ''android.sensor.gyroscope_uncalibrated'', s_flags = 0\<rparr>,
     \<lparr>s_name = ''AIC 3-axis Magnetic field uncalibrated sensor'', s_vendor = ''Intel ACGSS'', s_version = 1,
      s_handle = ID_MAGNETIC_FIELD_UNCALIBRATED H, s_type = SENSOR_TYPE_MAGNETIC_FIELD_UNCALIBRATED H,
      s_maxRange = 2000, s_resolution = 1, s_power = 67 / 10, s_minDelay = 10000, s_maxDelay = 500 * 1000,
      s_stringType = ''android.sensor.magnetic_field_uncalibrated'', s_flags = SENSOR_FLAG_CONTINUOUS_MODE F\<rparr>,
     \<lparr>s_name = ''AIC Light sensor'', s_vendor = ''ACGSS'', s_version = 1,
      s_handle = ID_LIGHT H, s_type = SENSOR_TYPE_LIGHT H,
      s_maxRange = 40000, s_resolution = 1, s_power = 20, s_minDelay = 10000, s_maxDelay = 500 * 1000,
      s_stringType = ''android.sensor.light'', s_flags = SENSOR_FLAG_ON_CHANGE_MODE F\<rparr>,
     \<lparr>s_name = ''AIC Ambient Temperature sensor'', s_vendor = ''ACGSS'', s_version = 1,
      s_handle = ID_TEMPERATURE H, s_type = SENSOR_TYPE_AMBIENT_TEMPERATURE H,
      s_maxRange = 80, s_resolution = 1, s_power = 0, s_minDelay = 10000, s_maxDelay = 500 * 1000,
      s_stringType = ''android.sensor.ambient_temperature'', s_flags = SENSOR_FLAG_ON_CHANGE_MODE F\<rparr>,
     \<lparr>s_name = ''AIC Proximity sensor'', s_vendor = ''ACGSS'', s_version = 1,
      s_handle = ID_PROXIMITY H, s_type = SENSOR_TYPE_PROXIMITY H,
      s_maxRange = 1, s_resolution = 1, s_power = 20, s_minDelay = 10000, s_maxDelay = 500 * 1000,
      s_stringType = ''android.sensor.proximity'', s_flags = SENSOR_FLAG_WAKE_UP F OR SENSOR_FLAG_ON_CHANGE_MODE F\<rparr>]"

definition get_sensors_list :: "sensors_h \<Rightarrow> module_h \<Rightarrow> int \<times> sensor_t list" where
  "get_sensors_list H F = (int MAX_NUM_SENSORS, sSensorListInit H F)"

section \<open>Properties and the constructor\<close>

fun is_digit :: "char \<Rightarrow> bool" where
  "is_digit c = (of_char c \<ge> (48 :: nat) \<and> of_char c \<le> (57 :: nat))"

fun digits_value :: "int \<Rightarrow> string \<Rightarrow> int" where
  "digits_value acc [] = acc"
| "digits_value acc (c # cs) = (if is_digit c then digits_value (acc * 10 + (of_char c - 48)) cs else acc)"

text \<open>
  \<open>atoi\<close>: optional blanks, an optional sign, then digits; 0 when there are none. (For values that do
  not fit an \<open>int\<close> the C function is undefined; the properties below use none.)
\<close>

definition is_blank :: "char \<Rightarrow> bool" where
  "is_blank c \<longleftrightarrow> c = CHR '' '' \<or> of_char c \<in> {9 .. 13 :: nat}"

definition atoi :: "string \<Rightarrow> int" where
  "atoi s = (case dropWhile is_blank s of
       [] \<Rightarrow> 0
     | c # cs \<Rightarrow> if c = CHR ''-'' then - digits_value 0 cs else if c = CHR ''+'' then digits_value 0 cs
                else digits_value 0 (c # cs))"

record props =
  prop_port :: string
  prop_sock_type :: string
  prop_log_trace :: string
  prop_container_id :: string
  env_k8s :: "string option"

definition SENSOR_VHAL_PORT :: int where "SENSOR_VHAL_PORT = 8772"

text \<open>The values of the Android Open Source Project, used by the witnesses.\<close>

definition aosp_module_h :: module_h where
  "aosp_module_h = \<lparr>SENSOR_FLAG_CONTINUOUS_MODE = 0, SENSOR_FLAG_ON_CHANGE_MODE = 2, SENSOR_FLAG_WAKE_UP = 1,
     SENSORS_HARDWARE_POLL = ''poll'', SENSORS_HARDWARE_MODULE_ID = ''sensors'', HARDWARE_MODULE_TAG = 0x48574D54\<rparr>"

text \<open>A property that is not set reads as the empty string.\<close>

definition read_trace :: "props \<Rightarrow> int option" where
  "read_trace ps = (if prop_log_trace ps = [] then None else Some (atoi (prop_log_trace ps)))"

definition read_port :: "props \<Rightarrow> int" where
  "read_port ps = (if prop_port ps = [] then SENSOR_VHAL_PORT else atoi (prop_port ps))"

definition read_sock_type :: "props \<Rightarrow> int" where
  "read_sock_type ps = (if prop_sock_type ps = ''INET'' then SOCK_CONN_TYPE_INET_SOCK else SOCK_CONN_TYPE_UNIX_SOCK)"

text \<open>
  The constructor as a whole; the result of \<open>start\<close> is not looked at. \<open>junk\<close> is what the memory of
  the event slots held, \<open>hp\<close> the heap.
\<close>

definition SensorDevice_construct ::
  "sensors_h \<Rightarrow> props \<Rightarrow> sensors_event_t list \<Rightarrow> pheap \<Rightarrow> kern \<Rightarrow> (hal \<times> kern) run" where
  "SensorDevice_construct H ps junk hp k =
     bindr (SockServer_start (prop_container_id ps) (env_k8s ps) (SockServer_new (read_port ps) (read_sock_type ps) hp) k)
       (\<lambda>(_, ss, k). ok (hal_init H junk (read_trace ps) ss, k))"

definition open_sensors ::
  "sensors_h \<Rightarrow> module_h \<Rightarrow> props \<Rightarrow> sensors_event_t list \<Rightarrow> pheap \<Rightarrow> string \<Rightarrow> kern
     \<Rightarrow> (int \<times> hal option \<times> kern) run" where
  "open_sensors H F ps junk hp name k =
     (if name = SENSORS_HARDWARE_POLL F then
        bindr (SensorDevice_construct H ps junk hp k) (\<lambda>(s, k). ok (0, Some s, k))
      else ok (- EINVAL, None, k))"

text \<open>\<open>sensor_close\<close> deletes the device, whose destructor deletes the server.\<close>

definition SensorDevice_delete :: "hal \<Rightarrow> kern \<Rightarrow> (hal \<times> kern) run" where
  "SensorDevice_delete s k = bindr (SockServer_delete (srv s) k) (\<lambda>(ss, k). ok (s\<lparr>srv := ss\<rparr>, k))"

definition sensor_close :: "hal \<Rightarrow> kern \<Rightarrow> (int \<times> kern) run" where
  "sensor_close s k = bindr (SensorDevice_delete s k) (\<lambda>(_, k). ok (0, k))"

text \<open>The table through which the platform finds all this.\<close>

record sensors_module_t =
  tag :: int
  version_major :: int
  version_minor :: int
  mod_id :: string
  mod_name :: string
  author :: string
  open_method :: "props \<Rightarrow> sensors_event_t list \<Rightarrow> pheap \<Rightarrow> string \<Rightarrow> kern \<Rightarrow> (int \<times> hal option \<times> kern) run"
  list_method :: "int \<times> sensor_t list"

definition HAL_MODULE_INFO_SYM :: "sensors_h \<Rightarrow> module_h \<Rightarrow> sensors_module_t" where
  "HAL_MODULE_INFO_SYM H F =
     \<lparr>tag = HARDWARE_MODULE_TAG F, version_major = 1, version_minor = 3, mod_id = SENSORS_HARDWARE_MODULE_ID F,
      mod_name = ''AIC SENSORS Module'', author = ''Intel ACGSS'',
      open_method = open_sensors H F, list_method = get_sensors_list H F\<rparr>"

section \<open>The list agrees with the lookups\<close>

definition listed :: "sensors_h \<Rightarrow> (int \<times> int) list" where
  "listed H = [(0, type_list H ! 0), (1, type_list H ! 1), (2, type_list H ! 2), (3, type_list H ! 3),
     (4, type_list H ! 4), (5, type_list H ! 5), (6, type_list H ! 6), (8, type_list H ! 8), (7, type_list H ! 7)]"

lemma sensor_list_listed:
  assumes "header_ok H"
  shows "map (\<lambda>e. (s_handle e, s_type e)) (sSensorListInit H F) = listed H"
proof -
  have "SENSORS_HANDLE_BASE H = 0" using assms by (simp add: header_ok_def)
  then show ?thesis by (simp add: sSensorListInit_def listed_def ID_defs type_list_def)
qed

lemma sensor_list_delays: "list_all (\<lambda>e. 0 < s_minDelay e \<and> s_minDelay e \<le> s_maxDelay e) (sSensorListInit H F)"
  by (simp add: sSensorListInit_def)

lemma sensor_list_lookup:
  assumes "header_ok H" and "e \<in> set (sSensorListInit H F)"
  shows "get_type_from_hanle H (s_handle e) = s_type e" and "get_handle_from_type H (s_type e) = s_handle e"
    and "0 < s_minDelay e" and "s_minDelay e \<le> s_maxDelay e"
proof -
  have "(s_handle e, s_type e) \<in> set (listed H)"
    using assms(2) sensor_list_listed [OF assms(1), of F] by (metis (mono_tags, lifting) image_eqI list.set_map)
  then obtain h where "h < MAX_NUM_SENSORS" "s_handle e = int h" "s_type e = type_list H ! h"
    unfolding listed_def by (auto simp: MAX_NUM_SENSORS_def)
  then show "get_type_from_hanle H (s_handle e) = s_type e" and "get_handle_from_type H (s_type e) = s_handle e"
    using get_type_int [OF assms(1)] get_handle_nth [OF assms(1)] by simp_all
  show "0 < s_minDelay e" and "s_minDelay e \<le> s_maxDelay e"
    using sensor_list_delays [of H F] assms(2) by (auto simp: list_all_iff)
qed

lemma sensor_list_handles:
  assumes "header_ok H"
  shows "distinct (map s_handle (sSensorListInit H F))" and "length (sSensorListInit H F) = MAX_NUM_SENSORS"
    and "h < MAX_NUM_SENSORS \<Longrightarrow> int h \<in> set (map s_handle (sSensorListInit H F))"
proof -
  have m: "map s_handle (sSensorListInit H F) = map fst (listed H)"
    using arg_cong [OF sensor_list_listed [OF assms, of F], of "map fst"] by (simp add: comp_def)
  show "distinct (map s_handle (sSensorListInit H F))" unfolding m by (simp add: listed_def)
  show "length (sSensorListInit H F) = MAX_NUM_SENSORS"
    using arg_cong [OF m, of length] by (simp add: listed_def MAX_NUM_SENSORS_def)
  show "h < MAX_NUM_SENSORS \<Longrightarrow> int h \<in> set (map s_handle (sSensorListInit H F))"
    unfolding m by (erule type_list_cases) (simp_all add: listed_def)
qed

section \<open>Opening\<close>

lemma init_server:
  assumes "sock_server_init ty port cid env k = ok (Some sv, k')" and "fd_ok k"
  shows "0 \<le> socketfd sv" and "socketfd sv < 1024" and "client_slots sv = replicate SOCK_MAX_CLIENTS (-1)"
proof -
  obtain a q where a: "sysq k = a # q"
    using assms(1) by (cases "sysq k") (auto simp: sock_server_init_def sys_def Let_def)
  have pos: "0 \<le> ans_ret a"
    using assms(1) a by (auto simp: sock_server_init_def sys_def Let_def not_less split: if_splits)
  from init_stages [OF assms(1) a pos] obtain good3 k3 where
    "(if good3 then sock_server_init_listen ty (ans_ret a) k3 else ok (None, k3)) = ok (Some sv, k')" by metis
  then have "socketfd sv = ans_ret a" "client_slots sv = replicate SOCK_MAX_CLIENTS (-1)"
    by (auto simp: sock_server_init_listen_def bindr_eq_ok split: if_splits)
  then show "0 \<le> socketfd sv" and "socketfd sv < 1024" and "client_slots sv = replicate SOCK_MAX_CLIENTS (-1)"
    using pos assms(2) a by (auto simp: fd_ok_def)
qed

lemma delete_all_None: "delete_all (replicate n None) h = h"
  by (induction n) simp_all

lemma start_inv:
  assumes "SockServer_start cid env (SockServer_new port ty hp) k = ok (r, ss, k')" and "fd_ok k" and "objs hp = Map.empty"
  shows "server_inv ss" and "r = (if m_server ss = None then -1 else 0)" and "m_pclient ss = None"
proof -
  from assms(1) obtain sv k1 where init: "sock_server_init ty port cid env k = ok (sv, k1)"
    and res: "(r, ss) = (let s1 = (SockServer_new port ty hp)\<lparr>m_be_working := True, m_server := sv\<rparr> in
      if sv = None then (-1, s1) else (0, s1\<lparr>m_thread := True\<rparr>))"
    by (auto simp: SockServer_start_def bindr_eq_ok Let_def SockServer_new_def delete_all_None map_replicate_const
        split: if_splits)
  have "table_inv ss"
    using res assms(3) init_server [OF _ assms(2), of ty port cid env] init
    by (cases sv) (auto simp: table_inv_def SockServer_new_def connected_def slots_inv_def Let_def MAX_CLIENTS_def SOCK_MAX_CLIENTS_def)
  then show "server_inv ss" using res by (auto simp: server_inv_def SockServer_new_def Let_def split: if_splits)
  show "r = (if m_server ss = None then -1 else 0)" and "m_pclient ss = None"
    using res by (auto simp: Let_def SockServer_new_def split: if_splits)
qed

lemma open_reachable:
  assumes "open_sensors H F ps junk hp name k = ok (status, Some s, k')" and "fd_ok k" and "objs hp = Map.empty"
    and "length junk = MAX_NUM_SENSORS" and "\<forall>e \<in> set junk. length (ev_data e) = EVENT_WORDS"
    and "read_trace ps \<noteq> Some 0"
  shows "reachable H s" and "status = 0" and "server_inv (srv s)"
proof -
  from assms(1) obtain r ss k1 where
    st: "SockServer_start (prop_container_id ps) (env_k8s ps) (SockServer_new (read_port ps) (read_sock_type ps) hp) k = ok (r, ss, k1)"
    and s: "s = hal_init H junk (read_trace ps) ss" "status = 0"
    by (auto simp: open_sensors_def SensorDevice_construct_def bindr_eq_ok split: if_splits)
  from start_inv(1) [OF st assms(2,3)] show "reachable H s"
    unfolding s by (intro reachable.init assms)
  show "status = 0" by (rule s)
  show "server_inv (srv s)" using start_inv(1) [OF st assms(2,3)] by (simp add: s hal_init_def)
qed

text \<open>
  The result of \<open>start\<close> is not looked at: when the server cannot be started, opening still succeeds. No listener
  runs then, and a polling call sleeps for ever: it finds no client each time it wakes up.
\<close>

lemma open_without_server:
  assumes "sock_server_init (read_sock_type ps) (read_port ps) (prop_container_id ps) (env_k8s ps) k = ok (None, k')" and "0 < n"
  shows "\<exists>s. open_sensors H F ps junk hp (SENSORS_HARDWARE_POLL F) k = ok (0, Some s, k') \<and> \<not> m_thread (srv s) \<and>
    exec H (Poll n) s = ok (s\<lparr>pc := Sleeping n\<rparr>, None) \<and> exec H Wake_Sleep (s\<lparr>pc := Sleeping n\<rparr>) = ok (s\<lparr>pc := Sleeping n\<rparr>, None)"
  using assms
  by (simp add: open_sensors_def SensorDevice_construct_def SockServer_start_def SockServer_new_def Let_def hal_init_def
      begin_poll_def SensorDevice_new_def await_def get_sock_client_def)

section \<open>Closing\<close>

lemma close_slots_closes: "fd \<noteq> -1 \<Longrightarrow> closes fd (close_slots fds k) = closes fd k + count_list fds fd"
  by (induction fds arbitrary: k) auto

text \<open>Closing the device closes the listening socket and every client's descriptor, each once.\<close>

lemma server_close_closes:
  assumes "sock_server_close (Some sv) k = ok k'" and "fd \<noteq> -1"
  shows "closes fd k' = closes fd k + (if fd = socketfd sv then 1 else 0) + count_list (client_slots sv) fd"
  using assms
  by (auto simp: sock_server_close_def Let_def bindr_eq_ok closes_sys close_slots_closes split: if_splits)

lemma sensor_close_closes:
  assumes "sensor_close s k = ok (r, k')" and "m_server (srv s) = Some sv" and "fd \<noteq> -1"
  shows "r = 0" and "closes fd k' = closes fd k + (if fd = socketfd sv then 1 else 0) + count_list (client_slots sv) fd"
proof -
  from assms(1,2) have c: "sock_server_close (Some sv) k = ok k'" and "r = 0"
    by (auto simp: sensor_close_def SensorDevice_delete_def SockServer_delete_def SockServer_stop_def Let_def bindr_eq_ok)
  show "r = 0" by fact
  show "closes fd k' = closes fd k + (if fd = socketfd sv then 1 else 0) + count_list (client_slots sv) fd"
    by (rule server_close_closes [OF c assms(3)])
qed

end
