(* ===== verification/Sensor_Scenarios.thy ===== *)
theory Sensor_Scenarios
  imports Hal_Module
begin

text \<open>
  Runs through all components: a round of the listener that finds a message of the only client, the
  polling thread that takes it from there to the framework, and the interleavings in which the code
  loses a flush notice or leaves its defined behaviour.
\<close>

section \<open>A round of the listener\<close>

lemma fd_set_slots_eq:
  "\<forall>fd \<in> set fds. fd = -1 \<or> 0 \<le> fd \<and> fd < 1024 \<Longrightarrow>
     fd_set_slots fds s = ok (rev (filter (\<lambda>fd. fd \<noteq> -1) fds) @ s)"
  by (induction fds arbitrary: s) (auto simp: FD_SET_def)

lemma scan_clients_skip:
  assumes "\<forall>i \<in> set ids. i < length (m_clients ss) \<and> m_clients ss ! i = None"
  shows "scan_clients cbs (ids @ js) ss a k = scan_clients cbs js ss a k"
  using assms by (induction ids) (simp_all add: arr_get_ok)

text \<open>The only client \<open>p\<close>, in entry \<open>i\<close>.\<close>

definition sole_client :: "SockServer \<Rightarrow> nat \<Rightarrow> nat \<Rightarrow> bool" where
  "sole_client ss i p \<longleftrightarrow> i < MAX_CLIENTS \<and> m_clients ss ! i = Some p \<and>
     (\<forall>j < MAX_CLIENTS. j \<noteq> i \<longrightarrow> m_clients ss ! j = None)"

text \<open>The kernel's answers to the three calls of such a round: nobody connects, the client is readable.\<close>

definition readable_round :: "int \<Rightarrow> kern \<Rightarrow> bool" where
  "readable_round fd k \<longleftrightarrow> (case sysq k of
     a1 # a2 # a3 # r \<Rightarrow> ans_ret a1 = 0 \<and> 0 < ans_ret a2 \<and> fd \<in> set (ans_fds a2) \<and> 0 \<le> ans_ret a3 \<and> ans_val a3 \<noteq> 0
   | _ \<Rightarrow> False)"

lemma scan_sole_readable:
  assumes len: "length (m_clients ss) = MAX_CLIENTS" and sole: "sole_client ss i p"
    and c: "objs (proxies ss) p = Some c"
    and chk: "sock_server_check_connect (m_server ss) (Some c) k = ok (readable, k1)"
    and cb: "call_cb (m_listener_callback cbs) ss p a k1 = ok (a', k2)"
  shows "scan_clients cbs [0..<MAX_CLIENTS] ss a k = ok (None, ss, a', k2)"
proof -
  from sole have i: "i < MAX_CLIENTS" "m_clients ss ! i = Some p" by (simp_all add: sole_client_def)
  have split: "[0..<MAX_CLIENTS] = [0..<i] @ i # [Suc i..<MAX_CLIENTS] @ []"
    using i(1) upt_add_eq_append [of 0 i "MAX_CLIENTS - i"] upt_conv_Cons [of i MAX_CLIENTS] by simp
  have before: "scan_clients cbs ([0..<i] @ js) ss x y = scan_clients cbs js ss x y" for js x y
    by (rule scan_clients_skip) (use sole len i in \<open>auto simp: sole_client_def\<close>)
  have after: "scan_clients cbs ([Suc i..<MAX_CLIENTS] @ []) ss x y = scan_clients cbs [] ss x y" for x y
    by (rule scan_clients_skip) (use sole len i in \<open>auto simp: sole_client_def\<close>)
  have "scan_clients cbs (i # [Suc i..<MAX_CLIENTS] @ []) ss a k = ok (None, ss, a', k2)"
    using i len c chk cb after by (simp add: arr_get_ok deref_proxy_def)
  then show ?thesis unfolding split before .
qed

text \<open>Nobody wants to connect: the first half of the round changes nothing but the kernel's queue.\<close>

lemma no_new_connection:
  assumes "m_server ss = Some sv" and "0 \<le> socketfd sv" and "socketfd sv < 1024" and "sysq k = a1 # q" and "ans_ret a1 = 0"
  shows "\<exists>k1. sock_server_has_newconn (m_server ss) tmo k = ok (False, k1) \<and> sysq k1 = q \<and> errno k1 = errno k \<and> inbox k1 = inbox k"
  using assms
  by (simp add: sock_server_has_newconn_def FD_SET_def sys_select_def sys_def)

lemma clients_readable_eq:
  assumes "\<forall>fd \<in> set (client_slots sv). fd = -1 \<or> 0 \<le> fd \<and> fd < 1024" and "fd \<in> set (client_slots sv)" and "fd \<noteq> -1"
    and "sysq k = a2 # q" and "0 < ans_ret a2" and "fd \<in> set (ans_fds a2)"
  shows "\<exists>rf k1. sock_server_clients_readable (Some sv) tmo k = ok (True, Some (sv\<lparr>rfds := rf\<rparr>), k1) \<and> fd \<in> set rf \<and>
    sysq k1 = q \<and> errno k1 = errno k \<and> inbox k1 = inbox k"
  using assms
  by (auto simp: sock_server_clients_readable_def fd_set_slots_eq sys_select_def sys_def Let_def
      intro!: exI [of _ "filter (\<lambda>f. f \<in> set (ans_fds a2)) (rev (filter (\<lambda>fd. fd \<noteq> - 1) (client_slots sv)))"])

lemma check_connect_readable:
  assumes "arr_get (client_slots sv) (proxy_id c) = ok fd" and "0 \<le> fd" and "fd < 1024" and "fd \<in> set (rfds sv)"
    and "sysq k = a3 # q" and "0 \<le> ans_ret a3" and "ans_val a3 \<noteq> 0"
  shows "\<exists>k1. sock_server_check_connect (Some sv) (Some c) k = ok (readable, k1) \<and> sysq k1 = q \<and>
    errno k1 = errno k \<and> inbox k1 = inbox k"
  using assms by (simp add: sock_server_check_connect_def FD_ISSET_def sys_def)

text \<open>A connected client's descriptor, as the readiness checks see it.\<close>

lemma client_fd_slot:
  assumes tab: "table_inv ss" and mem: "Some p \<in> set (m_clients ss)" and live: "client_fd ss p = Some fd"
  obtains sv c where "m_server ss = Some sv" and "objs (proxies ss) p = Some c" and "slots_inv ss sv"
    and "arr_get (client_slots sv) (proxy_id c) = ok fd" and "fd \<in> set (client_slots sv)" and "0 \<le> fd" and "fd < 1024"
    and "\<forall>fd \<in> set (client_slots sv). fd = -1 \<or> 0 \<le> fd \<and> fd < 1024"
proof -
  from live obtain sv c where sv: "m_server ss = Some sv" and c: "objs (proxies ss) p = Some c"
    and ci: "0 \<le> proxy_id c" "proxy_id c < int (length (client_slots sv))" "fd = client_slots sv ! nat (proxy_id c)"
    by (rule client_fd_SomeE)
  from tab sv have slots: "slots_inv ss sv" by (auto simp: table_inv_def)
  then have rng: "\<forall>fd \<in> set (client_slots sv). fd = -1 \<or> 0 \<le> fd \<and> fd < 1024" by (metis in_set_conv_nth slots_inv_def)
  from mem obtain j where "client_fd ss p = Some (client_slots sv ! j)" "0 \<le> client_slots sv ! j" "client_slots sv ! j < 1024"
    using client_fd_connected [OF tab _ sv] by metis
  with live have "0 \<le> fd" "fd < 1024" by simp_all
  moreover have "fd \<in> set (client_slots sv)" using ci by (simp add: nat_less_iff)
  moreover have "arr_get (client_slots sv) (proxy_id c) = ok fd" using ci by (simp add: arr_get_ok)
  ultimately show thesis using that sv c slots rng by blast
qed

text \<open>The system calls of a round that finds the only client readable.\<close>

lemma readable_round_parts:
  assumes srv: "server_inv ss" and sole: "sole_client ss i p" and live: "client_fd ss p = Some fd"
    and rr: "readable_round fd k"
  obtains sv c k1 k2 k3 where "sock_server_has_newconn (m_server ss) (m_connection_timeout_ms ss) k = ok (False, k1)"
    and "sock_server_clients_readable (m_server ss) (m_client_status_check_timeout ss) k1 = ok (True, Some sv, k2)"
    and "objs (proxies ss) p = Some c" and "sock_server_check_connect (Some sv) (Some c) k2 = ok (readable, k3)"
    and "errno k3 = errno k" and "inbox k3 = inbox k" and "client_fd (ss\<lparr>m_server := Some sv\<rparr>) p = Some fd"
    and "server_inv (ss\<lparr>m_server := Some sv\<rparr>)" and "m_pclient ss \<noteq> None"
proof -
  from srv have tab: "table_inv ss" by (simp add: server_inv_def)
  then have len: "length (m_clients ss) = MAX_CLIENTS" by (simp add: table_inv_def)
  have inp: "Some p \<in> set (m_clients ss)" using sole len by (auto simp: sole_client_def in_set_conv_nth)
  obtain sv c where sv: "m_server ss = Some sv" and c: "objs (proxies ss) p = Some c" and slots: "slots_inv ss sv"
    and get: "arr_get (client_slots sv) (proxy_id c) = ok fd" and mem: "fd \<in> set (client_slots sv)" and fd: "0 \<le> fd" "fd < 1024"
    and rng: "\<forall>fd \<in> set (client_slots sv). fd = -1 \<or> 0 \<le> fd \<and> fd < 1024"
    using client_fd_slot [OF tab inp live] .
  from rr obtain a1 a2 a3 q where q: "sysq k = a1 # a2 # a3 # q" and a: "ans_ret a1 = 0" "0 < ans_ret a2"
    "fd \<in> set (ans_fds a2)" "0 \<le> ans_ret a3" "ans_val a3 \<noteq> 0"
    by (auto simp: readable_round_def split: list.splits)
  have sfd: "0 \<le> socketfd sv" "socketfd sv < 1024" and nfd: "fd \<noteq> -1" using slots fd by (simp_all add: slots_inv_def)
  obtain k1 where k1: "sock_server_has_newconn (m_server ss) (m_connection_timeout_ms ss) k = ok (False, k1)" "sysq k1 = a2 # a3 # q"
    "errno k1 = errno k" "inbox k1 = inbox k"
    using no_new_connection [OF sv sfd q a(1)] by auto
  obtain rf k2 where k2: "sock_server_clients_readable (Some sv) (m_client_status_check_timeout ss) k1 = ok (True, Some (sv\<lparr>rfds := rf\<rparr>), k2)"
    "fd \<in> set rf" "sysq k2 = a3 # q" "errno k2 = errno k" "inbox k2 = inbox k"
    using clients_readable_eq [OF rng mem nfd k1(2) a(2,3), of "m_client_status_check_timeout ss"] k1(3,4) by auto
  obtain k3 where k3: "sock_server_check_connect (Some (sv\<lparr>rfds := rf\<rparr>)) (Some c) k2 = ok (readable, k3)" "errno k3 = errno k" "inbox k3 = inbox k"
    using check_connect_readable [of "sv\<lparr>rfds := rf\<rparr>" c fd k2 a3 q] get fd k2 a by auto
  have pc: "m_pclient ss \<noteq> None"
    using srv tab inp by (auto simp: server_inv_def table_inv_def connected_def filter_empty_conv)
  have "table_inv (ss\<lparr>m_server := Some (sv\<lparr>rfds := rf\<rparr>)\<rparr>)"
    using tab slots sv by (simp add: table_inv_def slots_inv_def connected_def cong: option.case_cong)
  then have "server_inv (ss\<lparr>m_server := Some (sv\<lparr>rfds := rf\<rparr>)\<rparr>)" using pc by (auto simp: server_inv_def)
  moreover have "client_fd (ss\<lparr>m_server := Some (sv\<lparr>rfds := rf\<rparr>)\<rparr>) p = Some fd"
    using live sv c by (auto simp: client_fd_def split: if_splits)
  ultimately show thesis using that k1(1) k2(1) c k3 pc sv by auto
qed

text \<open>A round that finds the only client readable calls the listener callback for it, once.\<close>

lemma listen_round_calls_back:
  assumes srv: "server_inv ss" and sole: "sole_client ss i p" and live: "client_fd ss p = Some fd"
    and rr: "readable_round fd k"
  shows "\<exists>ss1 k1. errno k1 = errno k \<and> inbox k1 = inbox k \<and> client_fd ss1 p = Some fd \<and>
     server_inv ss1 \<and> m_pclient ss1 = m_pclient ss \<and> sole_client ss1 i p \<and>
     (\<forall>d d' k2. sensor_event_callback H junk ss1 p d k1 = ok (d', k2) \<longrightarrow> listen_round H junk ss d k = ok (0, ss1, d', k2))"
proof -
  from srv have len: "length (m_clients ss) = MAX_CLIENTS" by (simp add: server_inv_def table_inv_def)
  let ?cbs = "hal_callbacks H junk"
  obtain sv c k1 k2 k3 where nc: "sock_server_has_newconn (m_server ss) (m_connection_timeout_ms ss) k = ok (False, k1)"
    and rd: "sock_server_clients_readable (m_server ss) (m_client_status_check_timeout ss) k1 = ok (True, Some sv, k2)"
    and c: "objs (proxies ss) p = Some c" and ck: "sock_server_check_connect (Some sv) (Some c) k2 = ok (readable, k3)"
    and k3: "errno k3 = errno k" "inbox k3 = inbox k"
    and ss1: "client_fd (ss\<lparr>m_server := Some sv\<rparr>) p = Some fd" "server_inv (ss\<lparr>m_server := Some sv\<rparr>)" and pc: "m_pclient ss \<noteq> None"
    using readable_round_parts [OF assms] .
  define ss1 where "ss1 = ss\<lparr>m_server := Some sv\<rparr>"
  have "listen_round H junk ss d k = ok (0, ss1, d', k4)" if cb: "sensor_event_callback H junk ss1 p d k3 = ok (d', k4)" for d d' k4
  proof -
    have sc: "scan_clients ?cbs [0..<MAX_CLIENTS] ss1 d k2 = ok (None, ss1, d', k4)"
      by (rule scan_sole_readable [where i = i and p = p and c = c])
        (use len sole c cb ck in \<open>simp_all add: ss1_def sole_client_def call_cb_def hal_callbacks_def\<close>)
    show ?thesis
      using nc rd sc pc
      by (simp add: listen_round_def check_new_connection_def check_new_message_def flip: ss1_def) (auto simp: choose_default_def ss1_def)
  qed
  moreover have "sole_client ss1 i p" using sole by (simp add: sole_client_def ss1_def)
  ultimately show ?thesis using k3 ss1
    by (intro exI [of _ ss1] exI [of _ k3]) (simp add: ss1_def)
qed

text \<open>One round with a whole message waiting puts the message into the queue.\<close>

lemma listen_round_delivers:
  assumes hdr: "header_ok H" and m: "msg_ok H m" and inv: "dev_inv H d" and srv: "server_inv ss"
    and sole: "sole_client ss i p" and live: "client_fd ss p = Some fd" and rr: "readable_round fd k"
    and calm: "calm (errno k) (inbox k fd)" and str: "stream_of (inbox k fd) = aic_bytes m @ rest"
  shows "\<exists>buf d1 ss' k'. listen_round H junk ss d k = ok (0, ss', enqueue_msg buf d1, k') \<and>
     length buf = MSG_BUF_SIZE \<and> decode_msg H buf = m \<and> dev_inv H d1 \<and> d1 = d\<lparr>m_msg_mem_pool := m_msg_mem_pool d1\<rparr> \<and>
     stream_of (inbox k' fd) = rest \<and> server_inv ss' \<and> m_pclient ss' = m_pclient ss \<and>
     sole_client ss' i p \<and> client_fd ss' p = Some fd"
proof -
  obtain ss1 k1 where r: "errno k1 = errno k" "inbox k1 = inbox k" "client_fd ss1 p = Some fd"
    "server_inv ss1" "m_pclient ss1 = m_pclient ss" "sole_client ss1 i p"
    "\<forall>d d' k2. sensor_event_callback H junk ss1 p d k1 = ok (d', k2) \<longrightarrow> listen_round H junk ss d k = ok (0, ss1, d', k2)"
    using listen_round_calls_back [OF srv sole live rr, of H junk] by auto
  from callback_delivers [OF hdr m inv r(3), of k1 rest junk] calm str r(1,2) obtain buf d1 k2 where
    cb: "sensor_event_callback H junk ss1 p d k1 = ok (enqueue_msg buf d1, k2)" "length buf = MSG_BUF_SIZE"
      "decode_msg H buf = m" "dev_inv H d1" "d1 = d\<lparr>m_msg_mem_pool := m_msg_mem_pool d1\<rparr>" "stream_of (inbox k2 fd) = rest"
    by auto
  with r show ?thesis by blast
qed

section \<open>From the queue to the framework\<close>

text \<open>The event the framework gets for a message of sensor \<open>h\<close>.\<close>

definition delivered ::
  "sensors_h \<Rightarrow> int \<times> int \<Rightarrow> nat \<Rightarrow> aic_sensors_event_t \<Rightarrow> SensorDevice \<Rightarrow> sensors_event_t" where
  "delivered H clock h m d =
     (reading clock m (overlay (aic_fdata m) (ev_data (m_sensors d ! h))) d (m_sensors d ! h))
       \<lparr>ev_sensor := int h, ev_version := SIZEOF_SENSORS_EVENT H\<rparr>"

lemma pick_loop_single:
  assumes inv: "dev_inv H d" and bits: "bits_of (m_pending_sensors d) = {h}" and rd: "slot_of H d h = Reading e" and n: "0 < n"
  shows "\<exists>d'. pick_loop H n 0 [] d = ok (1, [e\<lparr>ev_sensor := int h, ev_version := SIZEOF_SENSORS_EVENT H\<rparr>], d') \<and>
    dev_inv H d' \<and> m_pending_sensors d' = 0"
proof -
  have ne: "m_pending_sensors d \<noteq> 0" using bits by auto
  have mx: "h = Max (bits_of (m_pending_sensors d))" using bits by simp
  note p = pick_eq [OF inv ne mx]
  from hand_out_refines [OF inv p(2,3)] rd
  have e: "fst (hand_out H h d) = e\<lparr>ev_sensor := int h, ev_version := SIZEOF_SENSORS_EVENT H\<rparr>"
    and s: "slot_of H (snd (hand_out H h d)) = (slot_of H d)(h := Empty)" by simp_all
  have "slot_of H (snd (hand_out H h d)) i = Empty" for i using bits s by (simp add: slot_of_def)
  then have z: "m_pending_sensors (snd (hand_out H h d)) = 0"
    by (simp add: slot_of_eq_Empty flip: bits_of_eq_empty) auto
  from n obtain n' where "n = Suc n'" by (cases n) auto
  with ne p(1) e z hand_out_inv [OF inv p(2,3)] show ?thesis by (cases n') auto
qed

lemma resume_delivers:
  assumes hdr: "header_ok H" and inv: "hal_inv H s" and pc: "pc s = Got n buf"
    and h: "h < MAX_NUM_SENSORS" "h \<noteq> 5" and m: "m = decode_msg H buf" "aic_type m = type_list H ! h"
    and quiet: "bits_of (m_pending_sensors (dev s)) \<subseteq> {h}"
  shows "\<exists>s'. exec H (Resume clock) s = ok (s', Some (1, [delivered H clock h m (dev s)])) \<and>
    hal_inv H s' \<and> pc s' = Idle \<and> m_pending_sensors (dev s') = 0"
proof -
  from inv pc have d: "dev_inv H (dev s)" "server_inv (srv s)" and n: "0 < n" and b: "length buf = MSG_BUF_SIZE"
    by (simp_all add: hal_inv_def)
  have ty: "aic_type (decode_msg H buf) = type_list H ! h" using m by simp
  define d1 where "d1 = intake H clock h buf (dev s)"
  have p: "process_msg H clock buf (dev s) = ok (True, d1)"
    unfolding d1_def by (rule process_msg_eq [OF hdr d(1) h(1) b ty])
  have i1: "dev_inv H d1" unfolding d1_def by (rule intake_inv [OF hdr d(1) h(1) b ty])
  have bits: "bits_of (m_pending_sensors d1) = {h}"
    using quiet h(1) by (auto simp: d1_def bits_of_set MAX_NUM_SENSORS_def)
  have sl: "slot_of H d1 h = Reading (reading clock m (overlay (aic_fdata m) (ev_data (m_sensors (dev s) ! h))) (dev s) (m_sensors (dev s) ! h))"
    unfolding d1_def using intake_slots [OF hdr d(1) h(1) b m h(2), of clock] by simp
  from pick_loop_single [OF i1 bits sl, of "nat n"] n obtain d2 where
    "pick_loop H (nat n) 0 [] d1 = ok (1, [delivered H clock h m (dev s)], d2)" "dev_inv H d2" "m_pending_sensors d2 = 0"
    by (auto simp: delivered_def)
  then show ?thesis using pc p d(2)
    by (simp add: resume_poll_def finish_poll_def hal_inv_def)
qed

section \<open>A message and a flush\<close>

text \<open>
  A message for a sensor whose slot owes flush notices replaces them: they are never delivered.
\<close>

lemma intake_drops_notices:
  assumes "header_ok H" and inv: "dev_inv H d" and h: "h < MAX_NUM_SENSORS" and len: "length buf = MSG_BUF_SIZE"
    and ty: "aic_type (decode_msg H buf) = type_list H ! h" and "h \<noteq> 5" and "slot_of H d h = Flushing n"
  shows "notices H (intake H clock h buf d) + n = notices H d"
  using sum_fun_upd_nat [OF h, of slot_notices "slot_of H d"] assms(7)
  by (simp add: notices_def intake_slots [OF assms(1-4) refl ty assms(6)])

section \<open>Stale clients\<close>

text \<open>Sending to a client whose proxy was deleted.\<close>

lemma stale_send_faults:
  assumes "objs (proxies ss) p = None" and "m_server ss \<noteq> None" and "0 < len" and "nat len \<le> length data" and "len < 2 ^ 31"
  shows "SockServer_send_data ss (Some p) data len SOCK_TIMEOUT_MODE tmo k = fault Use_After_Free"
  using assms
  by (subst SockServer_send_data_def) (simp add: send_timeout.simps c_read_def server_snd_def deref_proxy_def)

section \<open>Beyond the tables\<close>

text \<open>
  The C layer accepts 512 clients, the array of the class holds 255: the first client that gets a
  slot beyond is entered behind the array.
\<close>

lemma client_beyond_table:
  assumes "m_server ss = Some sv" and "length (m_clients ss) = MAX_CLIENTS"
    and "length (client_slots sv) = SOCK_MAX_CLIENTS" and "0 \<le> socketfd sv" and "socketfd sv < 1024"
    and "MAX_CLIENTS \<le> sock_server_find_empty_slot sv" and "sock_server_find_empty_slot sv < SOCK_MAX_CLIENTS"
    and "sysq k = a1 # a2 # a3 # q" and "0 < ans_ret a1" and "socketfd sv \<in> set (ans_fds a1)"
    and "0 \<le> ans_ret a2" and "0 \<le> ans_ret a3"
  shows "check_new_connection cbs ss a k = fault Array_Index"
  using assms
  by (simp add: check_new_connection_def sock_server_has_newconn_def FD_SET_def FD_ISSET_def sys_select_def sys_def
      sock_server_create_client_def Let_def arr_set_ok new_proxy_def admit_client_def enter_client_def deref_proxy_def arr_set_def)

lemma flush_beyond_table:
  assumes inv: "dev_inv H d"
  shows "h < 0 \<or> 32 \<le> h \<Longrightarrow> sensor_device_flush H h d = fault Shift_Range"
    and "int MAX_NUM_SENSORS \<le> h \<Longrightarrow> h < 32 \<Longrightarrow> sensor_device_flush H h d = fault Array_Index"
proof -
  show "h < 0 \<or> 32 \<le> h \<Longrightarrow> sensor_device_flush H h d = fault Shift_Range"
    by (auto simp: sensor_device_flush_def shl1_def)
  assume h: "int MAX_NUM_SENSORS \<le> h" "h < 32"
  from inv have "bits_of (m_pending_sensors d) \<subseteq> {..<MAX_NUM_SENSORS}" "length (m_flush_count d) = MAX_NUM_SENSORS"
    by (simp_all add: dev_inv_def slots_ok_def)
  moreover have "\<not> nat h < MAX_NUM_SENSORS" using h by simp
  ultimately have "nat h \<notin> bits_of (m_pending_sensors d)" by auto
  with h and_bit_zero [of h "m_pending_sensors d"] \<open>length (m_flush_count d) = MAX_NUM_SENSORS\<close>
  show "sensor_device_flush H h d = fault Array_Index"
    by (simp add: sensor_device_flush_def shl1_ok arr_set_def)
qed

end
