(* ===== verification/Sock_Peer.thy ===== *)
theory Sock_Peer
  imports Complex_Main Sock_Utils
begin

text \<open>
  The class \<open>SockClient\<close> of \<open>sock_utils.cpp\<close>: the peer of the server, which connects, reconnects after
  the server went away, and uses the same transfer loops. Its thread reads \<open>m_be_working\<close>, which
  \<open>stop\<close> may clear at any moment: the values read are a list, one per reading.
\<close>

section \<open>State and life cycle\<close>

record SockClient =
  m_client :: "sock_client_t option"
  m_conn_type :: int
  c_ip :: string
  c_port :: int
  c_be_working :: bool
  m_timeout :: rat
  m_msg_check_timeout_ms :: int
  c_thread :: bool

type_synonym 'a client_callback = "SockClient \<Rightarrow> 'a \<Rightarrow> kern \<Rightarrow> ('a \<times> kern) run"

record 'a client_callbacks =
  c_listener_callback :: "'a client_callback option"
  c_connected_callback :: "'a client_callback option"
  c_disconnected_callback :: "'a client_callback option"

definition no_client_callbacks :: "'a client_callbacks" where
  "no_client_callbacks = \<lparr>c_listener_callback = None, c_connected_callback = None, c_disconnected_callback = None\<rparr>"

definition SockClient_register_listener_callback :: "'a client_callback \<Rightarrow> 'a client_callbacks \<Rightarrow> 'a client_callbacks" where
  "SockClient_register_listener_callback f cbs = cbs\<lparr>c_listener_callback := Some f\<rparr>"

definition SockClient_register_connected_callback :: "'a client_callback \<Rightarrow> 'a client_callbacks \<Rightarrow> 'a client_callbacks" where
  "SockClient_register_connected_callback f cbs = cbs\<lparr>c_connected_callback := Some f\<rparr>"

definition SockClient_register_disconnected_callback :: "'a client_callback \<Rightarrow> 'a client_callbacks \<Rightarrow> 'a client_callbacks" where
  "SockClient_register_disconnected_callback f cbs = cbs\<lparr>c_disconnected_callback := Some f\<rparr>"

definition call_client_cb :: "'a client_callback option \<Rightarrow> SockClient \<Rightarrow> 'a \<Rightarrow> kern \<Rightarrow> ('a \<times> kern) run" where
  "call_client_cb cb sc a k = (case cb of None \<Rightarrow> ok (a, k) | Some f \<Rightarrow> f sc a k)"

definition SockClient_inet :: "string \<Rightarrow> int \<Rightarrow> rat \<Rightarrow> SockClient" where
  "SockClient_inet ip port timeout =
     \<lparr>m_client = None, m_conn_type = SOCK_CONN_TYPE_INET_SOCK, c_ip = ip, c_port = port, c_be_working = False,
      m_timeout = (if timeout \<ge> 0 then timeout else 2), m_msg_check_timeout_ms = 20, c_thread = False\<rparr>"

definition SockClient_unix :: "string \<Rightarrow> rat \<Rightarrow> SockClient" where
  "SockClient_unix server_path timeout =
     \<lparr>m_client = None, m_conn_type = SOCK_CONN_TYPE_UNIX_SOCK, c_ip = server_path, c_port = 7777, c_be_working = False,
      m_timeout = (if timeout \<ge> 0 then timeout else 2), m_msg_check_timeout_ms = 20, c_thread = False\<rparr>"

definition SockClient_start :: "SockClient \<Rightarrow> int \<times> SockClient" where
  "SockClient_start sc = (0, sc\<lparr>c_be_working := True, c_thread := True\<rparr>)"

definition SockClient_stop :: "SockClient \<Rightarrow> SockClient" where
  "SockClient_stop sc = sc\<lparr>c_be_working := False\<rparr>"

text \<open>\<open>join\<close> does nothing without a thread, and otherwise returns when it has ended.\<close>

definition SockClient_join :: "bool \<Rightarrow> SockClient \<Rightarrow> SockClient run" where
  "SockClient_join ended sc = (if c_thread sc \<and> \<not> ended then None else ok sc)"

definition SockClient_delete :: "bool \<Rightarrow> SockClient \<Rightarrow> kern \<Rightarrow> (SockClient \<times> kern) run" where
  "SockClient_delete ended sc k =
     bindr (SockClient_join ended (SockClient_stop sc)) (\<lambda>sc.
     ok (sc\<lparr>m_client := None, c_ip := [], c_thread := False\<rparr>, sock_client_close (m_client sc) k))"

section \<open>Connecting\<close>

text \<open>\<open>sleep\<close> takes whole seconds.\<close>

definition retry_pause :: "SockClient \<Rightarrow> nat" where
  "retry_pause sc = nat \<lfloor>m_timeout sc\<rfloor> * 1000000"

text \<open>
  The loop of \<open>connect_to_server\<close>. The flag of the result tells whether the loop was left with a
  connection and the thread still wanted; the list is what is left of the readings.
\<close>

fun connect_loop :: "bool list \<Rightarrow> SockClient \<Rightarrow> kern \<Rightarrow> (bool \<times> bool list \<times> SockClient \<times> kern) run" where
  "connect_loop [] sc k = (if m_client sc \<noteq> None then ok (True, [], sc, k) else None)"
| "connect_loop (working # ws) sc k =
     (if m_client sc \<noteq> None then ok (True, working # ws, sc, k) else
      bindr (sock_client_init (m_conn_type sc) (c_ip sc) (c_port sc) k) (\<lambda>(c, k).
      let sc = sc\<lparr>m_client := c\<rparr>; k = (if c = None then usleep (retry_pause sc) k else k) in
      if \<not> working then ok (False, ws, sc, k) else connect_loop ws sc k))"

definition connect_to_server ::
  "'a client_callbacks \<Rightarrow> bool list \<Rightarrow> SockClient \<Rightarrow> 'a \<Rightarrow> kern \<Rightarrow> (int \<times> bool list \<times> SockClient \<times> 'a \<times> kern) run" where
  "connect_to_server cbs ws sc a k =
     bindr (connect_loop ws sc k) (\<lambda>(conn, ws, sc, k).
     if \<not> conn then ok (0, ws, sc, a, k) else
     bindr (call_client_cb (c_connected_callback cbs) sc a k) (\<lambda>(a, k). ok (0, ws, sc, a, k)))"

section \<open>The listener thread\<close>

definition client_check_new_message ::
  "'a client_callbacks \<Rightarrow> bool list \<Rightarrow> SockClient \<Rightarrow> 'a \<Rightarrow> kern \<Rightarrow> (int \<times> bool list \<times> SockClient \<times> 'a \<times> kern) run" where
  "client_check_new_message cbs ws sc a k =
     bindr (sock_client_check_connect (m_client sc) (m_msg_check_timeout_ms sc) k) (\<lambda>(st, k).
     case st of
       readable \<Rightarrow> bindr (call_client_cb (c_listener_callback cbs) sc a k) (\<lambda>(a, k). ok (0, ws, sc, a, k))
     | disconnect \<Rightarrow>
         bindr (call_client_cb (c_disconnected_callback cbs) sc a k) (\<lambda>(a, k).
         let k = sock_client_close (m_client sc) k; sc = sc\<lparr>m_client := None\<rparr> in
         bindr (connect_to_server cbs ws sc a k) (\<lambda>(_, ws, sc, a, k). ok (0, ws, sc, a, k)))
     | normal \<Rightarrow> ok (0, ws, sc, a, k))"

partial_function (option) client_loop ::
  "'a client_callbacks \<Rightarrow> bool list \<Rightarrow> SockClient \<Rightarrow> 'a \<Rightarrow> kern \<Rightarrow> (SockClient \<times> 'a \<times> kern) run" where
  "client_loop cbs ws sc a k = (case ws of [] \<Rightarrow> None
     | working # ws \<Rightarrow>
         if working then
           bindr (client_check_new_message cbs ws sc a k) (\<lambda>(_, ws, sc, a, k). client_loop cbs ws sc a k)
         else ok (sc, a, k))"

definition client_listener ::
  "'a client_callbacks \<Rightarrow> bool list \<Rightarrow> SockClient \<Rightarrow> 'a \<Rightarrow> kern \<Rightarrow> (SockClient \<times> 'a \<times> kern) run" where
  "client_listener cbs ws sc a k =
     bindr (connect_to_server cbs ws sc a k) (\<lambda>(_, ws, sc, a, k). client_loop cbs ws sc a k)"

section \<open>Transfers\<close>

definition SockClient_send_data ::
  "SockClient \<Rightarrow> byte list \<Rightarrow> int \<Rightarrow> sock_work_mode_t \<Rightarrow> int \<Rightarrow> kern \<Rightarrow> (int \<times> kern) run" where
  "SockClient_send_data sc data len mode timeout_ms k =
     (if m_client sc = None then ok (-1, k) else
      case mode of
        SOCK_NONBLOCK_MODE \<Rightarrow> bindr (c_read data (size_t len)) (\<lambda>ds. sock_client_send (m_client sc) ds k)
      | SOCK_TIMEOUT_MODE \<Rightarrow> send_timeout (sock_client_send (m_client sc)) data len timeout_ms 0 k
      | SOCK_BLOCK_MODE \<Rightarrow> send_block (sock_client_send (m_client sc)) data len 0 k)"

definition SockClient_recv_data ::
  "SockClient \<Rightarrow> byte list \<Rightarrow> nat \<Rightarrow> int \<Rightarrow> sock_work_mode_t \<Rightarrow> int \<Rightarrow> kern \<Rightarrow> (int \<times> byte list \<times> kern) run" where
  "SockClient_recv_data sc buf off len mode timeout_ms k =
     (if m_client sc = None then ok (-1, buf, k) else
      case mode of
        SOCK_BLOCK_MODE \<Rightarrow> recv_block (sock_client_recv (m_client sc)) buf off len 0 k
      | SOCK_NONBLOCK_MODE \<Rightarrow> sock_client_recv (m_client sc) buf off (size_t len) k
      | SOCK_TIMEOUT_MODE \<Rightarrow> recv_timeout (sock_client_recv (m_client sc)) buf off len timeout_ms 0 k)"

text \<open>The client's loops do what the reference behaviour says, as the server's do.\<close>

definition budget :: "sock_work_mode_t \<Rightarrow> int \<Rightarrow> int option" where
  "budget mode tmo = (if mode = SOCK_TIMEOUT_MODE then Some tmo else None)"

lemma client_send_eq:
  assumes "m_client sc = Some c" and "nat len \<le> length data" and "0 \<le> len" and "len < 2 ^ 31" and "mode \<noteq> SOCK_NONBLOCK_MODE"
  shows "SockClient_send_data sc data len mode tmo k
       = send_result (cl_socketfd c) data 0 k (push (budget mode tmo) (nat len) (errno k) (outq k (cl_socketfd c)))"
  using assms
  by (cases mode) (simp_all add: SockClient_send_data_def budget_def client_tx.send_block_push [where n = "nat len"]
    client_tx.send_timeout_push [where n = "nat len"])

lemma client_recv_eq:
  assumes "m_client sc = Some c" and "off + nat len \<le> length buf" and "0 \<le> len" and "len < 2 ^ 31" and "mode \<noteq> SOCK_NONBLOCK_MODE"
  shows "SockClient_recv_data sc buf off len mode tmo k
       = recv_result (cl_socketfd c) buf off 0 k (drain (budget mode tmo) (nat len) (errno k) (inbox k (cl_socketfd c)))"
  using assms
  by (cases mode) (simp_all add: SockClient_recv_data_def budget_def client_rx.recv_block_drain [where n = "nat len"]
    client_rx.recv_timeout_drain [where n = "nat len"])

section \<open>Descriptors of the client\<close>

lemma connect_closes:
  assumes "sock_client_connect ty path port fd k = ok (conn, k')"
  shows "closes x k' = closes x k"
  using assms by (auto simp: sock_client_connect_def bindr_eq_ok closes_sys split: if_splits)

text \<open>A failed attempt to connect closes the socket it opened; a successful one keeps it.\<close>

lemma client_init_closes:
  assumes "sock_client_init ty path port k = ok (r, k')" and "sysq k = a # q" and "0 \<le> ans_ret a"
  shows "closes fd k' = closes fd k + (if r = None \<and> fd = ans_ret a then 1 else 0)"
    and "r = Some c \<Longrightarrow> cl_socketfd c = ans_ret a"
proof -
  let ?fd = "ans_ret a"
  let ?d = "Sys_socket (if ty \<noteq> SOCK_CONN_TYPE_INET_SOCK then AF_UNIX else AF_INET)"
  obtain k0 where s0: "sys ?d k = ok (a, k0)" using assms(2) by (simp add: sys_def)
  have c0: "closes fd k0 = closes fd k" using closes_sys [OF s0] by simp
  from assms(1,3) s0 obtain k1 conn k2 where
    s1: "(if ty = SOCK_CONN_TYPE_INET_SOCK
            then bindr (sys (Sys_setsockopt ?fd ''SO_REUSEADDR'') k0) (\<lambda>(a, k).
                 if ans_ret a < 0 then exits (-1) else
                 bindr (sys (Sys_setsockopt ?fd ''TCP_NODELAY'') k) (\<lambda>(a, k).
                 if ans_ret a < 0 then exits (-1) else ok k))
            else ok k0) = ok k1"
    and s2: "sock_client_connect ty path port ?fd k1 = ok (conn, k2)"
    and s3: "(if \<not> conn then ok (None, sys_close ?fd k2) else
     bindr (sys (Sys_nonblock ?fd) k2) (\<lambda>(a, k).
     if ans_ret a < 0 then ok (None, sys_close ?fd k) else
     if length path > SOCK_MAX_PATH_LEN - 1 then ok (None, sys_close ?fd k) else
     ok (Some \<lparr>cl_type = 0, cl_socketfd = ?fd, cl_path = path, cl_msg_buf = []\<rparr>, k))) = ok (r, k')"
    unfolding sock_client_init_def Let_def by (auto simp: bindr_eq_ok)
  have c1: "closes fd k1 = closes fd k0" using s1 by (auto simp: bindr_eq_ok closes_sys split: if_splits)
  have c2: "closes fd k2 = closes fd k1" by (rule connect_closes [OF s2])
  show "closes fd k' = closes fd k + (if r = None \<and> fd = ans_ret a then 1 else 0)"
    using s3 c0 c1 c2 by (auto simp: bindr_eq_ok closes_sys split: if_splits)
  show "r = Some c \<Longrightarrow> cl_socketfd c = ans_ret a"
    using s3 by (auto simp: bindr_eq_ok split: if_splits)
qed

text \<open>An attempt for which not even a socket could be made closes nothing.\<close>

lemma client_init_no_socket:
  assumes "sock_client_init ty path port k = ok (r, k')" and "sysq k = a # q" and "ans_ret a < 0"
  shows "r = None" and "closes fd k' = closes fd k"
  using assms by (auto simp: sock_client_init_def Let_def bindr_eq_ok sys_def closes_def)

section \<open>The connecting loop\<close>

text \<open>It is left with a live connection, or because the thread is to stop.\<close>

lemma connect_loop_result:
  assumes "connect_loop ws sc k = ok (conn, ws', sc', k')"
  shows "(conn \<longrightarrow> m_client sc' \<noteq> None) \<and> (\<not> conn \<longrightarrow> False \<in> set ws) \<and>
     (\<exists>used. ws = used @ ws') \<and> sc' = sc\<lparr>m_client := m_client sc'\<rparr>"
  using assms
proof (induction ws arbitrary: sc k)
  case Nil
  then show ?case by (auto split: if_splits)
next
  case (Cons w ws)
  show ?case
  proof (cases "m_client sc")
    case (Some c)
    with Cons.prems show ?thesis by auto
  next
    case None
    with Cons.prems obtain c k1 where
      s: "(if \<not> w then ok (False, ws, sc\<lparr>m_client := c\<rparr>, k1) else connect_loop ws (sc\<lparr>m_client := c\<rparr>) k1) = ok (conn, ws', sc', k')"
      by (fastforce simp: bindr_eq_ok Let_def)
    show ?thesis
    proof (cases w)
      case True
      with s have "connect_loop ws (sc\<lparr>m_client := c\<rparr>) k1 = ok (conn, ws', sc', k')" by simp
      from Cons.IH [OF this] show ?thesis by (auto intro: exI [of _ "w # _"])
    next
      case False
      with s show ?thesis by auto
    qed
  qed
qed

end
