(* ===== verification/Fd_Passing.thy ===== *)
theory Fd_Passing
  imports Sock_Client
begin

text \<open>
  Passing file descriptors over a UNIX socket, in \<open>sock_server.cpp\<close> and \<open>sock_client.cpp\<close>, and the
  address query of the server. The control buffer is a variable-length array of exactly the size
  needed for the descriptors, so a control header is always there on the sending side. The 16
  bytes of carrier data that go with the descriptors are not looked at by either side and are left out.
\<close>

section \<open>Sending\<close>

text \<open>Reading the \<open>fdlen\<close> descriptors from the caller's array.\<close>

definition read_fds :: "int list \<Rightarrow> nat \<Rightarrow> int list run" where
  "read_fds pfd fdlen = (if fdlen \<le> length pfd then ok (take fdlen pfd) else fault Array_Index)"

definition sock_server_send_fd ::
  "sock_server_t option \<Rightarrow> sock_client_proxy_t option \<Rightarrow> int list \<Rightarrow> nat \<Rightarrow> kern \<Rightarrow> (int \<times> kern) run" where
  "sock_server_send_fd server sender pfd fdlen k = (case server of None \<Rightarrow> ok (-1, k)
     | Some sv \<Rightarrow>
         bindr (read_fds pfd fdlen) (\<lambda>p_fds.
         case sender of None \<Rightarrow> fault Null_Deref
         | Some c \<Rightarrow>
             bindr (arr_get (client_slots sv) (proxy_id c)) (\<lambda>fd.
             bindr (sys (Sys_sendmsg fd p_fds) k) (\<lambda>(a, k).
             ok (if ans_ret a < 0 then -1 else 0, k)))))"

text \<open>The client repeats the call while it is interrupted or would block, without a pause.\<close>

partial_function (option) sendmsg_retry :: "int \<Rightarrow> int list \<Rightarrow> kern \<Rightarrow> (int \<times> kern) run" where
  "sendmsg_retry fd fds k =
     bindr (sys (Sys_sendmsg fd fds) k) (\<lambda>(a, k).
     if ans_ret a < 0 \<and> (errno k = EINTR \<or> errno k = EAGAIN) then sendmsg_retry fd fds k
     else ok (ans_ret a, k))"

definition sock_client_send_fd :: "sock_client_t option \<Rightarrow> int list \<Rightarrow> nat \<Rightarrow> kern \<Rightarrow> (int \<times> kern) run" where
  "sock_client_send_fd client pfd fdlen k = (case client of None \<Rightarrow> ok (-1, k)
     | Some c \<Rightarrow>
         bindr (read_fds pfd fdlen) (\<lambda>p_fds.
         bindr (sendmsg_retry (cl_socketfd c) p_fds k) (\<lambda>(count, k).
         ok (if count < 0 then -1 else 0, k))))"

section \<open>Receiving\<close>

text \<open>
  The data area of the control buffer before the call: its first entry is set to \<open>-1\<close>, the others
  hold what was on the stack. The kernel overwrites as many entries as it passes descriptors; it
  passes at most as many as fit. With room for no descriptor at all the \<open>-1\<close> is written behind
  the buffer. Without a control message there is no header in the buffer.
\<close>

definition control_area :: "int list \<Rightarrow> nat \<Rightarrow> int list run" where
  "control_area junk fdlen = (if fdlen = 0 then fault Array_Index else ok (take fdlen ((-1) # junk)))"

definition control_after :: "int list \<Rightarrow> sysans \<Rightarrow> int list" where
  "control_after area a = (let fds = take (length area) (ans_fds a) in fds @ drop (length fds) area)"

definition copy_fds :: "int list \<Rightarrow> int list \<Rightarrow> nat \<Rightarrow> int list run" where
  "copy_fds pfd p_fds fdlen =
     (if fdlen \<le> length pfd then ok (take fdlen p_fds @ drop fdlen pfd) else fault Array_Index)"

definition take_rights :: "sysans \<Rightarrow> int list \<Rightarrow> int list \<Rightarrow> nat \<Rightarrow> kern \<Rightarrow> (int \<times> int list \<times> kern) run" where
  "take_rights a area pfd fdlen k =
     (if ans_ret a < 0 then ok (-1, pfd, k)
      else if ans_fds a = [] then ok (-1, pfd, k)
      else bindr (copy_fds pfd (control_after area a) fdlen) (\<lambda>pfd. ok (0, pfd, k)))"

definition sock_server_recv_fd ::
  "int list \<Rightarrow> sock_server_t option \<Rightarrow> sock_client_proxy_t option \<Rightarrow> int list \<Rightarrow> nat \<Rightarrow> kern
     \<Rightarrow> (int \<times> int list \<times> kern) run" where
  "sock_server_recv_fd junk server receiver pfd fdlen k = (case server of None \<Rightarrow> ok (-1, pfd, k)
     | Some sv \<Rightarrow>
         bindr (control_area junk fdlen) (\<lambda>area.
         case receiver of None \<Rightarrow> fault Null_Deref
         | Some c \<Rightarrow>
             bindr (arr_get (client_slots sv) (proxy_id c)) (\<lambda>fd.
             bindr (sys (Sys_recvmsg fd) k) (\<lambda>(a, k).
             take_rights a area pfd fdlen k))))"

partial_function (option) recvmsg_retry :: "int \<Rightarrow> kern \<Rightarrow> (sysans \<times> kern) run" where
  "recvmsg_retry fd k =
     bindr (sys (Sys_recvmsg fd) k) (\<lambda>(a, k).
     if ans_ret a < 0 \<and> (errno k = EINTR \<or> errno k = EAGAIN) then recvmsg_retry fd k
     else ok (a, k))"

definition sock_client_recv_fd ::
  "int list \<Rightarrow> sock_client_t option \<Rightarrow> int list \<Rightarrow> nat \<Rightarrow> kern \<Rightarrow> (int \<times> int list \<times> kern) run" where
  "sock_client_recv_fd junk client pfd fdlen k = (case client of None \<Rightarrow> ok (-1, pfd, k)
     | Some c \<Rightarrow>
         bindr (control_area junk fdlen) (\<lambda>area.
         bindr (recvmsg_retry (cl_socketfd c) k) (\<lambda>(a, k).
         take_rights a area pfd fdlen k)))"

section \<open>The address of the server\<close>

definition IFNAMSIZ :: nat where "IFNAMSIZ = 16"

definition sock_server_get_addr ::
  "sock_server_t option \<Rightarrow> string \<Rightarrow> kern \<Rightarrow> (string \<times> sock_server_t option \<times> kern) run" where
  "sock_server_get_addr server ifname k = (case server of None \<Rightarrow> ok ([], None, k)
     | Some sv \<Rightarrow>
         (if srv_type sv \<noteq> SOCK_CONN_TYPE_INET_SOCK then ok (srv_path sv, Some sv, k)
          else
            let sv = sv\<lparr>srv_path := []\<rparr>;
                ifr_name = (if length ifname > IFNAMSIZ - 1 then [] else ifname) in
            bindr (sys (Sys_ifaddr (socketfd sv) ifr_name) k) (\<lambda>(a, k).
            let sv = (if ans_ret a < 0 then sv
                      else if length (ans_str a) > SOCK_MAX_PATH_LEN - 1 then sv
                      else sv\<lparr>srv_path := ans_str a\<rparr>) in
            ok (srv_path sv, Some sv, k))))"

section \<open>What is handed over\<close>

text \<open>The retry loops, as a search through the recorded answers.\<close>

fun retry_answers :: "sysans list \<Rightarrow> (nat \<times> sysans) option" where
  "retry_answers [] = None"
| "retry_answers (a # as) =
     (if ans_ret a < 0 \<and> retry_errno (ans_errno a) then map_option (\<lambda>(n, b). (Suc n, b)) (retry_answers as)
      else Some (0, a))"

lemma sys_Cons:
  "sysq k = a # as \<Longrightarrow> sys c k = ok (a, k\<lparr>sysq := as, calls := calls k @ [c],
     errno := (if ans_ret a < 0 then ans_errno a else errno k)\<rparr>)"
  by (simp add: sys_def)

lemma recvmsg_retry_eq:
  "sysq k = as \<Longrightarrow> (case retry_answers as of None \<Rightarrow> recvmsg_retry fd k = None
     | Some (n, a) \<Rightarrow> \<exists>k'. recvmsg_retry fd k = ok (a, k') \<and> sysq k' = drop (Suc n) as \<and>
         calls k' = calls k @ replicate (Suc n) (Sys_recvmsg fd))"
proof (induction as arbitrary: k)
  case Nil
  then show ?case by (simp add: recvmsg_retry.simps [of fd k] sys_def)
next
  case (Cons a as)
  let ?k = "k\<lparr>sysq := as, calls := calls k @ [Sys_recvmsg fd], errno := (if ans_ret a < 0 then ans_errno a else errno k)\<rparr>"
  have IH: "case retry_answers as of None \<Rightarrow> recvmsg_retry fd ?k = None
     | Some (n, a) \<Rightarrow> \<exists>k'. recvmsg_retry fd ?k = ok (a, k') \<and> sysq k' = drop (Suc n) as \<and>
         calls k' = calls ?k @ replicate (Suc n) (Sys_recvmsg fd)"
    by (rule Cons.IH) simp
  show ?case
    using IH by (subst (1 2) recvmsg_retry.simps)
      (auto simp: sys_Cons [OF Cons.prems] simp flip: retry_errno_def split: option.splits)
qed

text \<open>When the kernel passes all the descriptors asked for, the caller's array holds them.\<close>

lemma take_rights_all:
  assumes "0 \<le> ans_ret a" and "length (ans_fds a) = fdlen" and "0 < fdlen" and "fdlen \<le> length pfd"
    and "length area = fdlen"
  shows "take_rights a area pfd fdlen k = ok (0, ans_fds a @ drop fdlen pfd, k)"
  using assms by (auto simp: take_rights_def copy_fds_def control_after_def Let_def)

lemma client_recv_fd_all:
  assumes "retry_answers (sysq k) = Some (n, a)" and "0 \<le> ans_ret a" and "length (ans_fds a) = fdlen" and "0 < fdlen"
    and "fdlen \<le> length pfd" and "fdlen \<le> Suc (length junk)"
  shows "\<exists>k'. sock_client_recv_fd junk (Some c) pfd fdlen k = ok (0, ans_fds a @ drop fdlen pfd, k') \<and>
    calls k' = calls k @ replicate (Suc n) (Sys_recvmsg (cl_socketfd c))"
  using recvmsg_retry_eq [of k "sysq k" "cl_socketfd c"] assms
  by (auto simp: sock_client_recv_fd_def control_area_def take_rights_all)

text \<open>When it passes fewer, the call still succeeds and hands out what the buffer held before.\<close>

lemma take_rights_short:
  assumes "0 \<le> ans_ret a" and "ans_fds a = [f]"
  shows "take_rights a [-1, j] [x, y] 2 k = ok (0, [f, j], k)"
  using assms by (simp add: take_rights_def copy_fds_def control_after_def Let_def)

end
