(* ===== verification/Mutexes.thy ===== *)
theory Mutexes
  imports Prelude
begin

text \<open>
  Mutexes: the operations of \<open>std::mutex\<close> the sources call, and the classes \<open>Mutex\<close> and \<open>AutoMutex\<close> of
  \<open>cg_mutex.h\<close> on top of them. The state of all mutexes of a program is a map from mutexes to the
  threads that hold them. A thread that waits for a mutex has not finished its call (\<open>None\<close>).
\<close>

type_synonym ('m, 't) locks = "'m \<Rightarrow> 't option"

section \<open>std::mutex\<close>

definition mutex_lock :: "'t \<Rightarrow> 'm \<Rightarrow> ('m, 't) locks \<Rightarrow> ('m, 't) locks run" where
  "mutex_lock t m l = (case l m of None \<Rightarrow> ok (l(m \<mapsto> t))
     | Some t' \<Rightarrow> if t' = t then fault Mutex_Misuse else None)"

definition mutex_unlock :: "'t \<Rightarrow> 'm \<Rightarrow> ('m, 't) locks \<Rightarrow> ('m, 't) locks run" where
  "mutex_unlock t m l = (if l m = Some t then ok (l(m := None)) else fault Mutex_Misuse)"

definition mutex_try_lock :: "'t \<Rightarrow> 'm \<Rightarrow> ('m, 't) locks \<Rightarrow> (bool \<times> ('m, 't) locks) run" where
  "mutex_try_lock t m l = (case l m of None \<Rightarrow> ok (True, l(m \<mapsto> t))
     | Some t' \<Rightarrow> if t' = t then fault Mutex_Misuse else ok (False, l))"

section \<open>The classes Mutex and AutoMutex\<close>

definition Mutex_lock :: "'t \<Rightarrow> 'm \<Rightarrow> ('m, 't) locks \<Rightarrow> ('m, 't) locks run" where
  "Mutex_lock t m l = mutex_lock t m l"

definition Mutex_unlock :: "'t \<Rightarrow> 'm \<Rightarrow> ('m, 't) locks \<Rightarrow> ('m, 't) locks run" where
  "Mutex_unlock t m l = mutex_unlock t m l"

definition Mutex_tryLock :: "'t \<Rightarrow> 'm \<Rightarrow> ('m, 't) locks \<Rightarrow> (bool \<times> ('m, 't) locks) run" where
  "Mutex_tryLock t m l = mutex_try_lock t m l"

definition AutoMutex_new :: "'t \<Rightarrow> 'm \<Rightarrow> ('m, 't) locks \<Rightarrow> ('m, 't) locks run" where
  "AutoMutex_new t m l = Mutex_lock t m l"

definition AutoMutex_delete :: "'t \<Rightarrow> 'm \<Rightarrow> ('m, 't) locks \<Rightarrow> ('m, 't) locks run" where
  "AutoMutex_delete t m l = Mutex_unlock t m l"

text \<open>A block with an automatic object of the class: constructed at its start, destroyed at its end.\<close>

definition with_AutoMutex ::
  "'t \<Rightarrow> 'm \<Rightarrow> (('m, 't) locks \<Rightarrow> ('a \<times> ('m, 't) locks) run) \<Rightarrow> ('m, 't) locks \<Rightarrow> ('a \<times> ('m, 't) locks) run" where
  "with_AutoMutex t m body l =
     bindr (AutoMutex_new t m l) (\<lambda>l. bindr (body l) (\<lambda>(x, l). bindr (AutoMutex_delete t m l) (\<lambda>l. ok (x, l))))"

section \<open>The contract of a mutex\<close>

locale mutex_ops =
  fixes lock unlock :: "'t \<Rightarrow> 'm \<Rightarrow> ('m, 't) locks \<Rightarrow> ('m, 't) locks run"
  assumes lock_free: "l m = None \<Longrightarrow> lock t m l = ok (l(m \<mapsto> t))"
    and lock_wait: "l m = Some t' \<Longrightarrow> t' \<noteq> t \<Longrightarrow> lock t m l = None"
    and lock_twice: "l m = Some t \<Longrightarrow> lock t m l = fault Mutex_Misuse"
    and unlock_held: "l m = Some t \<Longrightarrow> unlock t m l = ok (l(m := None))"
    and unlock_foreign: "l m \<noteq> Some t \<Longrightarrow> unlock t m l = fault Mutex_Misuse"
begin

lemma lock_eq_ok: "lock t m l = ok l' \<longleftrightarrow> l m = None \<and> l' = l(m \<mapsto> t)"
proof (cases "l m")
  case (Some t')
  then show ?thesis by (cases "t' = t") (auto simp: lock_wait lock_twice)
qed (auto simp: lock_free)

lemma unlock_eq_ok: "unlock t m l = ok l' \<longleftrightarrow> l m = Some t \<and> l' = l(m := None)"
  by (cases "l m = Some t") (auto simp: unlock_held unlock_foreign)

text \<open>A thread that does not hold the mutex already gets it or waits: it never goes wrong.\<close>

lemma lock_safe: "l m \<noteq> Some t \<Longrightarrow> safe_run (lock t m l) P \<longleftrightarrow> (l m = None \<longrightarrow> P (l(m \<mapsto> t)))"
  by (cases "l m") (auto simp: lock_free lock_wait)

lemma unlock_safe: "l m = Some t \<Longrightarrow> safe_run (unlock t m l) P \<longleftrightarrow> P (l(m := None))"
  by (simp add: unlock_held)

text \<open>
  A critical section: what the body does it does with the mutex held, and afterwards the mutexes are
  as they were, whenever the body leaves them as it found them.
\<close>

lemma critical_section:
  assumes run: "bindr (lock t m l) (\<lambda>l. bindr (body l) (\<lambda>(x, l). bindr (unlock t m l) (\<lambda>l. ok (x, l)))) = ok (y, l')"
    and body: "\<And>l1 x l2. l1 m = Some t \<Longrightarrow> body l1 = ok (x, l2) \<Longrightarrow> l2 = l1"
  shows "l m = None" and "body (l(m \<mapsto> t)) = ok (y, l(m \<mapsto> t))" and "l' = l"
proof -
  from run obtain l1 x l2 where l1: "lock t m l = ok l1" and b: "body l1 = ok (x, l2)"
    and u: "bindr (unlock t m l2) (\<lambda>l. ok (x, l)) = ok (y, l')" by (auto elim!: bindr_okE)
  from l1 have free: "l m = None" and l1': "l1 = l(m \<mapsto> t)" by (simp_all add: lock_eq_ok)
  from body [OF _ b] l1' have "l2 = l1" by simp
  with u l1' have "y = x" "l' = l1(m := None)" by (auto simp: bindr_eq_ok unlock_eq_ok)
  with free l1' b \<open>l2 = l1\<close> show "l m = None" "body (l(m \<mapsto> t)) = ok (y, l(m \<mapsto> t))" "l' = l" by auto
qed

end

interpretation std: mutex_ops mutex_lock mutex_unlock
  by unfold_locales (auto simp: mutex_lock_def mutex_unlock_def)

interpretation cg: mutex_ops Mutex_lock Mutex_unlock
  by unfold_locales (auto simp: Mutex_lock_def Mutex_unlock_def mutex_lock_def mutex_unlock_def)

interpretation auto_mutex: mutex_ops AutoMutex_new AutoMutex_delete
  by unfold_locales (auto simp: AutoMutex_new_def AutoMutex_delete_def cg.lock_free cg.lock_wait cg.lock_twice
      cg.unlock_held cg.unlock_foreign)

lemma with_AutoMutex_restores:
  assumes "with_AutoMutex t m body l = ok (y, l')"
    and "\<And>l1 x l2. l1 m = Some t \<Longrightarrow> body l1 = ok (x, l2) \<Longrightarrow> l2 = l1"
  shows "l m = None \<and> body (l(m \<mapsto> t)) = ok (y, l(m \<mapsto> t)) \<and> l' = l"
  by (intro conjI; rule auto_mutex.critical_section [OF assms(1)[unfolded with_AutoMutex_def]]; rule assms(2))

lemma try_lock_gets_or_leaves:
  "l m \<noteq> Some t \<Longrightarrow> Mutex_tryLock t m l = ok (l m = None, if l m = None then l(m \<mapsto> t) else l)"
  by (auto simp: Mutex_tryLock_def mutex_try_lock_def split: option.splits)

end
