(* ===== verification/Hal_Threads.thy ===== *)
theory Hal_Threads
  imports Sensor_System Mutexes
begin

text \<open>
  The HAL at the granularity of its mutexes. The threads are the framework's polling thread, any
  number of framework threads that make the other calls, and the listener thread of the server. Each
  thread has a program counter; a step of a thread is one lock operation, or one piece of code between
  two lock operations. Where code reads state that other threads write without holding a mutex (the
  default client, the emptiness of the buffer pool, the proxy behind a client pointer), the read is a
  step of its own. What only the listener touches (the proxy table, the client count, its sockets) is
  not cut further; \<open>m_pclient_mutex_\<close> is taken by the listener only and left out.
\<close>

section \<open>Threads and their program counters\<close>

datatype mtx = M_mutex | M_msg_queue_mtx | M_msg_pool_mtx

datatype tid = Poller | Caller nat | Listener

text \<open>
  The polling call: \<open>n\<close> is its \<open>count\<close> argument, the buffer the message it has taken. In the comments,
  what the code does next.
\<close>

datatype poller_pc =
    P_Out
  | P_Enter int                   \<comment> \<open>\<open>m_mutex.lock()\<close> of \<open>sensor_device_poll\<close>\<close>
  | P_Check int                   \<comment> \<open>the test of \<open>m_pending_sensors\<close>\<close>
  | P_Client int                  \<comment> \<open>the test for a client, and \<open>m_mutex.unlock()\<close>\<close>
  | P_Sleep int                   \<comment> \<open>the end of \<open>usleep\<close>, and \<open>m_mutex.lock()\<close>\<close>
  | P_Queue_Lock int              \<comment> \<open>the lock of \<open>m_msg_queue_mtx\<close>\<close>
  | P_Front int                   \<comment> \<open>the test of the queue: wait, or take the front and unlock\<close>
  | P_Wait int                    \<comment> \<open>inside \<open>m_msg_queue_ready_cv.wait\<close>\<close>
  | P_Wake int                    \<comment> \<open>woken up: \<open>wait\<close> locks the mutex again\<close>
  | P_Pop int                     \<comment> \<open>after \<open>wait\<close>: take the front and unlock\<close>
  | P_Relock int "byte list"      \<comment> \<open>\<open>m_mutex.lock()\<close> with a message in hand\<close>
  | P_Process int "byte list"     \<comment> \<open>the message goes into its slot\<close>
  | P_Pool_Lock int "byte list"   \<comment> \<open>the lock of \<open>m_msg_pool_mtx\<close>\<close>
  | P_Recycle int "byte list"     \<comment> \<open>the buffer goes back to the pool; unlock\<close>
  | P_Pick int                    \<comment> \<open>the reading loop, \<open>m_mutex.unlock()\<close> and the return\<close>

datatype request = R_Activate int int | R_Batch int int | R_Set_Delay int int | R_Flush int

datatype caller_pc =
    C_Out
  | C_Lock request                \<comment> \<open>\<open>m_mutex.lock()\<close>\<close>
  | C_Body request                \<comment> \<open>the change of the configuration or of the slot\<close>
  | C_Client "byte list"          \<comment> \<open>\<open>get_sock_client\<close> of \<open>sensor_device_send_config_msg\<close>\<close>
  | C_Send nat "byte list"        \<comment> \<open>\<open>send_data\<close> to that client\<close>
  | C_Unlock int                  \<comment> \<open>\<open>m_mutex.unlock()\<close> and the return\<close>

text \<open>The listener: \<open>i\<close> is an index of the client table, \<open>p\<close> the proxy there.\<close>

datatype listener_pc =
    L_Top                         \<comment> \<open>the loop condition\<close>
  | L_Conn                        \<comment> \<open>\<open>check_new_connection\<close> up to the callback\<close>
  | L_Config nat                  \<comment> \<open>\<open>client_connected_callback\<close>: loop test and \<open>m_mutex.lock()\<close>\<close>
  | L_Config_Client nat           \<comment> \<open>\<open>get_sock_client\<close>\<close>
  | L_Config_Send nat nat         \<comment> \<open>\<open>send_data\<close> to that client\<close>
  | L_Config_Unlock nat           \<comment> \<open>\<open>m_mutex.unlock()\<close>\<close>
  | L_Message                     \<comment> \<open>\<open>check_new_message\<close>: the \<open>select\<close>\<close>
  | L_Scan nat                    \<comment> \<open>the loop over the clients\<close>
  | L_Header nat nat              \<comment> \<open>\<open>sensor_event_callback\<close>: the header is received\<close>
  | L_Pool_Test nat nat "byte list" int   \<comment> \<open>\<open>m_msg_mem_pool.empty()\<close>\<close>
  | L_New_Lock nat nat "byte list" int    \<comment> \<open>the lock of \<open>m_msg_pool_mtx\<close>\<close>
  | L_New nat nat "byte list" int         \<comment> \<open>a new buffer; unlock\<close>
  | L_Pool_Lock nat nat "byte list" int   \<comment> \<open>the lock of \<open>m_msg_pool_mtx\<close>\<close>
  | L_Pool_Take nat nat "byte list" int   \<comment> \<open>the front buffer; unlock; the header is copied\<close>
  | L_Payload nat nat "byte list" int     \<comment> \<open>the values are received\<close>
  | L_Queue_Lock nat "byte list"          \<comment> \<open>the lock of \<open>m_msg_queue_mtx\<close>\<close>
  | L_Enqueue nat "byte list"             \<comment> \<open>the queue gets the message; notify; unlock\<close>
  | L_Drop nat nat                \<comment> \<open>\<open>sock_server_close_client\<close>\<close>
  | L_Forget nat nat              \<comment> \<open>the default client and the table entry are cleared\<close>
  | L_Choose                      \<comment> \<open>a new default client\<close>
  | L_Quit                        \<comment> \<open>the thread has ended\<close>

text \<open>The destructor: \<open>stop\<close> has been called and \<open>join\<close> waits; everything is deleted.\<close>

datatype closer_pc = K_Open | K_Joining | K_Closed

record threads =
  t_dev :: SensorDevice
  t_srv :: SockServer
  mutexes :: "(mtx, tid) locks"
  poller :: poller_pc
  callers :: "nat \<Rightarrow> caller_pc"
  listening :: listener_pc
  lkern :: kern
  closer :: closer_pc

section \<open>Lock operations\<close>

definition acquire :: "tid \<Rightarrow> mtx \<Rightarrow> threads \<Rightarrow> threads run" where
  "acquire t m s = bindr (mutex_lock t m (mutexes s)) (\<lambda>l. ok (s\<lparr>mutexes := l\<rparr>))"

definition release :: "tid \<Rightarrow> mtx \<Rightarrow> threads \<Rightarrow> threads run" where
  "release t m s = bindr (mutex_unlock t m (mutexes s)) (\<lambda>l. ok (s\<lparr>mutexes := l\<rparr>))"

section \<open>The polling thread\<close>

text \<open>Taking the front of the queue and unlocking it.\<close>

definition take_front :: "int \<Rightarrow> threads \<Rightarrow> threads run" where
  "take_front n s = (case m_sensor_msg_queue (t_dev s) of [] \<Rightarrow> fault Empty_Front
     | buf # q \<Rightarrow> bindr (release Poller M_msg_queue_mtx (s\<lparr>t_dev := (t_dev s)\<lparr>m_sensor_msg_queue := q\<rparr>\<rparr>)) (\<lambda>s.
         ok (s\<lparr>poller := P_Relock n buf\<rparr>)))"

fun poller_step :: "sensors_h \<Rightarrow> int \<times> int \<Rightarrow> poller_pc \<Rightarrow> threads \<Rightarrow> (threads \<times> answer) run" where
  "poller_step H c P_Out s = None"
| "poller_step H c (P_Enter n) s =
     bindr (acquire Poller M_mutex s) (\<lambda>s. ok (s\<lparr>poller := P_Check n\<rparr>, None))"
| "poller_step H c (P_Check n) s =
     ok (s\<lparr>poller := (if m_pending_sensors (t_dev s) = 0 then P_Client n else P_Pick n)\<rparr>, None)"
| "poller_step H c (P_Client n) s =
     bindr (release Poller M_mutex s) (\<lambda>s'.
     ok (s'\<lparr>poller := (if get_sock_client (t_srv s) = None then P_Sleep n else P_Queue_Lock n)\<rparr>, None))"
| "poller_step H c (P_Sleep n) s =
     bindr (acquire Poller M_mutex s) (\<lambda>s. ok (s\<lparr>poller := P_Client n\<rparr>, None))"
| "poller_step H c (P_Queue_Lock n) s =
     bindr (acquire Poller M_msg_queue_mtx s) (\<lambda>s. ok (s\<lparr>poller := P_Front n\<rparr>, None))"
| "poller_step H c (P_Front n) s =
     (if m_sensor_msg_queue (t_dev s) = []
      then bindr (release Poller M_msg_queue_mtx s) (\<lambda>s. ok (s\<lparr>poller := P_Wait n\<rparr>, None))
      else bindr (take_front n s) (\<lambda>s. ok (s, None)))"
| "poller_step H c (P_Wait n) s = None"
| "poller_step H c (P_Wake n) s =
     bindr (acquire Poller M_msg_queue_mtx s) (\<lambda>s. ok (s\<lparr>poller := P_Pop n\<rparr>, None))"
| "poller_step H c (P_Pop n) s = bindr (take_front n s) (\<lambda>s. ok (s, None))"
| "poller_step H c (P_Relock n buf) s =
     bindr (acquire Poller M_mutex s) (\<lambda>s. ok (s\<lparr>poller := P_Process n buf\<rparr>, None))"
| "poller_step H c (P_Process n buf) s =
     bindr (store_msg H c buf (t_dev s)) (\<lambda>(got, d).
     ok (s\<lparr>t_dev := d, poller := (if got then P_Pool_Lock n buf else P_Client n)\<rparr>, None))"
| "poller_step H c (P_Pool_Lock n buf) s =
     bindr (acquire Poller M_msg_pool_mtx s) (\<lambda>s. ok (s\<lparr>poller := P_Recycle n buf\<rparr>, None))"
| "poller_step H c (P_Recycle n buf) s =
     bindr (release Poller M_msg_pool_mtx (s\<lparr>t_dev := recycle_buffer buf (t_dev s)\<rparr>)) (\<lambda>s.
     ok (s\<lparr>poller := P_Pick n\<rparr>, None))"
| "poller_step H c (P_Pick n) s =
     bindr (pick_loop H (nat n) 0 [] (t_dev s)) (\<lambda>(result, evs, d).
     bindr (release Poller M_mutex (s\<lparr>t_dev := d\<rparr>)) (\<lambda>s.
     ok (s\<lparr>poller := P_Out\<rparr>, Some (result, evs))))"

section \<open>The other calls of the framework\<close>

text \<open>What a call does before it locks \<open>m_mutex\<close>: all but the flush look up their handle.\<close>

fun begin_call :: "sensors_h \<Rightarrow> request \<Rightarrow> caller_pc \<times> answer" where
  "begin_call H (R_Flush h) = (C_Lock (R_Flush h), None)"
| "begin_call H (R_Activate h en) =
     (if get_type_from_hanle H h < 0 then (C_Out, Some (- EINVAL, [])) else (C_Lock (R_Activate h en), None))"
| "begin_call H (R_Batch h ns) =
     (if get_type_from_hanle H h < 0 then (C_Out, Some (- EINVAL, [])) else (C_Lock (R_Batch h ns), None))"
| "begin_call H (R_Set_Delay h ns) =
     (if get_type_from_hanle H h < 0 then (C_Out, Some (- EINVAL, [])) else (C_Lock (R_Set_Delay h ns), None))"

definition change_config ::
  "int \<Rightarrow> (sensor_config_msg_t \<Rightarrow> sensor_config_msg_t) \<Rightarrow> SensorDevice \<Rightarrow> (sensor_config_msg_t \<times> SensorDevice) run" where
  "change_config h f d =
     bindr (arr_get (m_sensor_config_status d) h) (\<lambda>c.
     bindr (arr_set (m_sensor_config_status d) h (f c)) (\<lambda>cs. ok (f c, d\<lparr>m_sensor_config_status := cs\<rparr>)))"

text \<open>The body of a call under \<open>m_mutex\<close>, up to the point where it may send a message.\<close>

fun call_body :: "sensors_h \<Rightarrow> request \<Rightarrow> SensorDevice \<Rightarrow> (caller_pc \<times> SensorDevice) run" where
  "call_body H (R_Activate h en) d =
     bindr (change_config h (\<lambda>c. c\<lparr>cfg_sensor_type := get_type_from_hanle H h, cfg_enabled := en\<rparr>) d) (\<lambda>(c, d).
     ok (if en = 0 then C_Client (config_bytes c) else C_Unlock 0, d))"
| "call_body H (R_Batch h ns) d =
     bindr (change_config h (\<lambda>c. c\<lparr>cfg_sensor_type := get_type_from_hanle H h, cfg_enabled := 1,
       cfg_sample_period := period_ms ns\<rparr>) d) (\<lambda>(c, d). ok (C_Client (config_bytes c), d))"
| "call_body H (R_Set_Delay h ns) d =
     bindr (change_config h (\<lambda>c. c\<lparr>cfg_sensor_type := get_type_from_hanle H h, cfg_enabled := 1,
       cfg_sample_period := period_ms ns\<rparr>) d) (\<lambda>(c, d). ok (C_Client (config_bytes c), d))"
| "call_body H (R_Flush h) d = bindr (sensor_device_flush H h d) (\<lambda>(r, d). ok (C_Unlock r, d))"

text \<open>\<open>sensor_device_send_config_msg\<close> once it has its client: \<open>send_data\<close> with its default mode and timeout.\<close>

definition send_config :: "SockServer \<Rightarrow> nat \<Rightarrow> byte list \<Rightarrow> kern \<Rightarrow> (int \<times> kern) run" where
  "send_config ss p msg k =
     bindr (SockServer_send_data ss (Some p) msg (int (length msg)) SOCK_TIMEOUT_MODE 5 k) (\<lambda>(ret, k).
     ok (if ret < 0 then - errno k else ret, k))"

fun caller_step :: "sensors_h \<Rightarrow> nat \<Rightarrow> kern \<Rightarrow> caller_pc \<Rightarrow> threads \<Rightarrow> (threads \<times> answer) run" where
  "caller_step H i k C_Out s = None"
| "caller_step H i k (C_Lock r) s =
     bindr (acquire (Caller i) M_mutex s) (\<lambda>s. ok (s\<lparr>callers := (callers s)(i := C_Body r)\<rparr>, None))"
| "caller_step H i k (C_Body r) s =
     bindr (call_body H r (t_dev s)) (\<lambda>(goto, d). ok (s\<lparr>t_dev := d, callers := (callers s)(i := goto)\<rparr>, None))"
| "caller_step H i k (C_Client msg) s =
     ok (s\<lparr>callers := (callers s)(i := (case get_sock_client (t_srv s) of None \<Rightarrow> C_Unlock 0 | Some p \<Rightarrow> C_Send p msg))\<rparr>, None)"
| "caller_step H i k (C_Send p msg) s =
     bindr (send_config (t_srv s) p msg k) (\<lambda>(ret, k).
     ok (s\<lparr>callers := (callers s)(i := C_Unlock (if ret < 0 then - errno k else 0))\<rparr>, None))"
| "caller_step H i k (C_Unlock r) s =
     bindr (release (Caller i) M_mutex s) (\<lambda>s. ok (s\<lparr>callers := (callers s)(i := C_Out)\<rparr>, Some (r, [])))"

section \<open>The listener thread\<close>

text \<open>\<open>check_new_connection\<close> up to the callback; \<open>True\<close> if a client was entered.\<close>

definition accept_client :: "SockServer \<Rightarrow> kern \<Rightarrow> (nat option \<times> SockServer \<times> kern) run" where
  "accept_client ss k =
     bindr (sock_server_has_newconn (m_server ss) (m_connection_timeout_ms ss) k) (\<lambda>(has, k).
     if \<not> has then ok (None, ss, k) else
     bindr (sock_server_create_client (m_server ss) (proxies ss) k) (\<lambda>(client, sv, h, k).
     let ss = ss\<lparr>m_server := sv, proxies := h\<rparr> in
     case client of None \<Rightarrow> ok (None, ss, k) | Some p \<Rightarrow> bindr (enter_client p ss) (\<lambda>ss. ok (Some p, ss, k))))"

text \<open>One turn of the loop over the client table, up to what it does for the client.\<close>

definition visit_client :: "nat \<Rightarrow> SockServer \<Rightarrow> kern \<Rightarrow> (listener_pc \<times> kern) run" where
  "visit_client i ss k =
     bindr (arr_get (m_clients ss) (int i)) (\<lambda>entry.
     case entry of None \<Rightarrow> ok (L_Scan (Suc i), k)
     | Some p \<Rightarrow>
         bindr (deref_proxy (proxies ss) p) (\<lambda>c.
         bindr (sock_server_check_connect (m_server ss) (Some c) k) (\<lambda>(st, k).
         ok (case st of readable \<Rightarrow> L_Header i p | disconnect \<Rightarrow> L_Drop i p | normal \<Rightarrow> L_Scan (Suc i), k))))"

text \<open>The first receive of \<open>sensor_event_callback\<close>; an unusable header ends the callback.\<close>

definition receive_header ::
  "sensors_h \<Rightarrow> u64 \<times> u64 \<Rightarrow> SockServer \<Rightarrow> nat \<Rightarrow> kern \<Rightarrow> ((byte list \<times> int) option \<times> kern) run" where
  "receive_header H junk ss p k =
     bindr (SockServer_recv_data ss (Some p) (stack_header junk) 0 (int SIZEOF_AIC_EVENT) SOCK_BLOCK_MODE 5 k) (\<lambda>(len, hdr, k).
     if len \<le> 0 then ok (None, k) else
     bindr (load32 hdr 0) (\<lambda>ty.
     let payload_len = get_payload_len H (sint ty) in
     ok (if payload_len = 0 then None else Some (hdr, payload_len), k)))"

text \<open>\<open>notify_all\<close>: the polling thread may leave its wait.\<close>

fun notified :: "poller_pc \<Rightarrow> poller_pc" where
  "notified (P_Wait n) = P_Wake n"
| "notified at_pc = at_pc"

fun listener_step :: "sensors_h \<Rightarrow> u64 \<times> u64 \<Rightarrow> listener_pc \<Rightarrow> threads \<Rightarrow> threads run" where
  "listener_step H junk L_Top s =
     ok (s\<lparr>listening := (if m_be_working (t_srv s) \<and> m_server (t_srv s) \<noteq> None then L_Conn else L_Quit)\<rparr>)"
| "listener_step H junk L_Conn s =
     bindr (accept_client (t_srv s) (lkern s)) (\<lambda>(client, ss, k).
     ok (s\<lparr>t_srv := ss, lkern := k, listening := (if client = None then L_Message else L_Config 0)\<rparr>))"
| "listener_step H junk (L_Config i) s =
     (if i < MAX_NUM_SENSORS
      then bindr (acquire Listener M_mutex s) (\<lambda>s. ok (s\<lparr>listening := L_Config_Client i\<rparr>))
      else ok (s\<lparr>listening := L_Message\<rparr>))"
| "listener_step H junk (L_Config_Client i) s =
     ok (s\<lparr>listening := (case get_sock_client (t_srv s) of None \<Rightarrow> L_Config_Unlock i | Some p \<Rightarrow> L_Config_Send i p)\<rparr>)"
| "listener_step H junk (L_Config_Send i p) s =
     bindr (arr_get (m_sensor_config_status (t_dev s)) (int i)) (\<lambda>c.
     bindr (send_config (t_srv s) p (config_bytes c) (lkern s)) (\<lambda>(_, k).
     ok (s\<lparr>lkern := k, listening := L_Config_Unlock i\<rparr>)))"
| "listener_step H junk (L_Config_Unlock i) s =
     bindr (release Listener M_mutex s) (\<lambda>s. ok (s\<lparr>listening := L_Config (Suc i)\<rparr>))"
| "listener_step H junk L_Message s =
     bindr (sock_server_clients_readable (m_server (t_srv s)) (m_client_status_check_timeout (t_srv s)) (lkern s)) (\<lambda>(rd, sv, k).
     ok (s\<lparr>t_srv := (t_srv s)\<lparr>m_server := sv\<rparr>, lkern := k, listening := (if rd then L_Scan 0 else L_Top)\<rparr>))"
| "listener_step H junk (L_Scan i) s =
     (if i < MAX_CLIENTS
      then bindr (visit_client i (t_srv s) (lkern s)) (\<lambda>(goto, k). ok (s\<lparr>lkern := k, listening := goto\<rparr>))
      else ok (s\<lparr>listening := L_Choose\<rparr>))"
| "listener_step H junk (L_Header i p) s =
     bindr (receive_header H junk (t_srv s) p (lkern s)) (\<lambda>(r, k).
     ok (s\<lparr>lkern := k, listening := (case r of None \<Rightarrow> L_Scan (Suc i) | Some (hdr, len) \<Rightarrow> L_Pool_Test i p hdr len)\<rparr>))"
| "listener_step H junk (L_Pool_Test i p hdr len) s =
     ok (s\<lparr>listening := (if m_msg_mem_pool (t_dev s) = [] then L_New_Lock i p hdr len else L_Pool_Lock i p hdr len)\<rparr>)"
| "listener_step H junk (L_New_Lock i p hdr len) s =
     bindr (acquire Listener M_msg_pool_mtx s) (\<lambda>s. ok (s\<lparr>listening := L_New i p hdr len\<rparr>))"
| "listener_step H junk (L_New i p hdr len) s =
     bindr (release Listener M_msg_pool_mtx (s\<lparr>t_dev := new_pool_buffer (t_dev s)\<rparr>)) (\<lambda>s.
     ok (s\<lparr>listening := L_Pool_Lock i p hdr len\<rparr>))"
| "listener_step H junk (L_Pool_Lock i p hdr len) s =
     bindr (acquire Listener M_msg_pool_mtx s) (\<lambda>s. ok (s\<lparr>listening := L_Pool_Take i p hdr len\<rparr>))"
| "listener_step H junk (L_Pool_Take i p hdr len) s =
     bindr (pop_pool_buffer (t_dev s)) (\<lambda>(buf, d).
     bindr (release Listener M_msg_pool_mtx (s\<lparr>t_dev := d\<rparr>)) (\<lambda>s.
     bindr (buf_write buf 0 hdr) (\<lambda>buf. ok (s\<lparr>listening := L_Payload i p buf len\<rparr>))))"
| "listener_step H junk (L_Payload i p buf len) s =
     bindr (SockServer_recv_data (t_srv s) (Some p) buf SIZEOF_AIC_EVENT len SOCK_BLOCK_MODE 5 (lkern s)) (\<lambda>(n, buf, k).
     ok (s\<lparr>lkern := k, listening := (if n \<le> 0 then L_Scan (Suc i) else L_Queue_Lock i buf)\<rparr>))"
| "listener_step H junk (L_Queue_Lock i buf) s =
     bindr (acquire Listener M_msg_queue_mtx s) (\<lambda>s. ok (s\<lparr>listening := L_Enqueue i buf\<rparr>))"
| "listener_step H junk (L_Enqueue i buf) s =
     bindr (release Listener M_msg_queue_mtx (s\<lparr>t_dev := enqueue_msg buf (t_dev s), poller := notified (poller s)\<rparr>)) (\<lambda>s.
     ok (s\<lparr>listening := L_Scan (Suc i)\<rparr>))"
| "listener_step H junk (L_Drop i p) s =
     bindr (sock_server_close_client (m_server (t_srv s)) (Some p) (proxies (t_srv s)) (lkern s)) (\<lambda>(sv, h, k).
     ok (s\<lparr>t_srv := (t_srv s)\<lparr>m_server := sv, proxies := h\<rparr>, lkern := k, listening := L_Forget i p\<rparr>))"
| "listener_step H junk (L_Forget i p) s =
     bindr (forget_client i p (t_srv s)) (\<lambda>(r, ss).
     ok (s\<lparr>t_srv := ss, listening := (if r = None then L_Scan (Suc i) else L_Top)\<rparr>))"
| "listener_step H junk L_Choose s = ok (s\<lparr>t_srv := choose_default (t_srv s), listening := L_Top\<rparr>)"
| "listener_step H junk L_Quit s = None"

section \<open>The destructor\<close>

text \<open>\<open>join\<close> returns when the listener has ended; one that was never started counts as ended.\<close>

definition SockServer_join :: "threads \<Rightarrow> threads run" where
  "SockServer_join s = (if listening s \<noteq> L_Quit then None else ok s)"

fun closer_step :: "kern \<Rightarrow> closer_pc \<Rightarrow> threads \<Rightarrow> threads run" where
  "closer_step k K_Open s = ok (s\<lparr>t_srv := SockServer_stop (t_srv s), closer := K_Joining\<rparr>)"
| "closer_step k K_Joining s =
     bindr (SockServer_join s) (\<lambda>s.
     bindr (SockServer_delete (t_srv s) k) (\<lambda>(ss, _). ok (s\<lparr>t_srv := ss, closer := K_Closed\<rparr>)))"
| "closer_step k K_Closed s = None"

section \<open>Interleaving\<close>

text \<open>
  An action names the thread that moves, with what it gets from outside: the arguments of a call, the
  clock, the kernel. \<open>T_Kernel\<close> is the kernel's own move on the listener's sockets (more bytes,
  more answers); \<open>T_Spurious\<close> a wake-up of the condition variable that nobody asked for.
\<close>

datatype act =
    T_Poll int
  | T_Poller "int \<times> int"
  | T_Call nat request
  | T_Caller nat kern
  | T_Listener "u64 \<times> u64"
  | T_Kernel kern
  | T_Spurious
  | T_Close kern

text \<open>An action that cannot happen in a state, like a step of a thread that waits for a mutex, is \<open>None\<close>.\<close>

fun texec :: "sensors_h \<Rightarrow> act \<Rightarrow> threads \<Rightarrow> (threads \<times> answer) run" where
  "texec H (T_Poll n) s = (if poller s \<noteq> P_Out then None
     else if n \<le> 0 then ok (s, Some (- EINVAL, [])) else ok (s\<lparr>poller := P_Enter n\<rparr>, None))"
| "texec H (T_Poller c) s = poller_step H c (poller s) s"
| "texec H (T_Call i r) s = (if callers s i \<noteq> C_Out then None
     else (case begin_call H r of (goto, a) \<Rightarrow> ok (s\<lparr>callers := (callers s)(i := goto)\<rparr>, a)))"
| "texec H (T_Caller i k) s = caller_step H i k (callers s i) s"
| "texec H (T_Listener junk) s = bindr (listener_step H junk (listening s) s) (\<lambda>s. ok (s, None))"
| "texec H (T_Kernel k) s = ok (s\<lparr>lkern := k\<rparr>, None)"
| "texec H T_Spurious s = (case poller s of P_Wait n \<Rightarrow> ok (s\<lparr>poller := P_Wake n\<rparr>, None) | _ \<Rightarrow> None)"
| "texec H (T_Close k) s = bindr (closer_step k (closer s) s) (\<lambda>s. ok (s, None))"

fun texec_all :: "sensors_h \<Rightarrow> act list \<Rightarrow> threads \<Rightarrow> (threads \<times> answer list) run" where
  "texec_all H [] s = ok (s, [])"
| "texec_all H (a # as) s =
     bindr (texec H a s) (\<lambda>(s, r). bindr (texec_all H as s) (\<lambda>(s, rs). ok (s, r # rs)))"

section \<open>The environment\<close>

text \<open>The proxy the listener has deleted but not yet forgotten.\<close>

fun deleted_client :: "listener_pc \<Rightarrow> nat option" where
  "deleted_client (L_Forget i p) = Some p"
| "deleted_client _ = None"

text \<open>
  What the HAL takes for granted. As in the coarser model: flushed handles are those of the list, no
  spurious wake-ups, room for one more client, descriptors below 1024. In addition: the device is closed
  when no call is under way and not used afterwards; and the client does not go away at the wrong
  moment, which is when a framework thread is about to send to it, or asks for the default client
  between its deletion and the clearing of the pointer. No mutex excludes the latter two.
\<close>

fun env_fine :: "act \<Rightarrow> threads \<Rightarrow> bool" where
  "env_fine (T_Poll n) s = (closer s = K_Open)"
| "env_fine (T_Poller c) s = True"
| "env_fine (T_Call i r) s = (closer s = K_Open \<and> (\<forall>h. r = R_Flush h \<longrightarrow> 0 \<le> h \<and> h < int MAX_NUM_SENSORS))"
| "env_fine (T_Caller i k) s = (fd_ok k \<and> (\<forall>msg p. callers s i = C_Client msg \<and> deleted_client (listening s) = Some p
     \<longrightarrow> get_sock_client (t_srv s) \<noteq> Some p))"
| "env_fine (T_Listener junk) s = ((listening s = L_Conn \<longrightarrow> m_ncount (t_srv s) < int MAX_CLIENTS) \<and>
     (\<forall>i p j msg. listening s = L_Drop i p \<longrightarrow> callers s j \<noteq> C_Send p msg))"
| "env_fine (T_Kernel k) s = fd_ok k"
| "env_fine T_Spurious s = False"
| "env_fine (T_Close k) s = (poller s = P_Out \<and> (\<forall>i. callers s i = C_Out))"

inductive tstep :: "sensors_h \<Rightarrow> threads \<Rightarrow> act \<Rightarrow> answer \<Rightarrow> threads \<Rightarrow> bool" for H where
  tstep: "env_fine a s \<Longrightarrow> texec H a s = ok (s', r) \<Longrightarrow> tstep H s a r s'"

inductive_cases tstepE: "tstep H s a r s'"

definition threads_init :: "sensors_h \<Rightarrow> sensors_event_t list \<Rightarrow> int option \<Rightarrow> SockServer \<Rightarrow> kern \<Rightarrow> threads" where
  "threads_init H junk trace ss k =
     \<lparr>t_dev = SensorDevice_new H junk trace, t_srv = ss, mutexes = Map.empty, poller = P_Out,
      callers = (\<lambda>_. C_Out), listening = (if m_thread ss then L_Top else L_Quit), lkern = k, closer = K_Open\<rparr>"

inductive treachable :: "sensors_h \<Rightarrow> threads \<Rightarrow> bool" for H where
  init: "length junk = MAX_NUM_SENSORS \<Longrightarrow> \<forall>e \<in> set junk. length (ev_data e) = EVENT_WORDS \<Longrightarrow>
     trace \<noteq> Some 0 \<Longrightarrow> server_inv ss \<Longrightarrow> fd_ok k \<Longrightarrow> treachable H (threads_init H junk trace ss k)"
| step: "treachable H s \<Longrightarrow> tstep H s a r s' \<Longrightarrow> treachable H s'"

end
