(* ===== verification/Thread_Safety.thy ===== *)
theory Thread_Safety
  imports Hal_Threads
begin

text \<open>
  The invariant of the interleaved HAL: who holds which mutex is determined by the program counters,
  the device and the server keep their invariants, and every program counter has an assertion on
  what its thread carries and relies on. Each thread's steps keep its own assertions and those of
  the others.
\<close>

section \<open>Who holds what\<close>

fun poller_holds :: "poller_pc \<Rightarrow> mtx set" where
  "poller_holds (P_Check n) = {M_mutex}"
| "poller_holds (P_Client n) = {M_mutex}"
| "poller_holds (P_Front n) = {M_msg_queue_mtx}"
| "poller_holds (P_Pop n) = {M_msg_queue_mtx}"
| "poller_holds (P_Process n b) = {M_mutex}"
| "poller_holds (P_Pool_Lock n b) = {M_mutex}"
| "poller_holds (P_Recycle n b) = {M_mutex, M_msg_pool_mtx}"
| "poller_holds (P_Pick n) = {M_mutex}"
| "poller_holds _ = {}"

fun caller_holds :: "caller_pc \<Rightarrow> mtx set" where
  "caller_holds C_Out = {}"
| "caller_holds (C_Lock r) = {}"
| "caller_holds _ = {M_mutex}"

fun listener_holds :: "listener_pc \<Rightarrow> mtx set" where
  "listener_holds (L_Config_Client i) = {M_mutex}"
| "listener_holds (L_Config_Send i p) = {M_mutex}"
| "listener_holds (L_Config_Unlock i) = {M_mutex}"
| "listener_holds (L_New i p hdr len) = {M_msg_pool_mtx}"
| "listener_holds (L_Pool_Take i p hdr len) = {M_msg_pool_mtx}"
| "listener_holds (L_Enqueue i buf) = {M_msg_queue_mtx}"
| "listener_holds _ = {}"

fun holds :: "threads \<Rightarrow> tid \<Rightarrow> mtx set" where
  "holds s Poller = poller_holds (poller s)"
| "holds s (Caller i) = caller_holds (callers s i)"
| "holds s Listener = listener_holds (listening s)"

definition lock_inv :: "threads \<Rightarrow> bool" where
  "lock_inv s \<longleftrightarrow> (\<forall>m t. mutexes s m = Some t \<longleftrightarrow> m \<in> holds s t)"

lemma lock_owner: "lock_inv s \<Longrightarrow> m \<in> holds s t \<Longrightarrow> mutexes s m = Some t"
  by (simp add: lock_inv_def)

lemma holds_exclusive: "lock_inv s \<Longrightarrow> m \<in> holds s t \<Longrightarrow> m \<in> holds s t' \<Longrightarrow> t' = t"
  by (metis lock_owner option.inject)

lemma acquire_safe:
  assumes "lock_inv s" and "m \<notin> holds s t"
  shows "safe_run (acquire t m s) P \<longleftrightarrow> (mutexes s m = None \<longrightarrow> P (s\<lparr>mutexes := (mutexes s)(m \<mapsto> t)\<rparr>))"
proof -
  have "mutexes s m \<noteq> Some t" using assms by (simp add: lock_inv_def)
  then show ?thesis by (simp add: acquire_def safe_run_bindr std.lock_safe)
qed

lemma release_held: "mutexes s m = Some t \<Longrightarrow> release t m s = ok (s\<lparr>mutexes := (mutexes s)(m := None)\<rparr>)"
  by (simp add: release_def std.unlock_held)

text \<open>The three ways in which a step changes who holds what.\<close>

lemma lock_inv_acquire:
  assumes "lock_inv s" and "mutexes s m = None" and "mutexes s' = (mutexes s)(m \<mapsto> t)"
    and "holds s' = (holds s)(t := insert m (holds s t))"
  shows "lock_inv s'"
proof -
  have "m \<notin> holds s t'" for t' using assms(2) lock_owner [OF assms(1), of m t'] by auto
  with assms show ?thesis by (auto simp: lock_inv_def)
qed

lemma lock_inv_release:
  assumes "lock_inv s" and "mutexes s m = Some t" and "mutexes s' = (mutexes s)(m := None)"
    and "holds s' = (holds s)(t := holds s t - {m})"
  shows "lock_inv s'"
proof -
  have "m \<notin> holds s t'" if "t' \<noteq> t" for t' using that assms(2) lock_owner [OF assms(1), of m t'] by auto
  with assms show ?thesis by (auto simp: lock_inv_def)
qed

lemma lock_inv_same: "lock_inv s \<Longrightarrow> mutexes s' = mutexes s \<Longrightarrow> holds s' = holds s \<Longrightarrow> lock_inv s'"
  by (simp add: lock_inv_def)

lemma holds_eqI:
  "poller_holds (poller s') = f Poller \<Longrightarrow> (\<And>i. caller_holds (callers s' i) = f (Caller i)) \<Longrightarrow>
   listener_holds (listening s') = f Listener \<Longrightarrow> holds s' = f"
  by (rule ext, case_tac x) simp_all

section \<open>The assertions of the threads\<close>

fun poller_ok :: "SensorDevice \<Rightarrow> poller_pc \<Rightarrow> bool" where
  "poller_ok d P_Out = True"
| "poller_ok d (P_Enter n) = (0 < n)"
| "poller_ok d (P_Check n) = (0 < n)"
| "poller_ok d (P_Client n) = (0 < n)"
| "poller_ok d (P_Sleep n) = (0 < n)"
| "poller_ok d (P_Queue_Lock n) = (0 < n)"
| "poller_ok d (P_Front n) = (0 < n)"
| "poller_ok d (P_Wait n) = (0 < n \<and> m_sensor_msg_queue d = [])"
| "poller_ok d (P_Wake n) = (0 < n \<and> m_sensor_msg_queue d \<noteq> [])"
| "poller_ok d (P_Pop n) = (0 < n \<and> m_sensor_msg_queue d \<noteq> [])"
| "poller_ok d (P_Relock n b) = (0 < n \<and> length b = MSG_BUF_SIZE)"
| "poller_ok d (P_Process n b) = (0 < n \<and> length b = MSG_BUF_SIZE)"
| "poller_ok d (P_Pool_Lock n b) = (0 < n \<and> length b = MSG_BUF_SIZE \<and> m_pending_sensors d \<noteq> 0)"
| "poller_ok d (P_Recycle n b) = (0 < n \<and> length b = MSG_BUF_SIZE \<and> m_pending_sensors d \<noteq> 0)"
| "poller_ok d (P_Pick n) = (0 < n \<and> m_pending_sensors d \<noteq> 0)"

fun request_handle :: "request \<Rightarrow> int" where
  "request_handle (R_Activate h en) = h"
| "request_handle (R_Batch h ns) = h"
| "request_handle (R_Set_Delay h ns) = h"
| "request_handle (R_Flush h) = h"

definition request_ok :: "request \<Rightarrow> bool" where
  "request_ok r \<longleftrightarrow> 0 \<le> request_handle r \<and> request_handle r < int MAX_NUM_SENSORS"

fun caller_ok :: "SockServer \<Rightarrow> caller_pc \<Rightarrow> bool" where
  "caller_ok ss (C_Lock r) = request_ok r"
| "caller_ok ss (C_Body r) = request_ok r"
| "caller_ok ss (C_Client msg) = (length msg = SIZEOF_CONFIG_MSG)"
| "caller_ok ss (C_Send p msg) = (length msg = SIZEOF_CONFIG_MSG \<and> client_fd ss p \<noteq> None)"
| "caller_ok ss _ = True"

text \<open>A table entry the listener works on, and a header it has received.\<close>

definition entry :: "SockServer \<Rightarrow> nat \<Rightarrow> nat \<Rightarrow> bool" where
  "entry ss i p \<longleftrightarrow> i < MAX_CLIENTS \<and> m_clients ss ! i = Some p"

definition head_ok :: "byte list \<Rightarrow> int \<Rightarrow> bool" where
  "head_ok hdr len \<longleftrightarrow> length hdr = SIZEOF_AIC_EVENT \<and> 0 \<le> len \<and> len \<le> int MAX_SENSOR_PAYLOAD_SIZE"

fun listener_ok :: "SensorDevice \<Rightarrow> SockServer \<Rightarrow> listener_pc \<Rightarrow> bool" where
  "listener_ok d ss (L_Config_Client i) = (i < MAX_NUM_SENSORS)"
| "listener_ok d ss (L_Config_Send i p) = (i < MAX_NUM_SENSORS \<and> client_fd ss p \<noteq> None)"
| "listener_ok d ss (L_Header i p) = entry ss i p"
| "listener_ok d ss (L_Pool_Test i p hdr len) = (entry ss i p \<and> head_ok hdr len)"
| "listener_ok d ss (L_New_Lock i p hdr len) = (entry ss i p \<and> head_ok hdr len)"
| "listener_ok d ss (L_New i p hdr len) = (entry ss i p \<and> head_ok hdr len)"
| "listener_ok d ss (L_Pool_Lock i p hdr len) = (entry ss i p \<and> head_ok hdr len \<and> m_msg_mem_pool d \<noteq> [])"
| "listener_ok d ss (L_Pool_Take i p hdr len) = (entry ss i p \<and> head_ok hdr len \<and> m_msg_mem_pool d \<noteq> [])"
| "listener_ok d ss (L_Payload i p buf len) =
     (entry ss i p \<and> length buf = MSG_BUF_SIZE \<and> 0 \<le> len \<and> len \<le> int MAX_SENSOR_PAYLOAD_SIZE)"
| "listener_ok d ss (L_Queue_Lock i buf) = (length buf = MSG_BUF_SIZE)"
| "listener_ok d ss (L_Enqueue i buf) = (length buf = MSG_BUF_SIZE)"
| "listener_ok d ss (L_Drop i p) = entry ss i p"
| "listener_ok d ss (L_Forget i p) = (entry ss i p \<and> objs (proxies ss) p = None)"
| "listener_ok d ss _ = True"

text \<open>
  The server's table is consistent except between the deletion of a proxy and the clearing of its
  entry; there it is consistent once the entry is cleared.
\<close>

fun settled :: "listener_pc \<Rightarrow> SockServer \<Rightarrow> SockServer" where
  "settled (L_Forget i p) ss = ss\<lparr>m_pclient := (if m_pclient ss = Some p then None else m_pclient ss),
     m_clients := (m_clients ss)[i := None], m_ncount := m_ncount ss - 1\<rparr>"
| "settled _ ss = ss"

fun between_rounds :: "listener_pc \<Rightarrow> bool" where
  "between_rounds L_Top = True"
| "between_rounds L_Quit = True"
| "between_rounds _ = False"

definition srv_ok :: "SensorDevice \<Rightarrow> SockServer \<Rightarrow> listener_pc \<Rightarrow> bool" where
  "srv_ok d ss at_pc \<longleftrightarrow> table_inv (settled at_pc ss) \<and> listener_ok d ss at_pc \<and>
     (between_rounds at_pc \<or> m_server ss \<noteq> None)"

definition thr_inv :: "sensors_h \<Rightarrow> threads \<Rightarrow> bool" where
  "thr_inv H s \<longleftrightarrow> lock_inv s \<and> dev_inv H (t_dev s) \<and> poller_ok (t_dev s) (poller s) \<and>
     (\<forall>i. caller_ok (t_srv s) (callers s i)) \<and> fd_ok (lkern s) \<and>
     (closer s \<noteq> K_Closed \<longrightarrow> srv_ok (t_dev s) (t_srv s) (listening s)) \<and>
     (closer s \<noteq> K_Open \<longrightarrow> poller s = P_Out \<and> (\<forall>i. callers s i = C_Out)) \<and>
     (closer s = K_Closed \<longrightarrow> listening s = L_Quit)"

lemma thr_invD:
  assumes "thr_inv H s"
  shows "lock_inv s" and "dev_inv H (t_dev s)" and "poller_ok (t_dev s) (poller s)"
    and "caller_ok (t_srv s) (callers s i)" and "fd_ok (lkern s)"
    and "closer s \<noteq> K_Closed \<Longrightarrow> srv_ok (t_dev s) (t_srv s) (listening s)"
    and "poller s \<noteq> P_Out \<Longrightarrow> closer s = K_Open" and "callers s i \<noteq> C_Out \<Longrightarrow> closer s = K_Open"
    and "closer s = K_Closed \<Longrightarrow> listening s = L_Quit"
  using assms by (auto simp: thr_inv_def)

lemma listener_ok_pool:
  "listener_ok d ss at_pc \<Longrightarrow> m_msg_mem_pool d = [] \<or> m_msg_mem_pool d' \<noteq> [] \<Longrightarrow> listener_ok d' ss at_pc"
  by (cases at_pc) auto

section \<open>The polling thread\<close>

text \<open>What a step of the polling thread must establish.\<close>

lemma thr_inv_poller:
  assumes inv: "thr_inv H s" and op: "closer s = K_Open" and l: "lock_inv (s\<lparr>t_dev := d, mutexes := l, poller := at_pc\<rparr>)"
    and d: "dev_inv H d" and p: "poller_ok d at_pc"
    and pool: "m_msg_mem_pool (t_dev s) = [] \<or> m_msg_mem_pool d \<noteq> []"
  shows "thr_inv H (s\<lparr>t_dev := d, mutexes := l, poller := at_pc\<rparr>)"
  using inv op l d p listener_ok_pool [OF _ pool] by (auto simp: thr_inv_def srv_ok_def)

lemma poller_locks:
  assumes "lock_inv s"
  shows poller_lock: "mutexes s m = None \<Longrightarrow> poller_holds at_pc = insert m (poller_holds (poller s)) \<Longrightarrow>
      lock_inv (s\<lparr>t_dev := d, mutexes := (mutexes s)(m \<mapsto> Poller), poller := at_pc\<rparr>)"
    and poller_unlock: "mutexes s m = Some Poller \<Longrightarrow> poller_holds at_pc = poller_holds (poller s) - {m} \<Longrightarrow>
      lock_inv (s\<lparr>t_dev := d, mutexes := (mutexes s)(m := None), poller := at_pc\<rparr>)"
    and poller_keep: "poller_holds at_pc = poller_holds (poller s) \<Longrightarrow>
      lock_inv (s\<lparr>t_dev := d, mutexes := mutexes s, poller := at_pc\<rparr>)"
    subgoal by (rule lock_inv_acquire [OF assms]) (assumption, simp, rule holds_eqI, simp_all)
    subgoal by (rule lock_inv_release [OF assms]) (assumption, simp, rule holds_eqI, simp_all)
    subgoal by (rule lock_inv_same [OF assms]) (simp, rule holds_eqI, simp_all)
  done

text \<open>What the polling call may answer.\<close>

fun polled_ok :: "sensors_h \<Rightarrow> poller_pc \<Rightarrow> answer \<Rightarrow> bool" where
  "polled_ok H at_pc None = True"
| "polled_ok H at_pc (Some (r, evs)) =
     (\<exists>n. at_pc = P_Pick n \<and> 1 \<le> r \<and> r \<le> n \<and> r = int (length evs) \<and> list_all (event_ok H) evs)"

abbreviation poller_good :: "sensors_h \<Rightarrow> threads \<Rightarrow> threads \<times> answer \<Rightarrow> bool" where
  "poller_good H s \<equiv> \<lambda>(s', r). thr_inv H s' \<and> polled_ok H (poller s) r"

lemma poller_lock_good:
  assumes inv: "thr_inv H s" and out: "poller s \<noteq> P_Out" and m: "m \<notin> poller_holds (poller s)"
    and h: "poller_holds at_pc = insert m (poller_holds (poller s))" and p: "poller_ok (t_dev s) at_pc"
  shows "safe_run (bindr (acquire Poller m s) (\<lambda>s. ok (s\<lparr>poller := at_pc\<rparr>, None))) (poller_good H s)"
proof -
  have "thr_inv H (s\<lparr>mutexes := (mutexes s)(m \<mapsto> Poller), poller := at_pc\<rparr>)" if "mutexes s m = None"
    using thr_inv_poller [OF inv thr_invD(7) [OF inv out] poller_lock [OF thr_invD(1) [OF inv] that h, of "t_dev s"]]
      thr_invD(2) [OF inv] p by simp
  then show ?thesis using acquire_safe [OF thr_invD(1) [OF inv], of m Poller] m by (simp add: safe_run_bindr)
qed

lemma poller_unlock_good:
  assumes inv: "thr_inv H s" and out: "poller s \<noteq> P_Out" and m: "m \<in> poller_holds (poller s)"
    and h: "poller_holds at_pc = poller_holds (poller s) - {m}" and d: "dev_inv H d" and p: "poller_ok d at_pc"
    and pool: "m_msg_mem_pool (t_dev s) = [] \<or> m_msg_mem_pool d \<noteq> []"
  shows "mutexes s m = Some Poller" and "thr_inv H (s\<lparr>t_dev := d, mutexes := (mutexes s)(m := None), poller := at_pc\<rparr>)"
proof -
  show own: "mutexes s m = Some Poller" using lock_owner [OF thr_invD(1) [OF inv], of m Poller] m by simp
  show "thr_inv H (s\<lparr>t_dev := d, mutexes := (mutexes s)(m := None), poller := at_pc\<rparr>)"
    by (rule thr_inv_poller [OF inv thr_invD(7) [OF inv out] poller_unlock [OF thr_invD(1) [OF inv] own h] d p pool])
qed

lemma poller_stay_good:
  assumes inv: "thr_inv H s" and out: "poller s \<noteq> P_Out"
    and h: "poller_holds at_pc = poller_holds (poller s)" and d: "dev_inv H d" and p: "poller_ok d at_pc"
    and pool: "m_msg_mem_pool (t_dev s) = [] \<or> m_msg_mem_pool d \<noteq> []"
  shows "thr_inv H (s\<lparr>t_dev := d, poller := at_pc\<rparr>)"
  using thr_inv_poller [OF inv thr_invD(7) [OF inv out] poller_keep [OF thr_invD(1) [OF inv] h] d p pool] by simp

lemma dev_inv_pop:
  "dev_inv H d \<Longrightarrow> m_sensor_msg_queue d = b # q \<Longrightarrow> dev_inv H (d\<lparr>m_sensor_msg_queue := q\<rparr>) \<and> length b = MSG_BUF_SIZE"
  by (auto simp: dev_inv_def bufs_ok_def)

lemma take_front_good:
  assumes inv: "thr_inv H s" and at: "poller s = P_Front n \<or> poller s = P_Pop n" and ne: "m_sensor_msg_queue (t_dev s) \<noteq> []"
  shows "safe_run (bindr (take_front n s) (\<lambda>s. ok (s, None))) (poller_good H s)"
proof -
  from ne obtain b q where q: "m_sensor_msg_queue (t_dev s) = b # q" by (cases "m_sensor_msg_queue (t_dev s)") auto
  let ?d = "(t_dev s)\<lparr>m_sensor_msg_queue := q\<rparr>"
  have n: "0 < n" using thr_invD(3) [OF inv] at by auto
  have d: "dev_inv H ?d" "length b = MSG_BUF_SIZE" using dev_inv_pop [OF thr_invD(2) [OF inv] q] by simp_all
  have u: "mutexes s M_msg_queue_mtx = Some Poller"
    "thr_inv H (s\<lparr>t_dev := ?d, mutexes := (mutexes s)(M_msg_queue_mtx := None), poller := P_Relock n b\<rparr>)"
    using poller_unlock_good [OF inv, of M_msg_queue_mtx "P_Relock n b" ?d] at d n by auto
  then show ?thesis by (simp add: take_front_def q release_held)
qed


lemma pick_loop_frame:
  "pick_loop H n r evs d = ok (r', evs', d') \<Longrightarrow> m_msg_mem_pool d' = m_msg_mem_pool d \<and>
     m_sensor_msg_queue d' = m_sensor_msg_queue d \<and> m_sensor_config_status d' = m_sensor_config_status d"
proof (induction H n r evs d rule: pick_loop.induct)
  case (2 H n r evs d)
  have frame: "m_msg_mem_pool d1 = m_msg_mem_pool d \<and> m_sensor_msg_queue d1 = m_sensor_msg_queue d \<and>
      m_sensor_config_status d1 = m_sensor_config_status d"
    if "sensor_device_pick_pending_event_locked H d = ok (ret, ev, d1)" for ret ev d1
    using that unfolding sensor_device_pick_pending_event_locked_def Let_def by (auto elim!: bindr_okE split: if_splits)
  show ?case
  proof (cases "m_pending_sensors d = 0")
    case True
    with "2.prems" show ?thesis by simp
  next
    case False
    with "2.prems" obtain ret ev d1 where p: "sensor_device_pick_pending_event_locked H d = ok (ret, ev, d1)"
      and rest: "(if ret < 0 then ok (if r = 0 then ret else r, evs, d1)
        else pick_loop H n (r + 1) (evs @ (case ev of None \<Rightarrow> [] | Some e \<Rightarrow> [e])) d1) = ok (r', evs', d')"
      by (auto elim!: bindr_okE)
    show ?thesis
    proof (cases "ret < 0")
      case True
      with rest frame [OF p] show ?thesis by simp
    next
      case False
      with rest "2.IH" [OF \<open>m_pending_sensors d \<noteq> 0\<close> False] frame [OF p] show ?thesis by simp
    qed
  qed
qed simp

lemma pick_good:
  assumes hdr: "header_ok H" and inv: "thr_inv H s" and at: "poller s = P_Pick n"
  shows "safe_run (poller_step H c (P_Pick n) s) (poller_good H s)"
proof -
  from thr_invD(3) [OF inv] at have n: "0 < n" and pend: "m_pending_sensors (t_dev s) \<noteq> 0" by simp_all
  note d = thr_invD(2) [OF inv]
  from pick_loop_spec [OF hdr d, of "nat n" 0 "[]"] obtain out d' where
    o: "pick_loop H (nat n) 0 [] (t_dev s) = ok (int (length out), out, d')" "dev_inv H d'"
      "length out = min (nat n) (outstanding H (t_dev s))" "list_all (event_ok H) out" by auto
  have "0 < outstanding H (t_dev s)" using outstanding_pos [OF d] pend by simp
  with n o(3) have len: "1 \<le> int (length out)" "int (length out) \<le> n" by auto
  have "mutexes s M_mutex = Some Poller"
    "thr_inv H (s\<lparr>t_dev := d', mutexes := (mutexes s)(M_mutex := None), poller := P_Out\<rparr>)"
    using poller_unlock_good [OF inv, of M_mutex P_Out d'] at o(2) pick_loop_frame [OF o(1)] by auto
  with o(1,4) len at show ?thesis by (simp add: release_held)
qed

lemma poller_step_good:
  assumes hdr: "header_ok H" and inv: "thr_inv H s"
  shows "safe_run (poller_step H c (poller s) s) (poller_good H s)"
proof (cases "poller s")
  case (P_Check n)
  have "thr_inv H (s\<lparr>t_dev := t_dev s, poller := (if m_pending_sensors (t_dev s) = 0 then P_Client n else P_Pick n)\<rparr>)"
    by (rule poller_stay_good [OF inv]) (use thr_invD(2,3) [OF inv] P_Check in auto)
  then show ?thesis by (simp add: P_Check)
next
  case (P_Client n)
  have "mutexes s M_mutex = Some Poller"
    "thr_inv H (s\<lparr>t_dev := t_dev s, mutexes := (mutexes s)(M_mutex := None),
       poller := (if get_sock_client (t_srv s) = None then P_Sleep n else P_Queue_Lock n)\<rparr>)"
    using poller_unlock_good [OF inv, of M_mutex "if get_sock_client (t_srv s) = None then P_Sleep n else P_Queue_Lock n" "t_dev s"]
      thr_invD(2,3) [OF inv] P_Client by (auto split: if_splits)
  then show ?thesis by (simp add: P_Client release_held)
next
  case (P_Front n)
  show ?thesis
  proof (cases "m_sensor_msg_queue (t_dev s) = []")
    case True
    have "mutexes s M_msg_queue_mtx = Some Poller"
      "thr_inv H (s\<lparr>t_dev := t_dev s, mutexes := (mutexes s)(M_msg_queue_mtx := None), poller := P_Wait n\<rparr>)"
      using poller_unlock_good [OF inv, of M_msg_queue_mtx "P_Wait n" "t_dev s"] thr_invD(2,3) [OF inv] P_Front True by auto
    then show ?thesis using True by (simp add: P_Front release_held)
  next
    case False
    with take_front_good [OF inv, of n] P_Front show ?thesis by simp
  qed
next
  case (P_Pop n)
  with take_front_good [OF inv, of n] thr_invD(3) [OF inv] show ?thesis by simp
next
  case (P_Process n buf)
  with thr_invD(3) [OF inv] have b: "length buf = MSG_BUF_SIZE" "0 < n" by simp_all
  from store_msg_safe [OF hdr thr_invD(2) [OF inv] b(1), of c] obtain got d where
    st: "store_msg H c buf (t_dev s) = ok (got, d)" "dev_inv H d" "got \<longrightarrow> m_pending_sensors d \<noteq> 0"
      "m_msg_mem_pool d = m_msg_mem_pool (t_dev s)" by auto
  have "thr_inv H (s\<lparr>t_dev := d, poller := (if got then P_Pool_Lock n buf else P_Client n)\<rparr>)"
    by (rule poller_stay_good [OF inv]) (use st b P_Process in auto)
  then show ?thesis by (simp add: P_Process st(1))
next
  case (P_Recycle n buf)
  have own: "mutexes s M_msg_pool_mtx = Some Poller"
    "thr_inv H (s\<lparr>t_dev := recycle_buffer buf (t_dev s), mutexes := (mutexes s)(M_msg_pool_mtx := None), poller := P_Pick n\<rparr>)"
    using poller_unlock_good [OF inv, of M_msg_pool_mtx "P_Pick n" "recycle_buffer buf (t_dev s)"] thr_invD(2,3) [OF inv] P_Recycle
    by (auto simp: recycle_inv)
  then show ?thesis by (simp add: P_Recycle release_held)
next
  case (P_Pool_Lock n buf)
  with poller_lock_good [OF inv, of M_msg_pool_mtx "P_Recycle n buf"] thr_invD(3) [OF inv] show ?thesis
    by (simp add: insert_commute)
next
  case (P_Pick n)
  with pick_good [OF hdr inv P_Pick] show ?thesis by (simp only:)
qed (use poller_lock_good [OF inv] thr_invD(3) [OF inv] in \<open>simp_all add: thr_invD(3) [OF inv]\<close>)

section \<open>The other calls of the framework\<close>

lemma poller_ok_frame:
  "poller_ok d at_pc \<Longrightarrow> m_sensor_msg_queue d' = m_sensor_msg_queue d \<Longrightarrow>
   M_mutex \<notin> poller_holds at_pc \<Longrightarrow> poller_ok d' at_pc"
  by (cases at_pc) auto

lemma thr_inv_caller:
  assumes inv: "thr_inv H s" and op: "closer s = K_Open"
    and l: "lock_inv (s\<lparr>t_dev := d, mutexes := l, callers := (callers s)(i := at_pc)\<rparr>)"
    and d: "dev_inv H d" and c: "caller_ok (t_srv s) at_pc"
    and p: "poller_ok d (poller s)" and pool: "m_msg_mem_pool d = m_msg_mem_pool (t_dev s)"
  shows "thr_inv H (s\<lparr>t_dev := d, mutexes := l, callers := (callers s)(i := at_pc)\<rparr>)"
  using inv op l d c p listener_ok_pool [of "t_dev s" "t_srv s" "listening s" d] pool by (auto simp: thr_inv_def srv_ok_def)

lemma caller_locks:
  assumes "lock_inv s"
  shows caller_lock: "mutexes s m = None \<Longrightarrow> caller_holds at_pc = insert m (caller_holds (callers s i)) \<Longrightarrow>
      lock_inv (s\<lparr>t_dev := d, mutexes := (mutexes s)(m \<mapsto> Caller i), callers := (callers s)(i := at_pc)\<rparr>)"
    and caller_unlock: "mutexes s m = Some (Caller i) \<Longrightarrow> caller_holds at_pc = caller_holds (callers s i) - {m} \<Longrightarrow>
      lock_inv (s\<lparr>t_dev := d, mutexes := (mutexes s)(m := None), callers := (callers s)(i := at_pc)\<rparr>)"
    and caller_keep: "caller_holds at_pc = caller_holds (callers s i) \<Longrightarrow>
      lock_inv (s\<lparr>t_dev := d, mutexes := mutexes s, callers := (callers s)(i := at_pc)\<rparr>)"
    subgoal by (rule lock_inv_acquire [OF assms]) (assumption, simp, rule holds_eqI, simp_all)
    subgoal by (rule lock_inv_release [OF assms]) (assumption, simp, rule holds_eqI, simp_all)
    subgoal by (rule lock_inv_same [OF assms]) (simp, rule holds_eqI, simp_all)
  done

text \<open>The body of a call: it leaves the queue and the pool alone, and keeps the device's invariant.\<close>

lemma change_config_eq:
  assumes "dev_inv H d" and "0 \<le> h" and "h < int MAX_NUM_SENSORS"
  shows "change_config h f d = ok (f (m_sensor_config_status d ! nat h), with_config (nat h) (f (m_sensor_config_status d ! nat h)) d)"
  using assms by (simp add: change_config_def arr_get_ok arr_set_ok dev_inv_def with_config_def)

lemma with_config_frame [simp]:
  "m_msg_mem_pool (with_config h c d) = m_msg_mem_pool d" "m_sensor_msg_queue (with_config h c d) = m_sensor_msg_queue d"
  by (simp_all add: with_config_def)

lemma call_body_safe:
  assumes inv: "dev_inv H d" and r: "request_ok r"
  shows "\<exists>goto d'. call_body H r d = ok (goto, d') \<and> dev_inv H d' \<and> caller_ok ss goto \<and>
     caller_holds goto = {M_mutex} \<and> m_msg_mem_pool d' = m_msg_mem_pool d \<and> m_sensor_msg_queue d' = m_sensor_msg_queue d"
proof (cases r)
  case (R_Activate h en)
  with r have h: "0 \<le> h" "h < int MAX_NUM_SENSORS" by (simp_all add: request_ok_def)
  then show ?thesis using with_config_inv [OF inv] by (simp add: R_Activate change_config_eq [OF inv])
next
  case (R_Batch h ns)
  with r have h: "0 \<le> h" "h < int MAX_NUM_SENSORS" by (simp_all add: request_ok_def)
  then show ?thesis using with_config_inv [OF inv] by (simp add: R_Batch change_config_eq [OF inv])
next
  case (R_Set_Delay h ns)
  with r have h: "0 \<le> h" "h < int MAX_NUM_SENSORS" by (simp_all add: request_ok_def)
  then show ?thesis using with_config_inv [OF inv] by (simp add: R_Set_Delay change_config_eq [OF inv])
next
  case (R_Flush h)
  with r have "0 \<le> h \<and> h < int MAX_NUM_SENSORS" by (simp add: request_ok_def)
  then obtain i where i: "h = int i" "i < MAX_NUM_SENSORS" by (rule handle_cases)
  from flush_eq [OF inv i(2)] obtain d' where
    "sensor_device_flush H (int i) d = ok (0, d')" "m_msg_mem_pool d' = m_msg_mem_pool d" "m_sensor_msg_queue d' = m_sensor_msg_queue d"
    by (auto split: if_splits)
  with flush_inv [OF inv i(2)] R_Flush i(1) show ?thesis by auto
qed

text \<open>The default client is live outside the window in which the listener has deleted it.\<close>

lemma client_fd_cong: "m_server ss' = m_server ss \<Longrightarrow> proxies ss' = proxies ss \<Longrightarrow> client_fd ss' p = client_fd ss p"
  by (simp add: client_fd_def cong: option.case_cong)

lemma client_fd_settled: "client_fd (settled at_pc ss) p = client_fd ss p"
  by (cases at_pc; simp only: settled.simps; rule client_fd_cong; simp)

lemma default_live:
  assumes "srv_ok d ss at_pc" and p: "get_sock_client ss = Some p" and del: "deleted_client at_pc \<noteq> Some p"
  shows "client_fd ss p \<noteq> None"
proof -
  have "m_pclient (settled at_pc ss) = Some p" using p del by (cases at_pc) (auto simp: get_sock_client_def)
  with assms(1) show ?thesis
    by (metis default_client_live client_fd_settled option.distinct(1) srv_ok_def)
qed

text \<open>Sending to a live client is safe, and reports no failure.\<close>

lemma send_config_live:
  assumes live: "client_fd ss p = Some fd" and msg: "length msg = SIZEOF_CONFIG_MSG" and k: "fd_ok k"
  shows "safe_run (send_config ss p msg k) (\<lambda>(ret, k'). 0 \<le> ret \<and> fd_ok k')"
proof -
  have "SockServer_send_data ss (Some p) msg (int (length msg)) SOCK_TIMEOUT_MODE 5 k =
      send_result fd msg 0 k (push (Some 5) (length msg) (errno k) (outq k fd))"
    using send_data_timeout [OF live, of "int (length msg)" msg 5 k] msg by (simp add: SIZEOF_CONFIG_MSG_def)
  then show ?thesis using k
    by (cases "push (Some 5) (length msg) (errno k) (outq k fd)") (auto simp: send_config_def send_result_def fd_ok_def)
qed

fun called_ok :: "caller_pc \<Rightarrow> answer \<Rightarrow> bool" where
  "called_ok at_pc None = True"
| "called_ok at_pc (Some (r, evs)) = (evs = [] \<and> at_pc = C_Unlock r)"

abbreviation caller_good :: "sensors_h \<Rightarrow> nat \<Rightarrow> threads \<Rightarrow> threads \<times> answer \<Rightarrow> bool" where
  "caller_good H i s \<equiv> \<lambda>(s', r). thr_inv H s' \<and> called_ok (callers s i) r"

lemma caller_stay_good:
  assumes inv: "thr_inv H s" and out: "callers s i \<noteq> C_Out" and h: "caller_holds at_pc = caller_holds (callers s i)"
    and c: "caller_ok (t_srv s) at_pc"
  shows "thr_inv H (s\<lparr>callers := (callers s)(i := at_pc)\<rparr>)"
  using thr_inv_caller [OF inv thr_invD(8) [OF inv out] caller_keep [OF thr_invD(1) [OF inv] h] _ c, of "t_dev s"]
    thr_invD(2,3) [OF inv] by simp

lemma caller_step_good:
  assumes inv: "thr_inv H s" and env: "env_fine (T_Caller i k) s"
  shows "safe_run (caller_step H i k (callers s i) s) (caller_good H i s)"
proof (cases "callers s i")
  case (C_Lock r)
  have "thr_inv H (s\<lparr>mutexes := (mutexes s)(M_mutex \<mapsto> Caller i), callers := (callers s)(i := C_Body r)\<rparr>)"
    if "mutexes s M_mutex = None"
    using thr_inv_caller [OF inv _ caller_lock [OF thr_invD(1) [OF inv] that, of "C_Body r" i "t_dev s"]]
      thr_invD(2,3) [OF inv] thr_invD(4,8) [OF inv, of i] C_Lock by simp
  then show ?thesis using acquire_safe [OF thr_invD(1) [OF inv], of M_mutex "Caller i"]
    by (simp add: C_Lock safe_run_bindr)
next
  case (C_Body r)
  with thr_invD(4) [OF inv, of i] have "request_ok r" by simp
  from call_body_safe [OF thr_invD(2) [OF inv] this, of "t_srv s"] obtain goto d where
    b: "call_body H r (t_dev s) = ok (goto, d)" "dev_inv H d" "caller_ok (t_srv s) goto" "caller_holds goto = {M_mutex}"
      "m_msg_mem_pool d = m_msg_mem_pool (t_dev s)" "m_sensor_msg_queue d = m_sensor_msg_queue (t_dev s)" by auto
  have "M_mutex \<notin> poller_holds (poller s)"
    using holds_exclusive [OF thr_invD(1) [OF inv], of M_mutex "Caller i" Poller] C_Body by auto
  from poller_ok_frame [OF thr_invD(3) [OF inv] b(6) this] have "thr_inv H (s\<lparr>t_dev := d, callers := (callers s)(i := goto)\<rparr>)"
    using thr_inv_caller [OF inv _ caller_keep [OF thr_invD(1) [OF inv], of goto i d]] thr_invD(8) [OF inv, of i] b C_Body by simp
  then show ?thesis by (simp add: C_Body b(1))
next
  case (C_Client msg)
  let ?goto = "case get_sock_client (t_srv s) of None \<Rightarrow> C_Unlock 0 | Some p \<Rightarrow> C_Send p msg"
  have "srv_ok (t_dev s) (t_srv s) (listening s)" using thr_invD(6) [OF inv] thr_invD(8) [OF inv, of i] C_Client by simp
  then have "caller_ok (t_srv s) ?goto"
    using thr_invD(4) [OF inv, of i] env C_Client default_live [of "t_dev s" "t_srv s" "listening s"] by (auto split: option.splits)
  then have "thr_inv H (s\<lparr>callers := (callers s)(i := ?goto)\<rparr>)"
    by (intro caller_stay_good [OF inv]) (simp_all add: C_Client split: option.splits)
  then show ?thesis by (simp add: C_Client)
next
  case (C_Send p msg)
  with thr_invD(4) [OF inv, of i] obtain fd where live: "client_fd (t_srv s) p = Some fd" and m: "length msg = SIZEOF_CONFIG_MSG" by auto
  have "thr_inv H (s\<lparr>callers := (callers s)(i := C_Unlock r)\<rparr>)" for r
    by (rule caller_stay_good [OF inv]) (simp_all add: C_Send)
  moreover have "fd_ok k" using env by simp
  ultimately show ?thesis unfolding C_Send caller_step.simps safe_run_bindr
    by (intro safe_run_mono [OF send_config_live [OF live m]]) auto
next
  case (C_Unlock r)
  have "mutexes s M_mutex = Some (Caller i)" using lock_owner [OF thr_invD(1) [OF inv], of M_mutex "Caller i"] C_Unlock by simp
  moreover from this have "thr_inv H (s\<lparr>mutexes := (mutexes s)(M_mutex := None), callers := (callers s)(i := C_Out)\<rparr>)"
    using thr_inv_caller [OF inv _ caller_unlock [OF thr_invD(1) [OF inv], of M_mutex i C_Out "t_dev s"]]
      thr_invD(2,3) [OF inv] thr_invD(8) [OF inv, of i] C_Unlock by simp
  ultimately show ?thesis by (simp add: C_Unlock release_held)
qed simp

end
