(* ===== verification/Listener_Steps.thy ===== *)
theory Listener_Steps
  imports Thread_Safety
begin

text \<open>
  The steps of the listener thread keep the invariant: what they do to the client table, to the buffer
  pool and to the queue, and why the other threads' assertions survive it.
\<close>

section \<open>The server's table\<close>

lemma entry_live:
  assumes "table_inv ss" and "m_server ss = Some sv" and "entry ss i p"
  obtains c where "objs (proxies ss) p = Some c" and "proxy_id c = int i" and "client_slots sv ! i \<noteq> -1"
    and "int i < int (length (client_slots sv))" and "client_fd ss p = Some (client_slots sv ! i)"
    and "0 \<le> client_slots sv ! i" and "client_slots sv ! i < 1024"
proof -
  from assms have slots: "slots_inv ss sv" and i: "i < MAX_CLIENTS" "m_clients ss ! i = Some p"
    by (auto simp: table_inv_def entry_def)
  from slots_inv_entry [OF slots i] obtain c where
    c: "objs (proxies ss) p = Some c" "proxy_id c = int i" "client_slots sv ! i \<noteq> -1" by auto
  have i': "i < SOCK_MAX_CLIENTS" "int i < int (length (client_slots sv))"
    using slots i by (simp_all add: slots_inv_def MAX_CLIENTS_def SOCK_MAX_CLIENTS_def)
  then have "client_fd ss p = Some (client_slots sv ! i)" using c assms(2) by (simp add: client_fd_def)
  moreover have "0 \<le> client_slots sv ! i" "client_slots sv ! i < 1024" using slots i' c(3) by (auto simp: slots_inv_def)
  ultimately show thesis using that c i' by blast
qed

text \<open>Accepting a client makes no other client pointer stale.\<close>

lemma created_live:
  assumes "m_server ss = Some sv" and "created sv (proxies ss) (Some p) sv' h'"
    and "\<forall>q. objs (proxies ss) q \<noteq> None \<longrightarrow> q < next_ptr (proxies ss)" and "client_fd ss q \<noteq> None"
    and "m_server ss' = sv'" and "proxies ss' = h'"
  shows "client_fd ss' q \<noteq> None"
proof -
  from assms(1,4) obtain c where c: "objs (proxies ss) q = Some c" "0 \<le> proxy_id c" "proxy_id c < int (length (client_slots sv))"
    by (auto simp: client_fd_def split: option.splits if_splits)
  with assms(3) have "q \<noteq> next_ptr (proxies ss)" by auto
  with c assms(2,5,6) show ?thesis by (auto simp: created_def new_proxy_def client_fd_def)
qed

lemma accept_client_safe:
  assumes tab: "table_inv ss" and sv: "m_server ss = Some sv" and room: "m_ncount ss < int MAX_CLIENTS" and k: "fd_ok k"
  shows "safe_run (accept_client ss k) (\<lambda>(c, ss', k'). table_inv ss' \<and> m_server ss' \<noteq> None \<and> fd_ok k' \<and>
    (\<forall>q. client_fd ss q \<noteq> None \<longrightarrow> client_fd ss' q \<noteq> None))"
    (is "safe_run _ ?Q")
proof -
  have small: "sock_server_find_empty_slot sv < MAX_CLIENTS" using tab sv room by (rule table_inv_room)
  have len: "length (m_clients ss) = MAX_CLIENTS" using tab by (simp add: table_inv_def)
  have fin: "safe_run (case client of None \<Rightarrow> ok (None, ss\<lparr>m_server := sv', proxies := h\<rparr>, k')
      | Some p \<Rightarrow> bindr (enter_client p (ss\<lparr>m_server := sv', proxies := h\<rparr>)) (\<lambda>ss. ok (Some p, ss, k'))) ?Q"
    if cr: "created sv (proxies ss) client sv' h" and k': "fd_ok k'" for client sv' h k'
  proof (cases client)
    case None
    with cr have eq: "ss\<lparr>m_server := sv', proxies := h\<rparr> = ss" using sv by (simp add: created_def)
    show ?thesis using tab sv k' unfolding None eq by simp
  next
    case (Some p)
    define i where "i = sock_server_find_empty_slot sv"
    define ss' where "ss' = ss\<lparr>m_server := sv', proxies := h, m_pclient := (if m_pclient ss = None then Some p else m_pclient ss),
      m_clients := (m_clients ss)[i := Some p], m_ncount := m_ncount ss + 1\<rparr>"
    from cr Some have cr': "created sv (proxies ss) (Some p) sv' h" by simp
    then have p: "objs h p = Some \<lparr>proxy_id = int i, m_msg_buf = []\<rparr>" "sv' \<noteq> None" by (auto simp: created_def new_proxy_def i_def)
    have "enter_client p (ss\<lparr>m_server := sv', proxies := h\<rparr>) = ok ss'"
      using p small len by (simp add: enter_client_def Let_def deref_proxy_def arr_set_ok ss'_def flip: i_def)
    moreover have "table_inv ss'" unfolding ss'_def i_def by (rule add_client_inv [OF tab sv cr' small refl])
    moreover have "client_fd ss' q \<noteq> None" if "client_fd ss q \<noteq> None" for q
      using created_live [OF sv cr' _ that, of ss'] tab by (simp add: ss'_def table_inv_def)
    ultimately show ?thesis using k' p(2) by (simp add: Some) (simp add: ss'_def)
  qed
  then show ?thesis
    unfolding accept_client_def safe_run_bindr sv using tab sv
    by (auto intro!: safe_run_mono [OF has_newconn_safe [OF sv tab k]] safe_run_mono [OF create_client_safe [OF sv tab]]
        simp: safe_run_bindr Let_def)
qed

lemma clients_readable_safe:
  assumes tab: "table_inv ss" and sv: "m_server ss = Some sv" and k: "fd_ok k"
  shows "safe_run (sock_server_clients_readable (m_server ss) tmo k) (\<lambda>(rd, sv', k').
    \<exists>rf. sv' = Some (sv\<lparr>rfds := rf\<rparr>) \<and> table_inv (ss\<lparr>m_server := sv'\<rparr>) \<and> fd_ok k')"
proof -
  from tab sv have slots: "slots_inv ss sv" by (simp add: table_inv_def)
  then have rng: "\<forall>fd \<in> set (client_slots sv). fd = -1 \<or> 0 \<le> fd \<and> fd < 1024"
    by (metis in_set_conv_nth slots_inv_def)
  have "table_inv (ss\<lparr>m_server := Some (sv\<lparr>rfds := rf\<rparr>)\<rparr>)" for rf
    using tab slots sv by (simp add: table_inv_def slots_inv_def connected_def cong: option.case_cong)
  then show ?thesis
    unfolding sv sock_server_clients_readable_def option.case safe_run_bindr
    by (intro safe_run_mono [OF fd_set_slots_safe [OF rng]]) (auto intro!: safe_run_select [OF k] simp: Let_def safe_run_bindr)
qed

text \<open>Where a turn of the loop over the clients may go.\<close>

fun visited_ok :: "SockServer \<Rightarrow> listener_pc \<Rightarrow> bool" where
  "visited_ok ss (L_Scan i) = True"
| "visited_ok ss (L_Header i p) = entry ss i p"
| "visited_ok ss (L_Drop i p) = entry ss i p"
| "visited_ok ss _ = False"

lemma visit_client_safe:
  assumes tab: "table_inv ss" and sv: "m_server ss = Some sv" and i: "i < MAX_CLIENTS" and k: "fd_ok k"
  shows "safe_run (visit_client i ss k) (\<lambda>(goto, k'). visited_ok ss goto \<and> fd_ok k')"
proof (cases "m_clients ss ! i")
  case None
  with tab i k show ?thesis by (simp add: visit_client_def table_inv_def arr_get_ok)
next
  case (Some p)
  then have en: "entry ss i p" using i by (simp add: entry_def)
  from entry_live [OF tab sv en] obtain c where c: "objs (proxies ss) p = Some c" "proxy_id c = int i"
    "int i < int (length (client_slots sv))" "0 \<le> client_slots sv ! i" "client_slots sv ! i < 1024" .
  have "safe_run (sock_server_check_connect (m_server ss) (Some c) k) (\<lambda>(st, k'). fd_ok k')"
    using sv c k by (auto simp: sock_server_check_connect_def arr_get_ok FD_ISSET_def safe_run_bindr safe_run_sys dest!: fd_ok_sys)
  then have "safe_run (bindr (sock_server_check_connect (m_server ss) (Some c) k) (\<lambda>(st, k).
      ok (case st of readable \<Rightarrow> L_Header i p | disconnect \<Rightarrow> L_Drop i p | normal \<Rightarrow> L_Scan (Suc i), k)))
      (\<lambda>(goto, k'). visited_ok ss goto \<and> fd_ok k')"
    unfolding safe_run_bindr by (rule safe_run_mono) (use en in \<open>auto split: sock_conn_status_t.splits\<close>)
  with Some tab i c(1) show ?thesis by (simp add: visit_client_def table_inv_def arr_get_ok deref_proxy_def)
qed

section \<open>Receiving\<close>

lemma receive_header_safe:
  assumes live: "client_fd ss p = Some fd" and k: "fd_ok k"
  shows "safe_run (receive_header H junk ss p k) (\<lambda>(r, k'). fd_ok k' \<and> (\<forall>hdr len. r = Some (hdr, len) \<longrightarrow> head_ok hdr len))"
proof -
  have pl: "0 \<le> get_payload_len H ty" "get_payload_len H ty \<le> int MAX_SENSOR_PAYLOAD_SIZE" for ty
    using get_payload_len_cases [of H ty] by (auto simp: MAX_SENSOR_PAYLOAD_SIZE_def)
  have "safe_run (SockServer_recv_data ss (Some p) (stack_header junk) 0 (int SIZEOF_AIC_EVENT) SOCK_BLOCK_MODE 5 k)
    (\<lambda>(n, buf', k'). n \<le> int SIZEOF_AIC_EVENT \<and> length buf' = length (stack_header junk) \<and> fd_ok k')"
    by (rule recv_data_safe [OF live _ _ _ k]) (simp_all add: SIZEOF_AIC_EVENT_def)
  then show ?thesis
    unfolding receive_header_def safe_run_bindr
    by (rule safe_run_mono) (use pl in \<open>auto simp: load32_def SIZEOF_AIC_EVENT_def head_ok_def Let_def safe_run_bindr\<close>)
qed

section \<open>Dropping a client\<close>

lemma drop_closes:
  assumes tab: "table_inv ss" and sv: "m_server ss = Some sv" and en: "entry ss i p"
  shows "\<exists>sv' k'. sock_server_close_client (m_server ss) (Some p) (proxies ss) k = ok (Some sv', delete_proxy p (proxies ss), k') \<and>
    (fd_ok k \<longrightarrow> fd_ok k') \<and>
    table_inv (settled (L_Forget i p) (ss\<lparr>m_server := Some sv', proxies := delete_proxy p (proxies ss)\<rparr>)) \<and>
    (\<forall>q. q \<noteq> p \<longrightarrow> client_fd ss q \<noteq> None \<longrightarrow> client_fd (ss\<lparr>m_server := Some sv', proxies := delete_proxy p (proxies ss)\<rparr>) q \<noteq> None)"
proof -
  from entry_live [OF tab sv en] obtain c where c: "objs (proxies ss) p = Some c" "proxy_id c = int i"
    "client_slots sv ! i \<noteq> -1" "int i < int (length (client_slots sv))" .
  let ?sv = "sv\<lparr>client_slots := (client_slots sv)[i := -1]\<rparr>"
  have "sock_server_close_client (m_server ss) (Some p) (proxies ss) k =
      ok (Some ?sv, delete_proxy p (proxies ss), sys_close (client_slots sv ! i) k)"
    using c sv by (simp add: sock_server_close_client_def deref_proxy_def arr_get_ok arr_set_ok)
  moreover have "table_inv (settled (L_Forget i p) (ss\<lparr>m_server := Some ?sv, proxies := delete_proxy p (proxies ss)\<rparr>))"
    using remove_client_inv [OF tab sv _ _ refl, of i p "stale_log_reads ss"] en by (simp add: entry_def cong: if_cong)
  moreover have "client_fd (ss\<lparr>m_server := Some ?sv, proxies := delete_proxy p (proxies ss)\<rparr>) q \<noteq> None"
    if "q \<noteq> p" "client_fd ss q \<noteq> None" for q
    using that sv by (auto simp: client_fd_def delete_proxy_def split: option.splits if_splits)
  ultimately show ?thesis by auto
qed

lemma forget_client_eq:
  assumes "entry ss i p" and "length (m_clients ss) = MAX_CLIENTS" and "objs (proxies ss) p = None"
  shows "\<exists>r. forget_client i p ss = ok (r, (settled (L_Forget i p) ss)\<lparr>stale_log_reads := Suc (stale_log_reads ss)\<rparr>)"
  using assms by (auto simp: forget_client_def entry_def arr_set_ok Let_def)

lemma table_inv_stale: "table_inv (ss\<lparr>stale_log_reads := n\<rparr>) = table_inv ss"
  by (simp add: table_inv_def slots_inv_def connected_def cong: option.case_cong)

end
