(* ===== verification/Thread_Invariant.thy ===== *)
theory Thread_Invariant
  imports Listener_Steps
begin

text \<open>Every step of every thread keeps the invariant; all reachable states have it.\<close>

section \<open>The listener thread\<close>

lemma thr_inv_listener:
  assumes inv: "thr_inv H s" and run: "listening s \<noteq> L_Quit" and l: "lock_inv s'"
    and "callers s' = callers s" and "closer s' = closer s" and "dev_inv H (t_dev s')"
    and "poller_ok (t_dev s') (poller s')" and "poller s = P_Out \<Longrightarrow> poller s' = P_Out"
    and live: "\<And>i q msg. callers s i = C_Send q msg \<Longrightarrow> client_fd (t_srv s') q \<noteq> None"
    and "fd_ok (lkern s')" and "srv_ok (t_dev s') (t_srv s') (listening s')"
  shows "thr_inv H s'"
proof -
  have "caller_ok (t_srv s') (callers s i)" for i
    using thr_invD(4) [OF inv, of i] live [of i] by (cases "callers s i") auto
  with assms thr_invD(9) [OF inv] show ?thesis by (auto simp: thr_inv_def)
qed

lemma listener_locks:
  assumes "lock_inv s" and "callers s' = callers s" and "poller_holds (poller s') = poller_holds (poller s)"
  shows listener_lock: "mutexes s m = None \<Longrightarrow> mutexes s' = (mutexes s)(m \<mapsto> Listener) \<Longrightarrow>
      listener_holds (listening s') = insert m (listener_holds (listening s)) \<Longrightarrow> lock_inv s'"
    and listener_unlock: "mutexes s m = Some Listener \<Longrightarrow> mutexes s' = (mutexes s)(m := None) \<Longrightarrow>
      listener_holds (listening s') = listener_holds (listening s) - {m} \<Longrightarrow> lock_inv s'"
    and listener_keep: "mutexes s' = mutexes s \<Longrightarrow> listener_holds (listening s') = listener_holds (listening s) \<Longrightarrow> lock_inv s'"
    subgoal by (rule lock_inv_acquire [OF assms(1)]) (assumption, simp, rule holds_eqI, use assms in simp_all)
    subgoal by (rule lock_inv_release [OF assms(1)]) (assumption, simp, rule holds_eqI, use assms in simp_all)
    subgoal by (rule lock_inv_same [OF assms(1)]) (simp, rule holds_eqI, use assms in simp_all)
  done

text \<open>What the listener knows of the server in the middle of a round.\<close>

lemma listener_srv:
  assumes inv: "thr_inv H s" and mid: "\<not> between_rounds (listening s)"
  obtains sv where "m_server (t_srv s) = Some sv" and "table_inv (settled (listening s) (t_srv s))"
    and "listener_ok (t_dev s) (t_srv s) (listening s)" and "listening s \<noteq> L_Quit"
proof -
  from mid have "listening s \<noteq> L_Quit" by auto
  with thr_invD(6,9) [OF inv] have "srv_ok (t_dev s) (t_srv s) (listening s)" by auto
  with mid \<open>listening s \<noteq> L_Quit\<close> that show thesis by (auto simp: srv_ok_def)
qed

lemma send_live: "thr_inv H s \<Longrightarrow> callers s i = C_Send q msg \<Longrightarrow> client_fd (t_srv s) q \<noteq> None"
  using thr_invD(4) [of H s i] by simp

text \<open>Steps that touch neither the device nor the server's table.\<close>

lemma listener_stay_good:
  assumes inv: "thr_inv H s" and mid: "listening s \<noteq> L_Quit" and h: "listener_holds at_pc = listener_holds (listening s)"
    and k: "fd_ok k" and srv: "srv_ok (t_dev s) (t_srv s) at_pc"
  shows "thr_inv H (s\<lparr>lkern := k, listening := at_pc\<rparr>)"
  using thr_invD(2-5) [OF inv] k srv send_live [OF inv]
  by (intro thr_inv_listener [OF inv mid] listener_keep [OF thr_invD(1) [OF inv]]) (auto simp: h)

lemma listener_lock_good:
  assumes inv: "thr_inv H s" and mid: "listening s \<noteq> L_Quit" and m: "m \<notin> listener_holds (listening s)"
    and h: "listener_holds at_pc = insert m (listener_holds (listening s))" and srv: "srv_ok (t_dev s) (t_srv s) at_pc"
  shows "safe_run (bindr (acquire Listener m s) (\<lambda>s. ok (s\<lparr>listening := at_pc\<rparr>))) (thr_inv H)"
proof -
  have "thr_inv H (s\<lparr>mutexes := (mutexes s)(m \<mapsto> Listener), listening := at_pc\<rparr>)" if "mutexes s m = None"
    using thr_invD(2-5) [OF inv] srv send_live [OF inv]
    by (intro thr_inv_listener [OF inv mid] listener_lock [OF thr_invD(1) [OF inv] _ _ that]) (auto simp: h)
  then show ?thesis using acquire_safe [OF thr_invD(1) [OF inv], of m Listener] m by (simp add: safe_run_bindr)
qed

lemma listener_unlock_good:
  assumes inv: "thr_inv H s" and mid: "listening s \<noteq> L_Quit" and m: "m \<in> listener_holds (listening s)"
    and h: "listener_holds at_pc = listener_holds (listening s) - {m}" and d: "dev_inv H d"
    and p: "poller_ok d pl" "poller_holds pl = poller_holds (poller s)" "poller s = P_Out \<longrightarrow> pl = P_Out"
    and srv: "srv_ok d (t_srv s) at_pc"
  shows "mutexes s m = Some Listener" and "thr_inv H (s\<lparr>t_dev := d, poller := pl, mutexes := (mutexes s)(m := None), listening := at_pc\<rparr>)"
proof -
  show own: "mutexes s m = Some Listener" using lock_owner [OF thr_invD(1) [OF inv], of m Listener] m by simp
  show "thr_inv H (s\<lparr>t_dev := d, poller := pl, mutexes := (mutexes s)(m := None), listening := at_pc\<rparr>)"
    using thr_invD(5) [OF inv] d p srv send_live [OF inv]
    by (intro thr_inv_listener [OF inv mid] listener_unlock [OF thr_invD(1) [OF inv] _ _ own]) (auto simp: h)
qed

lemma listener_srv_good:
  assumes inv: "thr_inv H s" and mid: "listening s \<noteq> L_Quit" and h: "listener_holds at_pc = listener_holds (listening s)"
    and k: "fd_ok k" and srv: "srv_ok (t_dev s) ss at_pc"
    and live: "\<And>i q msg. callers s i = C_Send q msg \<Longrightarrow> client_fd (t_srv s) q \<noteq> None \<Longrightarrow> client_fd ss q \<noteq> None"
  shows "thr_inv H (s\<lparr>t_srv := ss, lkern := k, listening := at_pc\<rparr>)"
proof -
  have "client_fd ss q \<noteq> None" if "callers s i = C_Send q msg" for i q msg
    using send_live [OF inv that] live that by simp
  then show ?thesis using thr_invD(2-5) [OF inv] k srv
    by (intro thr_inv_listener [OF inv mid] listener_keep [OF thr_invD(1) [OF inv]]) (auto simp: h)
qed


lemma srv_ok_mid:
  "table_inv ss \<Longrightarrow> m_server ss \<noteq> None \<Longrightarrow> listener_ok d ss at_pc \<Longrightarrow> deleted_client at_pc = None \<Longrightarrow> srv_ok d ss at_pc"
  by (cases at_pc) (simp_all add: srv_ok_def)

lemma listener_config_good:
  assumes inv: "thr_inv H s" and at: "listening s \<in> {L_Config i, L_Config_Client i, L_Config_Send i p, L_Config_Unlock i}"
  shows "safe_run (listener_step H junk (listening s) s) (thr_inv H)"
proof -
  from at have "\<not> between_rounds (listening s)" and st: "settled (listening s) ss = ss" for ss by auto
  from listener_srv [OF inv this(1)] st obtain sv where sv: "m_server (t_srv s) = Some sv" and tab: "table_inv (t_srv s)"
    and lo: "listener_ok (t_dev s) (t_srv s) (listening s)" and run: "listening s \<noteq> L_Quit" by auto
  have mid: "srv_ok (t_dev s) (t_srv s) at_pc" if "listener_ok (t_dev s) (t_srv s) at_pc" "deleted_client at_pc = None" for at_pc
    by (rule srv_ok_mid [OF tab _ that]) (simp add: sv)
  note k = thr_invD(5) [OF inv]
  consider "listening s = L_Config i" | "listening s = L_Config_Client i" | "listening s = L_Config_Send i p" | "listening s = L_Config_Unlock i"
    using at by blast
  then show ?thesis
  proof cases
    case 1
    then show ?thesis using listener_lock_good [OF inv run, of M_mutex "L_Config_Client i"] mid [of "L_Config_Client i"]
        listener_stay_good [OF inv run _ k, of L_Message] mid [of L_Message] by simp
  next
    case 2
    let ?goto = "case get_sock_client (t_srv s) of None \<Rightarrow> L_Config_Unlock i | Some p \<Rightarrow> L_Config_Send i p"
    have "srv_ok (t_dev s) (t_srv s) ?goto"
      using lo 2 default_live [OF mid, of L_Conn] by (intro mid) (auto split: option.splits)
    with listener_stay_good [OF inv run _ k, of ?goto] 2 show ?thesis by (simp split: option.splits)
  next
    case 3
    from lo 3 obtain fd where live: "client_fd (t_srv s) p = Some fd" and i: "i < MAX_NUM_SENSORS" by auto
    have c: "arr_get (m_sensor_config_status (t_dev s)) (int i) = ok (m_sensor_config_status (t_dev s) ! i)"
      using i thr_invD(2) [OF inv] by (simp add: arr_get_ok dev_inv_def)
    have "thr_inv H (s\<lparr>lkern := k', listening := L_Config_Unlock i\<rparr>)" if "fd_ok k'" for k'
      using listener_stay_good [OF inv run _ that, of "L_Config_Unlock i"] mid [of "L_Config_Unlock i"] 3 by simp
    then show ?thesis unfolding 3 listener_step.simps c bindr_ok safe_run_bindr
      by (intro safe_run_mono [OF send_config_live [OF live _ k]]) auto
  next
    case 4
    with listener_unlock_good [OF inv run, of M_mutex "L_Config (Suc i)" "t_dev s" "poller s"] thr_invD(2,3) [OF inv]
      mid [of "L_Config (Suc i)"] show ?thesis by (simp add: release_held)
  qed
qed


text \<open>The context all steps inside a round share: no client is half deleted.\<close>

lemma listener_mid:
  assumes inv: "thr_inv H s" and mid: "\<not> between_rounds (listening s)" "deleted_client (listening s) = None"
  shows listener_mid_srv: "\<exists>sv. m_server (t_srv s) = Some sv" and listener_mid_tab: "table_inv (t_srv s)"
    and listener_mid_run: "listening s \<noteq> L_Quit" and listener_mid_ok: "listener_ok (t_dev s) (t_srv s) (listening s)"
    and listener_mid_next: "listener_ok d (t_srv s) at_pc \<Longrightarrow> deleted_client at_pc = None \<Longrightarrow> srv_ok d (t_srv s) at_pc"
proof -
  from mid(2) have "settled (listening s) ss = ss" for ss by (cases "listening s") auto
  with listener_srv [OF inv mid(1)] obtain sv where sv: "m_server (t_srv s) = Some sv" and tab: "table_inv (t_srv s)"
    and rest: "listening s \<noteq> L_Quit" "listener_ok (t_dev s) (t_srv s) (listening s)" by auto
  then show "\<exists>sv. m_server (t_srv s) = Some sv" "table_inv (t_srv s)" "listening s \<noteq> L_Quit"
    "listener_ok (t_dev s) (t_srv s) (listening s)" by simp_all
  show "listener_ok d (t_srv s) at_pc \<Longrightarrow> deleted_client at_pc = None \<Longrightarrow> srv_ok d (t_srv s) at_pc"
    using srv_ok_mid [OF tab] sv by simp
qed

lemma listener_header_good:
  assumes inv: "thr_inv H s" and at: "listening s = L_Header i p"
  shows "safe_run (listener_step H junk (L_Header i p) s) (thr_inv H)"
proof -
  from at have m: "\<not> between_rounds (listening s)" "deleted_client (listening s) = None" by auto
  note tab = listener_mid_tab [OF inv m] and run = listener_mid_run [OF inv m]
    and lo = listener_mid_ok [OF inv m] and mid = listener_mid_next [OF inv m]
  from listener_mid_srv [OF inv m] obtain sv where sv: "m_server (t_srv s) = Some sv" by blast
  from lo at have en: "entry (t_srv s) i p" by simp
  from entry_live [OF tab sv en] obtain fd where live: "client_fd (t_srv s) p = Some fd" by metis
  let ?goto = "\<lambda>r. case r of None \<Rightarrow> L_Scan (Suc i) | Some (hdr, len) \<Rightarrow> L_Pool_Test i p hdr len"
  have "thr_inv H (s\<lparr>lkern := k', listening := ?goto r\<rparr>)" if "fd_ok k'" "\<forall>hdr len. r = Some (hdr, len) \<longrightarrow> head_ok hdr len" for r k'
    by (rule listener_stay_good [OF inv run _ that(1)]) (use that(2) en at in \<open>auto intro!: mid split: option.splits\<close>)
  then show ?thesis unfolding listener_step.simps safe_run_bindr
    by (intro safe_run_mono [OF receive_header_safe [OF live thr_invD(5) [OF inv], of H junk]]) auto
qed

lemma new_pool_inv: "dev_inv H d \<Longrightarrow> dev_inv H (new_pool_buffer d)"
  by (auto simp: new_pool_buffer_def dev_inv_def bufs_ok_def)

lemma pop_pool_ok:
  assumes "dev_inv H d" and "m_msg_mem_pool d \<noteq> []"
  obtains b d' where "pop_pool_buffer d = ok (b, d')" and "length b = MSG_BUF_SIZE" and "dev_inv H d'"
    and "m_sensor_msg_queue d' = m_sensor_msg_queue d" and "m_pending_sensors d' = m_pending_sensors d"
  using assms by (cases "m_msg_mem_pool d") (auto simp: pop_pool_buffer_def dev_inv_def bufs_ok_def intro!: that)

text \<open>The assertion of the polling thread depends on the queue and on the pending sensors only.\<close>

lemma poller_ok_cong:
  "m_sensor_msg_queue d' = m_sensor_msg_queue d \<Longrightarrow> m_pending_sensors d' = m_pending_sensors d \<Longrightarrow>
   poller_ok d' at_pc = poller_ok d at_pc"
  by (cases at_pc) auto

lemma listener_take_good:
  assumes inv: "thr_inv H s" and at: "listening s = L_Pool_Take i p hdr len"
  shows "safe_run (listener_step H junk (L_Pool_Take i p hdr len) s) (thr_inv H)"
proof -
  from at have m: "\<not> between_rounds (listening s)" "deleted_client (listening s) = None" by auto
  note tab = listener_mid_tab [OF inv m] and run = listener_mid_run [OF inv m]
    and lo = listener_mid_ok [OF inv m] and mid = listener_mid_next [OF inv m]
  from lo at have en: "entry (t_srv s) i p" "head_ok hdr len" and ne: "m_msg_mem_pool (t_dev s) \<noteq> []" by simp_all
  from pop_pool_ok [OF thr_invD(2) [OF inv] ne] obtain b d where
    b: "pop_pool_buffer (t_dev s) = ok (b, d)" "length b = MSG_BUF_SIZE" "dev_inv H d"
      "m_sensor_msg_queue d = m_sensor_msg_queue (t_dev s)" "m_pending_sensors d = m_pending_sensors (t_dev s)" .
  obtain buf where buf: "buf_write b 0 hdr = ok buf" "length buf = MSG_BUF_SIZE"
    using en(2) b(2) by (simp add: buf_write_def head_ok_def MSG_BUF_SIZE_def)
  have "mutexes s M_msg_pool_mtx = Some Listener"
    "thr_inv H (s\<lparr>t_dev := d, poller := poller s, mutexes := (mutexes s)(M_msg_pool_mtx := None), listening := L_Payload i p buf len\<rparr>)"
    using listener_unlock_good [OF inv run, of M_msg_pool_mtx "L_Payload i p buf len" d "poller s"] at b(3) en buf(2)
      thr_invD(3) [OF inv] poller_ok_cong [OF b(4,5)] mid [of d "L_Payload i p buf len"] by (simp_all add: head_ok_def)
  then show ?thesis by (simp add: b(1) buf(1) release_held)
qed

lemma listener_payload_good:
  assumes inv: "thr_inv H s" and at: "listening s = L_Payload i p buf len"
  shows "safe_run (listener_step H junk (L_Payload i p buf len) s) (thr_inv H)"
proof -
  from at have m: "\<not> between_rounds (listening s)" "deleted_client (listening s) = None" by auto
  note tab = listener_mid_tab [OF inv m] and run = listener_mid_run [OF inv m]
    and lo = listener_mid_ok [OF inv m] and mid = listener_mid_next [OF inv m]
  from listener_mid_srv [OF inv m] obtain sv where sv: "m_server (t_srv s) = Some sv" by blast
  from lo at have en: "entry (t_srv s) i p" and b: "length buf = MSG_BUF_SIZE" "0 \<le> len" "len \<le> int MAX_SENSOR_PAYLOAD_SIZE"
    by simp_all
  from entry_live [OF tab sv en] obtain fd where live: "client_fd (t_srv s) p = Some fd" by metis
  have "thr_inv H (s\<lparr>lkern := k', listening := (if n \<le> 0 then L_Scan (Suc i) else L_Queue_Lock i buf')\<rparr>)"
    if "fd_ok k'" "length buf' = length buf" for n k' and buf' :: "byte list"
    by (rule listener_stay_good [OF inv run _ that(1)]) (use that(2) b(1) at in \<open>auto intro!: mid\<close>)
  moreover have "SIZEOF_AIC_EVENT + nat len \<le> length buf" "len < 2 ^ 31"
    using b by (simp_all add: MSG_BUF_SIZE_def MAX_SENSOR_PAYLOAD_SIZE_def)
  ultimately show ?thesis unfolding listener_step.simps safe_run_bindr
    by (intro safe_run_mono [OF recv_data_safe [OF live _ b(2) _ thr_invD(5) [OF inv]]]) (auto split del: if_split)
qed

lemma notified_frame:
  "poller_holds (notified at_pc) = poller_holds at_pc" "(notified at_pc = P_Out) = (at_pc = P_Out)"
  by (cases at_pc; simp)+

lemma enqueue_nonempty: "m_sensor_msg_queue (enqueue_msg b d) \<noteq> []"
  by (simp add: enqueue_msg_def drop_oldest_eq)

lemma notified_ok: "poller_ok d at_pc \<Longrightarrow> poller_ok (enqueue_msg b d) (notified at_pc)"
  using enqueue_nonempty [of b d] by (cases at_pc) auto

lemma listener_enqueue_good:
  assumes inv: "thr_inv H s" and at: "listening s = L_Enqueue i buf"
  shows "safe_run (listener_step H junk (L_Enqueue i buf) s) (thr_inv H)"
proof -
  from at have m: "\<not> between_rounds (listening s)" "deleted_client (listening s) = None" by auto
  note tab = listener_mid_tab [OF inv m] and run = listener_mid_run [OF inv m]
    and lo = listener_mid_ok [OF inv m] and mid = listener_mid_next [OF inv m]
  have "dev_inv H (enqueue_msg buf (t_dev s))" using enqueue_inv [OF thr_invD(2) [OF inv]] lo at by simp
  with listener_unlock_good [OF inv run, of M_msg_queue_mtx "L_Scan (Suc i)" "enqueue_msg buf (t_dev s)" "notified (poller s)"]
    at notified_ok [OF thr_invD(3) [OF inv]] mid show ?thesis by (simp add: notified_frame release_held)
qed


lemma listener_scan_good:
  assumes inv: "thr_inv H s" and at: "listening s = L_Scan i"
  shows "safe_run (listener_step H junk (L_Scan i) s) (thr_inv H)"
proof -
  from at have m: "\<not> between_rounds (listening s)" "deleted_client (listening s) = None" by auto
  note tab = listener_mid_tab [OF inv m] and run = listener_mid_run [OF inv m] and mid = listener_mid_next [OF inv m]
  from listener_mid_srv [OF inv m] obtain sv where sv: "m_server (t_srv s) = Some sv" by blast
  have stay: "thr_inv H (s\<lparr>lkern := k', listening := goto\<rparr>)" if "visited_ok (t_srv s) goto \<or> goto = L_Choose" "fd_ok k'" for goto k'
    by (rule listener_stay_good [OF inv run _ that(2)]) (use that(1) at in \<open>cases goto; auto intro!: mid\<close>)+
  show ?thesis
  proof (cases "i < MAX_CLIENTS")
    case True
    have "safe_run (bindr (visit_client i (t_srv s) (lkern s)) (\<lambda>(goto, k). ok (s\<lparr>lkern := k, listening := goto\<rparr>))) (thr_inv H)"
      unfolding safe_run_bindr by (rule safe_run_mono [OF visit_client_safe [OF tab sv True thr_invD(5) [OF inv]]]) (auto intro!: stay)
    with True show ?thesis by simp
  next
    case False
    with stay [of L_Choose "lkern s"] thr_invD(5) [OF inv] show ?thesis by simp
  qed
qed

lemma listener_conn_good:
  assumes inv: "thr_inv H s" and at: "listening s = L_Conn" and room: "m_ncount (t_srv s) < int MAX_CLIENTS"
  shows "safe_run (listener_step H junk L_Conn s) (thr_inv H)"
proof -
  from at have m: "\<not> between_rounds (listening s)" "deleted_client (listening s) = None" by auto
  note tab = listener_mid_tab [OF inv m] and run = listener_mid_run [OF inv m]
  from listener_mid_srv [OF inv m] obtain sv where sv: "m_server (t_srv s) = Some sv" by blast
  have "thr_inv H (s\<lparr>t_srv := ss, lkern := k, listening := (if c = None then L_Message else L_Config 0)\<rparr>)"
    if "table_inv ss" "m_server ss \<noteq> None" "fd_ok k" "\<forall>q. client_fd (t_srv s) q \<noteq> None \<longrightarrow> client_fd ss q \<noteq> None" for c :: "nat option" and ss k
    by (rule listener_srv_good [OF inv run _ that(3)]) (use that at in \<open>auto intro!: srv_ok_mid\<close>)
  then show ?thesis unfolding listener_step.simps safe_run_bindr
    by (intro safe_run_mono [OF accept_client_safe [OF tab sv room thr_invD(5) [OF inv]]]) (auto split del: if_split)
qed

lemma listener_message_good:
  assumes inv: "thr_inv H s" and at: "listening s = L_Message"
  shows "safe_run (listener_step H junk L_Message s) (thr_inv H)"
proof -
  from at have m: "\<not> between_rounds (listening s)" "deleted_client (listening s) = None" by auto
  note tab = listener_mid_tab [OF inv m] and run = listener_mid_run [OF inv m]
  from listener_mid_srv [OF inv m] obtain sv where sv: "m_server (t_srv s) = Some sv" by blast
  have "thr_inv H (s\<lparr>t_srv := (t_srv s)\<lparr>m_server := Some (sv\<lparr>rfds := rf\<rparr>)\<rparr>, lkern := k, listening := (if rd then L_Scan 0 else L_Top)\<rparr>)"
    if "table_inv ((t_srv s)\<lparr>m_server := Some (sv\<lparr>rfds := rf\<rparr>)\<rparr>)" "fd_ok k" for rf k rd
    by (rule listener_srv_good [OF inv run _ that(2)])
      (use that at sv in \<open>auto intro!: srv_ok_mid simp: client_fd_def split: option.splits if_splits\<close>)
  then show ?thesis unfolding listener_step.simps safe_run_bindr
    by (intro safe_run_mono [OF clients_readable_safe [OF tab sv thr_invD(5) [OF inv]]]) (auto split del: if_split)
qed

lemma listener_drop_good:
  assumes inv: "thr_inv H s" and at: "listening s = L_Drop i p" and env: "env_fine (T_Listener junk) s"
  shows "safe_run (listener_step H junk (L_Drop i p) s) (thr_inv H)"
proof -
  from at have m: "\<not> between_rounds (listening s)" "deleted_client (listening s) = None" by auto
  note tab = listener_mid_tab [OF inv m] and run = listener_mid_run [OF inv m] and lo = listener_mid_ok [OF inv m]
  from listener_mid_srv [OF inv m] obtain sv where sv: "m_server (t_srv s) = Some sv" by blast
  from lo at have en: "entry (t_srv s) i p" by simp
  let ?ss = "\<lambda>sv'. (t_srv s)\<lparr>m_server := Some sv', proxies := delete_proxy p (proxies (t_srv s))\<rparr>"
  from drop_closes [OF tab sv en, of "lkern s"] thr_invD(5) [OF inv] obtain sv' k' where
    c: "sock_server_close_client (m_server (t_srv s)) (Some p) (proxies (t_srv s)) (lkern s)
        = ok (Some sv', delete_proxy p (proxies (t_srv s)), k')" "fd_ok k'" "table_inv (settled (L_Forget i p) (?ss sv'))"
      "\<forall>q. q \<noteq> p \<longrightarrow> client_fd (t_srv s) q \<noteq> None \<longrightarrow> client_fd (?ss sv') q \<noteq> None" by blast
  have "thr_inv H (s\<lparr>t_srv := ?ss sv', lkern := k', listening := L_Forget i p\<rparr>)"
  proof (rule listener_srv_good [OF inv run _ c(2)])
    show "srv_ok (t_dev s) (?ss sv') (L_Forget i p)"
      using c(3) en unfolding srv_ok_def by (auto simp: entry_def delete_proxy_def)
    show "client_fd (?ss sv') q \<noteq> None" if q: "callers s j = C_Send q msg" "client_fd (t_srv s) q \<noteq> None" for j q msg
    proof -
      have "q \<noteq> p" using q(1) env at by auto
      with q(2) c(4) show ?thesis by blast
    qed
  qed (simp add: at)
  then show ?thesis by (simp add: c(1))
qed

lemma listener_forget_good:
  assumes inv: "thr_inv H s" and at: "listening s = L_Forget i p"
  shows "safe_run (listener_step H junk (L_Forget i p) s) (thr_inv H)"
proof -
  from at have "\<not> between_rounds (listening s)" by simp
  from listener_srv [OF inv this] at obtain sv where sv: "m_server (t_srv s) = Some sv" and run: "listening s \<noteq> L_Quit"
    and tab: "table_inv (settled (L_Forget i p) (t_srv s))" and lo: "entry (t_srv s) i p" "objs (proxies (t_srv s)) p = None" by auto
  define ss where "ss = (settled (L_Forget i p) (t_srv s))\<lparr>stale_log_reads := Suc (stale_log_reads (t_srv s))\<rparr>"
  have "length (m_clients (t_srv s)) = MAX_CLIENTS" using tab by (simp add: table_inv_def)
  from forget_client_eq [OF lo(1) this lo(2)] obtain r where r: "forget_client i p (t_srv s) = ok (r, ss)" by (auto simp: ss_def)
  have tab': "table_inv ss" using tab by (simp only: ss_def table_inv_stale)
  have fd: "client_fd ss q = client_fd (t_srv s) q" for q
    unfolding ss_def by (rule client_fd_cong) simp_all
  have "m_server ss \<noteq> None" using sv by (simp add: ss_def)
  then have "thr_inv H (s\<lparr>t_srv := ss, lkern := lkern s, listening := (if r = None then L_Scan (Suc i) else L_Top)\<rparr>)"
    by (intro listener_srv_good [OF inv run _ thr_invD(5) [OF inv]]) (auto simp: at fd intro!: srv_ok_mid [OF tab'])
  then show ?thesis by (simp add: r split del: if_split)
qed


lemma listener_pool_good:
  assumes inv: "thr_inv H s"
    and at: "listening s \<in> {L_Pool_Test i p hdr len, L_New_Lock i p hdr len, L_New i p hdr len, L_Pool_Lock i p hdr len}"
  shows "safe_run (listener_step H junk (listening s) s) (thr_inv H)"
proof -
  from at have m: "\<not> between_rounds (listening s)" "deleted_client (listening s) = None" by auto
  note run = listener_mid_run [OF inv m] and lo = listener_mid_ok [OF inv m] and mid = listener_mid_next [OF inv m]
  consider "listening s = L_Pool_Test i p hdr len" | "listening s = L_New_Lock i p hdr len" | "listening s = L_New i p hdr len"
    | "listening s = L_Pool_Lock i p hdr len" using at by blast
  then show ?thesis
  proof cases
    case 1
    have "thr_inv H (s\<lparr>lkern := lkern s, listening :=
        (if m_msg_mem_pool (t_dev s) = [] then L_New_Lock i p hdr len else L_Pool_Lock i p hdr len)\<rparr>)"
      by (rule listener_stay_good [OF inv run _ thr_invD(5) [OF inv]]) (use lo 1 in \<open>auto intro!: mid\<close>)
    with 1 show ?thesis by simp
  next
    case 2
    with listener_lock_good [OF inv run, of M_msg_pool_mtx "L_New i p hdr len"] lo mid show ?thesis by simp
  next
    case 3
    have ne: "m_msg_mem_pool (new_pool_buffer (t_dev s)) \<noteq> []"
      and p: "poller_ok (new_pool_buffer (t_dev s)) (poller s)"
      using thr_invD(3) [OF inv] by (simp_all add: new_pool_buffer_def cong: poller_ok_cong)
    from listener_unlock_good [OF inv run, of M_msg_pool_mtx "L_Pool_Lock i p hdr len" "new_pool_buffer (t_dev s)" "poller s"]
      new_pool_inv [OF thr_invD(2) [OF inv]] lo 3 mid ne p show ?thesis by (simp add: release_held)
  next
    case 4
    with listener_lock_good [OF inv run, of M_msg_pool_mtx "L_Pool_Take i p hdr len"] lo mid show ?thesis by simp
  qed
qed

lemma listener_step_good:
  assumes inv: "thr_inv H s" and env: "env_fine (T_Listener junk) s"
  shows "safe_run (listener_step H junk (listening s) s) (thr_inv H)"
proof (cases "listening s")
  case L_Top
  have tab: "table_inv (t_srv s)" using thr_invD(6,9) [OF inv] L_Top by (cases "closer s = K_Closed") (auto simp: srv_ok_def)
  have "thr_inv H (s\<lparr>lkern := lkern s, listening := (if m_be_working (t_srv s) \<and> m_server (t_srv s) \<noteq> None then L_Conn else L_Quit)\<rparr>)"
    by (rule listener_stay_good [OF inv _ _ thr_invD(5) [OF inv]]) (use L_Top tab in \<open>auto simp: srv_ok_def\<close>)
  with L_Top show ?thesis by simp
next
  case L_Conn
  with listener_conn_good [OF inv L_Conn] env show ?thesis by simp
next
  case (L_Queue_Lock i buf)
  then have m: "\<not> between_rounds (listening s)" "deleted_client (listening s) = None" by auto
  from listener_lock_good [OF inv listener_mid_run [OF inv m], of M_msg_queue_mtx "L_Enqueue i buf"] L_Queue_Lock
    listener_mid_ok [OF inv m] listener_mid_next [OF inv m, of "t_dev s" "L_Enqueue i buf"] show ?thesis by simp
next
  case L_Choose
  then have m: "\<not> between_rounds (listening s)" "deleted_client (listening s) = None" by auto
  note tab = choose_default_inv [OF listener_mid_tab [OF inv m]]
  have "thr_inv H (s\<lparr>t_srv := choose_default (t_srv s), lkern := lkern s, listening := L_Top\<rparr>)"
  proof (rule listener_srv_good [OF inv listener_mid_run [OF inv m] _ thr_invD(5) [OF inv]])
    show "srv_ok (t_dev s) (choose_default (t_srv s)) L_Top" using tab by (simp add: srv_ok_def server_inv_def)
    show "client_fd (choose_default (t_srv s)) q \<noteq> None" if "client_fd (t_srv s) q \<noteq> None" for q
      using that client_fd_cong [of "choose_default (t_srv s)" "t_srv s" q] by (simp add: choose_default_def)
  qed (simp add: L_Choose)
  with L_Choose show ?thesis by simp
next
  case (L_Drop i p)
  with listener_drop_good [OF inv L_Drop env] show ?thesis by (simp only:)
next
  case (L_Config i)
  then show ?thesis by (intro listener_config_good [OF inv, of i 0]) simp
next
  case (L_Config_Client i)
  then show ?thesis by (intro listener_config_good [OF inv, of i 0]) simp
next
  case (L_Config_Send i p)
  then show ?thesis by (intro listener_config_good [OF inv, of i p]) simp
next
  case (L_Config_Unlock i)
  then show ?thesis by (intro listener_config_good [OF inv, of i 0]) simp
next
  case (L_Pool_Test i p hdr len)
  then show ?thesis by (intro listener_pool_good [OF inv, of i p hdr len]) simp
next
  case (L_New_Lock i p hdr len)
  then show ?thesis by (intro listener_pool_good [OF inv, of i p hdr len]) simp
next
  case (L_New i p hdr len)
  then show ?thesis by (intro listener_pool_good [OF inv, of i p hdr len]) simp
next
  case (L_Pool_Lock i p hdr len)
  then show ?thesis by (intro listener_pool_good [OF inv, of i p hdr len]) simp
next
  case L_Message
  show ?thesis unfolding L_Message by (rule listener_message_good [OF inv L_Message])
next
  case (L_Scan i)
  show ?thesis unfolding L_Scan by (rule listener_scan_good [OF inv L_Scan])
next
  case (L_Header i p)
  show ?thesis unfolding L_Header by (rule listener_header_good [OF inv L_Header])
next
  case (L_Pool_Take i p hdr len)
  show ?thesis unfolding L_Pool_Take by (rule listener_take_good [OF inv L_Pool_Take])
next
  case (L_Payload i p buf len)
  show ?thesis unfolding L_Payload by (rule listener_payload_good [OF inv L_Payload])
next
  case (L_Enqueue i buf)
  show ?thesis unfolding L_Enqueue by (rule listener_enqueue_good [OF inv L_Enqueue])
next
  case (L_Forget i p)
  show ?thesis unfolding L_Forget by (rule listener_forget_good [OF inv L_Forget])
qed simp

section \<open>All threads\<close>

text \<open>What a thread may answer to the framework.\<close>

fun answered_ok :: "sensors_h \<Rightarrow> act \<Rightarrow> threads \<Rightarrow> answer \<Rightarrow> bool" where
  "answered_ok H (T_Poller c) s r = polled_ok H (poller s) r"
| "answered_ok H (T_Caller i k) s r = called_ok (callers s i) r"
| "answered_ok H (T_Poll n) s r = (r = None \<or> n \<le> 0 \<and> r = Some (- EINVAL, []))"
| "answered_ok H (T_Call i q) s r = (r = None \<or> \<not> request_ok q \<and> r = Some (- EINVAL, []))"
| "answered_ok H _ s r = (r = None)"

lemma begin_call_cases:
  assumes "header_ok H" and "\<forall>h. q = R_Flush h \<longrightarrow> 0 \<le> h \<and> h < int MAX_NUM_SENSORS"
  shows "begin_call H q = (if request_ok q then (C_Lock q, None) else (C_Out, Some (- EINVAL, [])))"
proof -
  have "get_type_from_hanle H h < 0 \<longleftrightarrow> \<not> (0 \<le> h \<and> h < int MAX_NUM_SENSORS)" for h
  proof (cases "0 \<le> h \<and> h < int MAX_NUM_SENSORS")
    case True
    then obtain i where i: "h = int i" "i < MAX_NUM_SENSORS" by (rule handle_cases)
    with type_nonneg [OF assms(1) i(2)] get_type_int [OF assms(1) i(2)] show ?thesis by simp
  next
    case False
    then have "get_type_from_hanle H h = - EINVAL" using get_type_nth [OF assms(1), of h] by auto
    with False show ?thesis by (simp add: EINVAL_def)
  qed
  then show ?thesis using assms(2) by (cases q) (simp_all add: request_ok_def)
qed

lemma call_good:
  assumes "header_ok H" and inv: "thr_inv H s" and env: "env_fine (T_Call i q) s"
  shows "safe_run (texec H (T_Call i q) s) (\<lambda>(s', r). thr_inv H s' \<and> answered_ok H (T_Call i q) s r)"
proof (cases "callers s i = C_Out")
  case True
  let ?goto = "if request_ok q then C_Lock q else C_Out"
  have "thr_inv H (s\<lparr>t_dev := t_dev s, mutexes := mutexes s, callers := (callers s)(i := ?goto)\<rparr>)"
    by (rule thr_inv_caller [OF inv _ caller_keep [OF thr_invD(1) [OF inv]]])
      (use env True thr_invD(2,3) [OF inv] in auto)
  moreover have "begin_call H q = (?goto, if request_ok q then None else Some (- EINVAL, []))"
    using begin_call_cases [OF assms(1), of q] env by simp
  ultimately show ?thesis using True by (simp split: if_splits)
qed simp

lemma poll_call_good:
  assumes inv: "thr_inv H s" and env: "env_fine (T_Poll n) s"
  shows "safe_run (texec H (T_Poll n) s) (\<lambda>(s', r). thr_inv H s' \<and> answered_ok H (T_Poll n) s r)"
proof -
  have "thr_inv H (s\<lparr>t_dev := t_dev s, mutexes := mutexes s, poller := P_Enter n\<rparr>)" if "poller s = P_Out" "0 < n"
    by (rule thr_inv_poller [OF inv _ poller_keep [OF thr_invD(1) [OF inv]]]) (use that env thr_invD(2) [OF inv] in auto)
  then show ?thesis using inv by simp
qed

lemma close_good:
  assumes inv: "thr_inv H s" and env: "env_fine (T_Close k) s"
  shows "safe_run (texec H (T_Close k) s) (\<lambda>(s', r). thr_inv H s' \<and> answered_ok H (T_Close k) s r)"
proof -
  have same: "lock_inv (s\<lparr>t_srv := ss, closer := c\<rparr>)" for ss c
    by (rule lock_inv_same [OF thr_invD(1) [OF inv]]) (simp, rule holds_eqI, simp_all)
  have stop: "srv_ok d (SockServer_stop ss) at_pc = srv_ok d ss at_pc" for d ss at_pc
  proof -
    have "table_inv (settled at_pc (SockServer_stop ss)) = table_inv (settled at_pc ss)"
      by (cases at_pc) (simp_all add: SockServer_stop_def table_inv_def slots_inv_def connected_def cong: option.case_cong)
    moreover have "listener_ok d (SockServer_stop ss) at_pc = listener_ok d ss at_pc"
      by (cases at_pc) (simp_all add: SockServer_stop_def entry_def client_fd_def cong: option.case_cong)
    ultimately show ?thesis by (simp add: srv_ok_def SockServer_stop_def)
  qed
  show ?thesis
  proof (cases "closer s")
    case K_Open
    with inv env same show ?thesis by (simp add: thr_inv_def stop)
  next
    case K_Joining
    have "safe_run (SockServer_delete (t_srv s) k) (\<lambda>_. True)"
      by (auto simp: SockServer_delete_def sock_server_close_def Let_def safe_run_bindr safe_run_sys split: option.splits)
    moreover have "thr_inv H (s\<lparr>t_srv := ss, closer := K_Closed\<rparr>)" if "listening s = L_Quit" for ss
      using inv env same that by (simp add: thr_inv_def)
    ultimately show ?thesis using K_Joining by (auto simp: SockServer_join_def safe_run_bindr intro: safe_run_mono)
  qed simp
qed

lemma texec_good:
  assumes hdr: "header_ok H" and inv: "thr_inv H s" and env: "env_fine a s"
  shows "safe_run (texec H a s) (\<lambda>(s', r). thr_inv H s' \<and> answered_ok H a s r)"
proof (cases a)
  case (T_Poller c)
  with poller_step_good [OF hdr inv, of c] show ?thesis by (simp only: texec.simps answered_ok.simps)
next
  case (T_Caller i k)
  with caller_step_good [OF inv, of i k] env show ?thesis by (simp only: texec.simps answered_ok.simps)
next
  case (T_Listener junk)
  with env have "safe_run (listener_step H junk (listening s) s) (thr_inv H)" by (intro listener_step_good [OF inv]) simp
  then show ?thesis unfolding T_Listener texec.simps safe_run_bindr by (rule safe_run_mono) simp
next
  case (T_Kernel k)
  have "lock_inv (s\<lparr>lkern := k\<rparr>)" by (rule lock_inv_same [OF thr_invD(1) [OF inv]]) (simp, rule holds_eqI, simp_all)
  with T_Kernel inv env show ?thesis by (simp add: thr_inv_def)
next
  case (T_Poll n)
  show ?thesis unfolding T_Poll by (rule poll_call_good [OF inv env [unfolded T_Poll]])
next
  case (T_Call i q)
  show ?thesis unfolding T_Call by (rule call_good [OF hdr inv env [unfolded T_Call]])
next
  case (T_Close k)
  show ?thesis unfolding T_Close by (rule close_good [OF inv env [unfolded T_Close]])
qed (use env in simp)

lemma thr_inv_init:
  assumes "length junk = MAX_NUM_SENSORS" and "\<forall>e \<in> set junk. length (ev_data e) = EVENT_WORDS" and "trace \<noteq> Some 0"
    and "server_inv ss" and "fd_ok k"
  shows "thr_inv H (threads_init H junk trace ss k)"
proof -
  have "lock_inv (threads_init H junk trace ss k)"
    unfolding lock_inv_def by (intro allI, case_tac t) (auto simp: threads_init_def)
  with dev_inv_new [OF assms(1-3)] assms(4,5) show ?thesis
    by (simp add: thr_inv_def threads_init_def srv_ok_def server_inv_def)
qed

lemma treachable_inv:
  assumes "header_ok H" and "treachable H s"
  shows "thr_inv H s"
  using assms(2)
proof induction
  case (init junk trace ss k)
  then show ?case by (intro thr_inv_init)
next
  case (step s a r s')
  from step.hyps(2) have "env_fine a s" "texec H a s = ok (s', r)" by (auto elim: tstepE)
  with texec_good [OF assms(1) step.IH, of a] show ?case by simp
qed

end
