(* ===== verification/Thread_Simulation.thy ===== *)
theory Thread_Simulation
  imports Thread_Invariant
begin

text \<open>
  The two models of the HAL against each other: every step of the coarser one is a sequence of steps
  of the threads, with the same effect and the same answers. So whatever the coarser model can do, lost
  notices and faults included, the threads can do.
\<close>

section \<open>Sequences of steps\<close>

text \<open>The answers the framework sees along a sequence of steps.\<close>

inductive truns :: "sensors_h \<Rightarrow> threads \<Rightarrow> (int \<times> sensors_event_t list) list \<Rightarrow> threads \<Rightarrow> bool" for H where
  stop: "truns H s [] s"
| silent: "tstep H s a None s' \<Longrightarrow> truns H s' rs s'' \<Longrightarrow> truns H s rs s''"
| answer: "tstep H s a (Some r) s' \<Longrightarrow> truns H s' rs s'' \<Longrightarrow> truns H s (r # rs) s''"

lemma truns_append: "truns H s rs s' \<Longrightarrow> truns H s' rs' s'' \<Longrightarrow> truns H s (rs @ rs') s''"
  by (induction rule: truns.induct) (auto intro: truns.intros)

lemma truns_silent: "truns H s [] s' \<Longrightarrow> truns H s' rs s'' \<Longrightarrow> truns H s rs s''"
  using truns_append [of H s "[]"] by simp

lemma truns_reachable: "truns H s rs s' \<Longrightarrow> treachable H s \<Longrightarrow> treachable H s'"
  by (induction rule: truns.induct) (auto intro: treachable.step)

lemma exec_silent: "texec H a s = ok (s', None) \<Longrightarrow> env_fine a s \<Longrightarrow> truns H s' rs s'' \<Longrightarrow> truns H s rs s''"
  by (auto intro: truns.silent tstep.intros)

lemma exec_answer: "texec H a s = ok (s', Some r) \<Longrightarrow> env_fine a s \<Longrightarrow> truns H s' rs s'' \<Longrightarrow> truns H s (r # rs) s''"
  by (auto intro: truns.answer tstep.intros)

lemma listener_silent:
  "listener_step H junk (listening s) s = ok s' \<Longrightarrow> env_fine (T_Listener junk) s \<Longrightarrow> truns H s' rs s'' \<Longrightarrow> truns H s rs s''"
  by (rule exec_silent [where a = "T_Listener junk"]) simp_all

section \<open>The listener alone\<close>

text \<open>
  The state of the HAL while only the listener moves: it is at \<open>at_pc\<close> and the mutexes are \<open>l\<close>, no call
  is under way but perhaps the polling call.
\<close>

definition solo ::
  "threads \<Rightarrow> (mtx, tid) locks \<Rightarrow> SensorDevice \<Rightarrow> SockServer \<Rightarrow> kern \<Rightarrow> poller_pc \<Rightarrow> listener_pc \<Rightarrow> threads" where
  "solo s l d ss k pl at_pc = s\<lparr>t_dev := d, t_srv := ss, mutexes := l, poller := pl,
     callers := (\<lambda>_. C_Out), listening := at_pc, lkern := k\<rparr>"

abbreviation free :: "(mtx, tid) locks" where "free \<equiv> Map.empty"

lemma solo_simps [simp]:
  "t_dev (solo s l d ss k pl a) = d" "t_srv (solo s l d ss k pl a) = ss" "mutexes (solo s l d ss k pl a) = l"
  "poller (solo s l d ss k pl a) = pl" "callers (solo s l d ss k pl a) = (\<lambda>_. C_Out)" "listening (solo s l d ss k pl a) = a"
  "lkern (solo s l d ss k pl a) = k" "closer (solo s l d ss k pl a) = closer s"
  by (simp_all add: solo_def)

lemma solo_upd [simp]:
  "(solo s l d ss k pl a)\<lparr>listening := b\<rparr> = solo s l d ss k pl b"
  "(solo s l d ss k pl a)\<lparr>mutexes := l'\<rparr> = solo s l' d ss k pl a"
  "(solo s l d ss k pl a)\<lparr>t_dev := d'\<rparr> = solo s l d' ss k pl a"
  "(solo s l d ss k pl a)\<lparr>poller := pl'\<rparr> = solo s l d ss k pl' a"
  "(solo s l d ss k pl a)\<lparr>lkern := k', listening := b\<rparr> = solo s l d ss k' pl b"
  "(solo s l d ss k pl a)\<lparr>t_srv := ss', lkern := k', listening := b\<rparr> = solo s l d ss' k' pl b"
  "(solo s l d ss k pl a)\<lparr>t_srv := ss', listening := b\<rparr> = solo s l d ss' k pl b"
  by (simp_all add: solo_def)

lemma solo_acquire [simp]: "acquire t m (solo s free d ss k pl a) = ok (solo s [m \<mapsto> t] d ss k pl a)"
  by (simp add: acquire_def std.lock_free)

lemma solo_release [simp]: "release t m (solo s [m \<mapsto> t] d ss k pl a) = ok (solo s free d ss k pl a)"
  by (simp add: release_def std.unlock_held)

text \<open>A step of the listener in such a state; only its first step of a round relies on the environment.\<close>

lemma solo_step:
  assumes "listener_step H junk a (solo s l d ss k pl a) = ok s'" and "a \<noteq> L_Conn \<or> m_ncount ss < int MAX_CLIENTS"
    and "truns H s' rs s''"
  shows "truns H (solo s l d ss k pl a) rs s''"
  by (rule listener_silent [of _ junk _ s']) (use assms in auto)

lemma solo_configs:
  assumes "send_all_configs cs ss k = ok k'" and "m_sensor_config_status d = pre @ cs" and "length pre + length cs = MAX_NUM_SENSORS"
  shows "truns H (solo s free d ss k pl (L_Config (length pre))) [] (solo s free d ss k' pl L_Message)"
  using assms
proof (induction cs arbitrary: pre k)
  case Nil
  then show ?case by (intro solo_step [where junk = "(0, 0)", OF _ _ truns.stop]) simp_all
next
  case (Cons c cs)
  let ?i = "length pre"
  from Cons.prems(1) obtain r k1 where k1: "sensor_device_send_config_msg ss (config_bytes c) k = ok (r, k1)"
    and rest: "send_all_configs cs ss k1 = ok k'" by (auto elim!: bindr_okE)
  have i: "?i < MAX_NUM_SENSORS" using Cons.prems(3) by simp
  have IH: "truns H (solo s free d ss k1 pl (L_Config (Suc ?i))) [] (solo s free d ss k' pl L_Message)"
    using Cons.IH [OF rest, of "pre @ [c]"] Cons.prems(2,3) by simp
  have unlock: "truns H (solo s [M_mutex \<mapsto> Listener] d ss k1 pl (L_Config_Unlock ?i)) [] (solo s free d ss k' pl L_Message)"
    by (rule solo_step [where junk = "(0, 0)", OF _ _ IH]) simp_all
  have c: "arr_get (m_sensor_config_status d) (int ?i) = ok c" using Cons.prems(2) by (simp add: arr_get_ok)
  have "truns H (solo s [M_mutex \<mapsto> Listener] d ss k pl (L_Config_Client ?i)) [] (solo s free d ss k' pl L_Message)"
  proof (cases "get_sock_client ss")
    case None
    with k1 have "k1 = k" by (simp add: sensor_device_send_config_msg_def)
    with None show ?thesis by (intro solo_step [where junk = "(0, 0)", OF _ _ unlock]) simp_all
  next
    case (Some q)
    with k1 have "send_config ss q (config_bytes c) k = ok (r, k1)"
      by (simp add: sensor_device_send_config_msg_def send_config_def)
    then have "truns H (solo s [M_mutex \<mapsto> Listener] d ss k pl (L_Config_Send ?i q)) [] (solo s free d ss k' pl L_Message)"
      by (intro solo_step [where junk = "(0, 0)", OF _ _ unlock]) (auto simp: c)
    then show ?thesis using Some by (intro solo_step [where junk = "(0, 0)"]) simp_all
  qed
  then show ?case using i by (intro solo_step [where junk = "(0, 0)"]) simp_all
qed

text \<open>The polling thread as the listener leaves it behind: woken up if there is something in the queue.\<close>

definition woken :: "SensorDevice \<Rightarrow> poller_pc \<Rightarrow> poller_pc" where
  "woken d pl = (if m_sensor_msg_queue d = [] then pl else notified pl)"

lemma notified_idem [simp]: "notified (notified pl) = notified pl"
  by (cases pl) simp_all

lemma woken_enqueue: "woken (enqueue_msg b d) pl = notified pl"
  using enqueue_nonempty [of b d] by (simp add: woken_def)

text \<open>The callback, cut where the threads cut it.\<close>

lemma callback_split:
  "sensor_event_callback H junk ss p d k =
     bindr (receive_header H junk ss p k) (\<lambda>(r, k). case r of None \<Rightarrow> ok (d, k) | Some (hdr, len) \<Rightarrow>
       bindr (take_pool_buffer d) (\<lambda>(buf, d). bindr (buf_write buf 0 hdr) (\<lambda>buf.
       bindr (SockServer_recv_data ss (Some p) buf SIZEOF_AIC_EVENT len SOCK_BLOCK_MODE 5 k) (\<lambda>(n, buf, k).
       if n \<le> 0 then ok (d, k) else ok (enqueue_msg buf d, k)))))"
proof -
  let ?recv = "SockServer_recv_data ss (Some p) (stack_header junk) 0 (int SIZEOF_AIC_EVENT) SOCK_BLOCK_MODE 5 k"
  show ?thesis
  proof (cases "\<exists>len hdr k1. ?recv = ok (len, hdr, k1)")
    case True
    then obtain len hdr k1 where r: "?recv = ok (len, hdr, k1)" by blast
    show ?thesis by (simp add: sensor_event_callback_def receive_header_def r load32_def Let_def)
  next
    case False
    then have "?recv = None \<or> (\<exists>e. ?recv = Some (Inl e))" by (metis option.exhaust prod_cases3 sum.exhaust)
    then show ?thesis by (auto simp: sensor_event_callback_def receive_header_def)
  qed
qed

text \<open>Taking a buffer from the pool, which is filled first if it is empty.\<close>

lemma solo_pool:
  assumes t: "take_pool_buffer d = ok (b, d1)" and w: "buf_write b 0 hdr = ok buf"
    and rest: "truns H (solo s free d1 ss k pl (L_Payload i p buf len)) rs s'"
  shows "truns H (solo s free d ss k pl (L_Pool_Test i p hdr len)) rs s'"
proof -
  have take: "truns H (solo s free d0 ss k pl (L_Pool_Lock i p hdr len)) rs s'" if "pop_pool_buffer d0 = ok (b, d1)" for d0
  proof -
    have "truns H (solo s [M_msg_pool_mtx \<mapsto> Listener] d0 ss k pl (L_Pool_Take i p hdr len)) rs s'"
      by (rule solo_step [where junk = "(0, 0)", OF _ _ rest]) (simp_all add: that w)
    then show ?thesis by (intro solo_step [where junk = "(0, 0)"]) simp_all
  qed
  show ?thesis
  proof (cases "m_msg_mem_pool d = []")
    case True
    have "truns H (solo s free (new_pool_buffer d) ss k pl (L_Pool_Lock i p hdr len)) rs s'"
      by (rule take) (use t True in \<open>simp add: take_pool_buffer_def\<close>)
    then have "truns H (solo s [M_msg_pool_mtx \<mapsto> Listener] d ss k pl (L_New i p hdr len)) rs s'"
      by (intro solo_step [where junk = "(0, 0)"]) simp_all
    then have "truns H (solo s free d ss k pl (L_New_Lock i p hdr len)) rs s'"
      by (intro solo_step [where junk = "(0, 0)"]) simp_all
    then show ?thesis using True by (intro solo_step [where junk = "(0, 0)"]) simp_all
  next
    case False
    have "truns H (solo s free d ss k pl (L_Pool_Lock i p hdr len)) rs s'"
      by (rule take) (use t False in \<open>simp add: take_pool_buffer_def\<close>)
    then show ?thesis using False by (intro solo_step [where junk = "(0, 0)"]) simp_all
  qed
qed

lemma take_pool_queue: "take_pool_buffer d = ok (b, d1) \<Longrightarrow> m_sensor_msg_queue d1 = m_sensor_msg_queue d"
  by (auto simp: take_pool_buffer_def pop_pool_buffer_def new_pool_buffer_def split: list.splits if_splits)

lemma solo_callback:
  assumes cb: "sensor_event_callback H junk ss p d k = ok (d', k')"
  shows "truns H (solo s free d ss k (woken d pl) (L_Header i p)) [] (solo s free d' ss k' (woken d' pl) (L_Scan (Suc i)))"
proof -
  from cb obtain r k1 where h: "receive_header H junk ss p k = ok (r, k1)"
    and rest: "(case r of None \<Rightarrow> ok (d, k1) | Some (hdr, len) \<Rightarrow>
       bindr (take_pool_buffer d) (\<lambda>(buf, d). bindr (buf_write buf 0 hdr) (\<lambda>buf.
       bindr (SockServer_recv_data ss (Some p) buf SIZEOF_AIC_EVENT len SOCK_BLOCK_MODE 5 k1) (\<lambda>(n, buf, k).
       if n \<le> 0 then ok (d, k) else ok (enqueue_msg buf d, k))))) = ok (d', k')"
    unfolding callback_split by (auto elim!: bindr_okE)
  show ?thesis
  proof (cases r)
    case None
    with h rest show ?thesis by (intro solo_step [where junk = junk, OF _ _ truns.stop]) simp_all
  next
    case (Some hl)
    obtain hdr len where hl: "hl = (hdr, len)" by force
    from rest Some hl obtain b d1 buf n buf2 k2 where t: "take_pool_buffer d = ok (b, d1)" and w: "buf_write b 0 hdr = ok buf"
      and rv: "SockServer_recv_data ss (Some p) buf SIZEOF_AIC_EVENT len SOCK_BLOCK_MODE 5 k1 = ok (n, buf2, k2)"
      and fin: "(if n \<le> 0 then ok (d1, k2) else ok (enqueue_msg buf2 d1, k2)) = ok (d', k')"
      by (auto elim!: bindr_okE)
    have wk: "woken d pl = woken d1 pl" using take_pool_queue [OF t] by (simp add: woken_def)
    have "truns H (solo s free d1 ss k1 (woken d pl) (L_Payload i p buf len)) [] (solo s free d' ss k' (woken d' pl) (L_Scan (Suc i)))"
    proof (cases "n \<le> 0")
      case True
      with fin rv wk show ?thesis by (intro solo_step [where junk = junk, OF _ _ truns.stop]) simp_all
    next
      case False
      with fin have d': "d' = enqueue_msg buf2 d1" "k2 = k'" by simp_all
      have "notified (woken d pl) = woken d' pl" unfolding d' woken_enqueue by (simp add: woken_def)
      then have "truns H (solo s [M_msg_queue_mtx \<mapsto> Listener] d1 ss k' (woken d pl) (L_Enqueue i buf2)) []
          (solo s free d' ss k' (woken d' pl) (L_Scan (Suc i)))"
        using d' by (intro solo_step [where junk = junk, OF _ _ truns.stop]) simp_all
      then have "truns H (solo s free d1 ss k' (woken d pl) (L_Queue_Lock i buf2)) [] (solo s free d' ss k' (woken d' pl) (L_Scan (Suc i)))"
        by (intro solo_step [where junk = junk]) simp_all
      then show ?thesis using False rv d' by (intro solo_step [where junk = junk]) simp_all
    qed
    from solo_pool [OF t w this] have "truns H (solo s free d ss k1 (woken d pl) (L_Pool_Test i p hdr len)) []
        (solo s free d' ss k' (woken d' pl) (L_Scan (Suc i)))" .
    then show ?thesis using h Some hl by (intro solo_step [where junk = junk]) simp_all
  qed
qed

lemma solo_drop:
  assumes "drop_client (hal_callbacks H junk) i p ss d k = ok (r, ss', d', k')"
    and rest: "truns H (solo s free d ss' k' pl (if r = None then L_Scan (Suc i) else L_Top)) rs s'"
  shows "truns H (solo s free d ss k pl (L_Drop i p)) rs s'" and "d' = d"
proof -
  from assms(1) obtain sv h where c: "sock_server_close_client (m_server ss) (Some p) (proxies ss) k = ok (sv, h, k')"
    and f: "forget_client i p (ss\<lparr>m_server := sv, proxies := h\<rparr>) = ok (r, ss')" and d: "d' = d"
    by (auto simp: drop_client_def call_cb_def hal_callbacks_def elim!: bindr_okE)
  show "d' = d" by (rule d)
  have "truns H (solo s free d (ss\<lparr>m_server := sv, proxies := h\<rparr>) k' pl (L_Forget i p)) rs s'"
    by (rule solo_step [where junk = junk, OF _ _ rest]) (use f in simp_all)
  then show "truns H (solo s free d ss k pl (L_Drop i p)) rs s'"
    by (intro solo_step [where junk = junk]) (use c in simp_all)
qed

lemma solo_scan:
  assumes "scan_clients (hal_callbacks H junk) ids ss d k = ok (r, ss', d', k')" and "ids = [i..<MAX_CLIENTS]" and "i \<le> MAX_CLIENTS"
  shows "truns H (solo s free d ss k (woken d pl) (L_Scan i)) []
    (solo s free d' ss' k' (woken d' pl) (if r = None then L_Scan MAX_CLIENTS else L_Top))"
  using assms
proof (induction ids arbitrary: i ss d k)
  case Nil
  then have "i = MAX_CLIENTS" by (metis le_antisym linorder_not_le upt_conv_Nil upt_rec list.distinct(1))
  with Nil show ?case by (auto intro: truns.stop)
next
  case (Cons j ids)
  from Cons.prems(2) upt_rec [of i MAX_CLIENTS] have j: "j = i" "ids = [Suc i..<MAX_CLIENTS]" "i < MAX_CLIENTS"
    by (auto split: if_splits)
  let ?fin = "solo s free d' ss' k' (woken d' pl) (if r = None then L_Scan MAX_CLIENTS else L_Top)"
  have IH: "truns H (solo s free d1 ss1 k1 (woken d1 pl) (L_Scan (Suc i))) [] ?fin"
    if "scan_clients (hal_callbacks H junk) ids ss1 d1 k1 = ok (r, ss', d', k')" for ss1 d1 k1
    using Cons.IH [OF that j(2)] j(3) by simp
  from Cons.prems(1) j obtain e where e: "arr_get (m_clients ss) (int i) = ok e" by (auto elim!: bindr_okE)
  show ?case
  proof (cases e)
    case None
    with Cons.prems(1) j e have "scan_clients (hal_callbacks H junk) ids ss d k = ok (r, ss', d', k')" by simp
    from IH [OF this] show ?thesis using None j e by (intro solo_step [where junk = junk]) (simp_all add: visit_client_def)
  next
    case (Some p)
    with Cons.prems(1) j e obtain c st k1 where v: "deref_proxy (proxies ss) p = ok c"
      "sock_server_check_connect (m_server ss) (Some c) k = ok (st, k1)"
      and rest: "(case st of
           readable \<Rightarrow> bindr (call_cb (m_listener_callback (hal_callbacks H junk)) ss p d k1) (\<lambda>(a, k). scan_clients (hal_callbacks H junk) ids ss a k)
         | disconnect \<Rightarrow> bindr (drop_client (hal_callbacks H junk) i p ss d k1) (\<lambda>(r, ss, a, k).
             case r of Some early \<Rightarrow> ok (Some early, ss, a, k) | None \<Rightarrow> scan_clients (hal_callbacks H junk) ids ss a k)
         | normal \<Rightarrow> scan_clients (hal_callbacks H junk) ids ss d k1) = ok (r, ss', d', k')"
      by (auto elim!: bindr_okE)
    have visit: "truns H (solo s free d ss k (woken d pl) (L_Scan i)) [] ?fin"
      if "truns H (solo s free d ss k1 (woken d pl) (case st of readable \<Rightarrow> L_Header i p | disconnect \<Rightarrow> L_Drop i p | normal \<Rightarrow> L_Scan (Suc i))) [] ?fin"
      using that Some j e v by (intro solo_step [where junk = junk]) (simp_all add: visit_client_def)
    show ?thesis
    proof (cases st)
      case readable
      with rest obtain d1 k2 where cb: "sensor_event_callback H junk ss p d k1 = ok (d1, k2)"
        and more: "scan_clients (hal_callbacks H junk) ids ss d1 k2 = ok (r, ss', d', k')"
        by (auto simp: call_cb_def hal_callbacks_def elim!: bindr_okE)
      from truns_silent [OF solo_callback [OF cb] IH [OF more]] show ?thesis using readable by (intro visit) simp
    next
      case disconnect
      with rest obtain r1 ss1 d1 k2 where dr: "drop_client (hal_callbacks H junk) i p ss d k1 = ok (r1, ss1, d1, k2)"
        and more: "(case r1 of Some early \<Rightarrow> ok (Some early, ss1, d1, k2) | None \<Rightarrow> scan_clients (hal_callbacks H junk) ids ss1 d1 k2) = ok (r, ss', d', k')"
        by (auto elim!: bindr_okE)
      have d1: "d1 = d" by (rule solo_drop(2) [OF dr truns.stop])
      have "truns H (solo s free d ss1 k2 (woken d pl) (if r1 = None then L_Scan (Suc i) else L_Top)) [] ?fin"
        using more IH d1 by (cases r1) (auto intro: truns.stop)
      from solo_drop(1) [OF dr this] show ?thesis using disconnect by (intro visit) simp
    next
      case normal
      with rest IH show ?thesis by (intro visit) simp
    qed
  qed
qed

text \<open>A whole round of the listener, from one loop test to the next.\<close>

lemma connection_split:
  assumes "check_new_connection (hal_callbacks H junk) ss d k = ok (n, ss', d', k')"
  shows "\<exists>c k2. accept_client ss k = ok (c, ss', k2) \<and> d' = d \<and>
    (if c = None then k' = k2 else send_all_configs (m_sensor_config_status d) ss' k2 = ok k')"
proof -
  from assms obtain has k1 where h: "sock_server_has_newconn (m_server ss) (m_connection_timeout_ms ss) k = ok (has, k1)"
    by (auto simp: check_new_connection_def elim!: bindr_okE)
  show ?thesis
  proof (cases has)
    case True
    with assms h obtain c sv hp k2 where c: "sock_server_create_client (m_server ss) (proxies ss) k1 = ok (c, sv, hp, k2)"
      by (auto simp: check_new_connection_def Let_def elim!: bindr_okE)
    show ?thesis
    proof (cases c)
      case None
      with assms h c True show ?thesis by (simp add: check_new_connection_def accept_client_def Let_def)
    next
      case (Some p)
      with assms h c True have "admit_client (hal_callbacks H junk) p (ss\<lparr>m_server := sv, proxies := hp\<rparr>) d k2 = ok (n, ss', d', k')"
        by (simp add: check_new_connection_def Let_def)
      then have "enter_client p (ss\<lparr>m_server := sv, proxies := hp\<rparr>) = ok ss' \<and> d' = d \<and>
          send_all_configs (m_sensor_config_status d) ss' k2 = ok k'"
        by (auto simp: admit_client_def call_cb_def hal_callbacks_def client_connected_callback_def elim!: bindr_okE)
      with h c True Some show ?thesis by (simp add: accept_client_def Let_def)
    qed
  qed (use assms h in \<open>simp add: check_new_connection_def accept_client_def\<close>)
qed

lemma solo_connection:
  assumes conn: "check_new_connection (hal_callbacks H junk) ss d k = ok (n, ss', d', k')"
    and room: "m_ncount ss < int MAX_CLIENTS" and len: "length (m_sensor_config_status d) = MAX_NUM_SENSORS"
  shows "truns H (solo s free d ss k pl L_Conn) [] (solo s free d' ss' k' pl L_Message)"
proof -
  from connection_split [OF conn] obtain c k2 where a: "accept_client ss k = ok (c, ss', k2)" and d: "d' = d"
    and cfg: "if c = None then k' = k2 else send_all_configs (m_sensor_config_status d) ss' k2 = ok k'" by blast
  have "truns H (solo s free d ss' k2 pl (if c = None then L_Message else L_Config 0)) [] (solo s free d ss' k' pl L_Message)"
    using cfg solo_configs [of "m_sensor_config_status d" ss' k2 k' d "[]" H s pl] len by (auto intro: truns.stop split: if_splits)
  then show ?thesis using a room d by (intro solo_step [where junk = junk]) simp_all
qed

lemma solo_message:
  assumes "check_new_message (hal_callbacks H junk) ss d k = ok (n, ss', d', k')"
  shows "truns H (solo s free d ss k (woken d pl) L_Message) [] (solo s free d' ss' k' (woken d' pl) L_Top)"
proof -
  from assms obtain rd sv k1 where r: "sock_server_clients_readable (m_server ss) (m_client_status_check_timeout ss) k = ok (rd, sv, k1)"
    by (auto simp: check_new_message_def elim!: bindr_okE)
  let ?ss = "ss\<lparr>m_server := sv\<rparr>"
  have "truns H (solo s free d ?ss k1 (woken d pl) (if rd then L_Scan 0 else L_Top)) [] (solo s free d' ss' k' (woken d' pl) L_Top)"
  proof (cases rd)
    case True
    with assms r obtain e ss1 d1 k2 where sc: "scan_clients (hal_callbacks H junk) [0..<MAX_CLIENTS] ?ss d k1 = ok (e, ss1, d1, k2)"
      and fin: "(case e of Some early \<Rightarrow> ok (early, ss1, d1, k2) | None \<Rightarrow> ok (0, choose_default ss1, d1, k2)) = ok (n, ss', d', k')"
      by (auto simp: check_new_message_def Let_def elim!: bindr_okE)
    have "truns H (solo s free d1 ss1 k2 (woken d1 pl) (if e = None then L_Scan MAX_CLIENTS else L_Top)) []
        (solo s free d' ss' k' (woken d' pl) L_Top)"
    proof (cases e)
      case None
      with fin have "truns H (solo s free d1 ss1 k2 (woken d1 pl) L_Choose) [] (solo s free d' ss' k' (woken d' pl) L_Top)"
        by (intro solo_step [where junk = junk, OF _ _ truns.stop]) auto
      with None show ?thesis by (auto intro: solo_step [where junk = junk])
    qed (use fin in \<open>auto intro: truns.stop\<close>)
    from truns_silent [OF solo_scan [OF sc refl] this] True show ?thesis by simp
  qed (use assms r in \<open>auto simp: check_new_message_def Let_def intro: truns.stop\<close>)
  then show ?thesis using r by (intro solo_step [where junk = junk]) simp_all
qed

lemma solo_round:
  assumes "listen_round H junk ss d k = ok (n, ss', d', k')" and "m_be_working ss" and "m_server ss \<noteq> None"
    and "m_ncount ss < int MAX_CLIENTS" and "length (m_sensor_config_status d) = MAX_NUM_SENSORS"
  shows "truns H (solo s free d ss k (woken d pl) L_Top) [] (solo s free d' ss' k' (woken d' pl) L_Top)"
proof -
  from assms(1) obtain n1 ss1 d1 k1 where
    c: "check_new_connection (hal_callbacks H junk) ss d k = ok (n1, ss1, d1, k1)" and
    m: "check_new_message (hal_callbacks H junk) ss1 d1 k1 = ok (n, ss', d', k')"
    by (auto simp: listen_round_def elim!: bindr_okE)
  have "d1 = d" using connection_split [OF c] by blast
  have "truns H (solo s free d1 ss1 k1 (woken d pl) L_Message) [] (solo s free d' ss' k' (woken d' pl) L_Top)"
    using solo_message [OF m, of s pl] \<open>d1 = d\<close> by simp
  from truns_silent [OF solo_connection [OF c assms(4,5)] this]
  have "truns H (solo s free d ss k (woken d pl) L_Conn) [] (solo s free d' ss' k' (woken d' pl) L_Top)" .
  then show ?thesis using assms(2,3) by (intro solo_step [where junk = junk]) simp_all
qed

section \<open>The simulation\<close>

text \<open>Where the polling thread stands at the point at which the coarser model has it.\<close>

fun stands :: "poll_pc \<Rightarrow> poller_pc" where
  "stands Idle = P_Out"
| "stands (Sleeping n) = P_Sleep n"
| "stands (Queueing n) = P_Queue_Lock n"
| "stands (Blocked n) = P_Wait n"
| "stands (Got n buf) = P_Relock n buf"

definition embeds :: "hal \<Rightarrow> threads \<Rightarrow> bool" where
  "embeds h t \<longleftrightarrow> t_dev t = dev h \<and> t_srv t = srv h \<and> mutexes t = free \<and> callers t = (\<lambda>_. C_Out) \<and>
     listening t = L_Top \<and> poller t = woken (dev h) (stands (pc h)) \<and> closer t = K_Open"

lemma embeds_solo [simp]:
  "embeds h (solo t l d ss k pl a) \<longleftrightarrow> d = dev h \<and> ss = srv h \<and> l = free \<and> a = L_Top \<and>
     pl = woken (dev h) (stands (pc h)) \<and> closer t = K_Open"
  by (auto simp: embeds_def)

lemma embeds_eq: "embeds h t \<Longrightarrow> t = solo t free (dev h) (srv h) (lkern t) (woken (dev h) (stands (pc h))) L_Top"
  by (cases t) (simp add: embeds_def solo_def)

text \<open>Steps of the polling thread from such a state.\<close>

lemma solo_upd_poller [simp]:
  "(solo s l d ss k pl a)\<lparr>t_dev := d', poller := pl'\<rparr> = solo s l d' ss k pl' a"
  by (simp add: solo_def)

lemma solo_poll:
  "poller_step H c pl (solo s l d ss k pl a) = ok (s', None) \<Longrightarrow> truns H s' rs s'' \<Longrightarrow> truns H (solo s l d ss k pl a) rs s''"
  by (rule exec_silent [where a = "T_Poller c"]) simp_all

lemma solo_await:
  "truns H (solo t [M_mutex \<mapsto> Poller] d ss k (P_Client n) a) []
     (solo t free d ss k (if get_sock_client ss = None then P_Sleep n else P_Queue_Lock n) a)"
  by (rule solo_poll [where c = "(0, 0)", OF _ truns.stop]) simp

lemma solo_pick:
  assumes "pick_loop H (nat n) 0 [] d = ok (r, evs, d')"
  shows "truns H (solo t [M_mutex \<mapsto> Poller] d ss k (P_Pick n) a) [(r, evs)] (solo t free d' ss k P_Out a)"
  by (rule exec_answer [where a = "T_Poller (0, 0)", OF _ _ truns.stop]) (use assms in simp_all)

lemma woken_other [simp]:
  "woken d P_Out = P_Out" "woken d (P_Sleep n) = P_Sleep n" "woken d (P_Queue_Lock n) = P_Queue_Lock n"
  "woken d (P_Relock n b) = P_Relock n b"
  by (simp_all add: woken_def)

text \<open>What the framework hears of a step.\<close>

definition heard :: "answer \<Rightarrow> (int \<times> sensors_event_t list) list" where
  "heard r = (case r of None \<Rightarrow> [] | Some a \<Rightarrow> [a])"

lemma heard_simps [simp]: "heard None = []" "heard (Some a) = [a]"
  by (simp_all add: heard_def)

definition simulated :: "sensors_h \<Rightarrow> threads \<Rightarrow> answer \<Rightarrow> hal \<Rightarrow> bool" where
  "simulated H t r h' \<longleftrightarrow> (\<exists>t'. truns H t (heard r) t' \<and> embeds h' t')"

lemma simulatedI: "truns H t (heard r) t' \<Longrightarrow> embeds h' t' \<Longrightarrow> simulated H t r h'"
  by (auto simp: simulated_def)

lemma simulated_silent: "truns H t [] t' \<Longrightarrow> simulated H t' r h' \<Longrightarrow> simulated H t r h'"
  by (auto simp: simulated_def intro: truns_silent)

lemma simulated_poll:
  "poller_step H c pl (solo s l d ss k pl a) = ok (s', None) \<Longrightarrow> simulated H s' r h' \<Longrightarrow> simulated H (solo s l d ss k pl a) r h'"
  by (auto simp: simulated_def intro: solo_poll)

lemma finish_simulated:
  assumes "finish_poll H n h = ok (h', r)" and "closer t = K_Open"
  shows "simulated H (solo t [M_mutex \<mapsto> Poller] (dev h) (srv h) k (P_Pick n) L_Top) r h'"
proof -
  from assms(1) obtain res evs d where p: "pick_loop H (nat n) 0 [] (dev h) = ok (res, evs, d)"
    and h': "h' = h\<lparr>dev := d, pc := Idle\<rparr>" and r: "r = Some (res, evs)"
    by (auto simp: finish_poll_def elim!: bindr_okE)
  show ?thesis
    by (rule simulatedI [where t' = "solo t free d (srv h) k P_Out L_Top"]) (use solo_pick [OF p] assms(2) h' r in simp_all)
qed

lemma await_simulated:
  assumes "closer t = K_Open"
  shows "simulated H (solo t [M_mutex \<mapsto> Poller] (dev h) (srv h) k (P_Client n) L_Top) None (await n h)"
  by (rule simulatedI [where t' = "solo t free (dev h) (srv h) k (if get_sock_client (srv h) = None then P_Sleep n else P_Queue_Lock n) L_Top"])
     (use solo_await assms in \<open>simp_all add: await_def\<close>)

lemma front_simulated:
  assumes "pop_queue n h = ok (h', r)" and "closer t = K_Open" and at: "pl = P_Front n \<or> pl = P_Pop n"
  shows "simulated H (solo t [M_msg_queue_mtx \<mapsto> Poller] (dev h) (srv h) k pl L_Top) r h'"
proof -
  from assms(1) obtain b q where q: "m_sensor_msg_queue (dev h) = b # q" and r: "r = None"
    and h': "h' = h\<lparr>dev := (dev h)\<lparr>m_sensor_msg_queue := q\<rparr>, pc := Got n b\<rparr>"
    by (auto simp: pop_queue_def split: list.splits)
  have "simulated H (solo t free ((dev h)\<lparr>m_sensor_msg_queue := q\<rparr>) (srv h) k (P_Relock n b) L_Top) r h'"
    by (rule simulatedI [OF truns.stop [of H, folded heard_simps(1)], unfolded r [symmetric]])
       (use assms(2) h' in simp)
  then show ?thesis using at q
    by (intro simulated_poll [where c = "(0, 0)"]) (auto simp: take_front_def)
qed

lemma poll_simulated:
  assumes e: "embeds h t" and "pc h = Idle" and x: "exec H (Poll n) h = ok (h', r)"
  shows "simulated H t r h'"
proof -
  let ?at = "\<lambda>l pl. solo t l (dev h) (srv h) (lkern t) pl L_Top"
  have t: "t = ?at free P_Out" using embeds_eq [OF e] assms(2) by simp
  have op: "closer t = K_Open" "poller t = P_Out" using e assms(2) by (simp_all add: embeds_def)
  have b: "begin_poll H n h = ok (h', r)" using x assms(2) by simp
  show ?thesis
  proof (cases "n \<le> 0")
    case True
    with b have "h' = h" "r = Some (- EINVAL, [])" by (simp_all add: begin_poll_def)
    moreover have "truns H t [(- EINVAL, [])] t"
      by (rule exec_answer [where a = "T_Poll n", OF _ _ truns.stop]) (use True op in simp_all)
    ultimately show ?thesis using e by (intro simulatedI) simp_all
  next
    case False
    have "simulated H (?at [M_mutex \<mapsto> Poller] (if m_pending_sensors (dev h) = 0 then P_Client n else P_Pick n)) r h'"
      using b False await_simulated [OF op(1), of H h "lkern t" n] finish_simulated [OF _ op(1), of H n h h' r "lkern t"]
      by (auto simp: begin_poll_def)
    then have "simulated H (?at [M_mutex \<mapsto> Poller] (P_Check n)) r h'"
      by (intro simulated_poll [where c = "(0, 0)"]) simp_all
    then have "simulated H (?at free (P_Enter n)) r h'" by (intro simulated_poll [where c = "(0, 0)"]) simp_all
    moreover have "truns H t [] (?at free (P_Enter n))"
    proof (rule exec_silent [where a = "T_Poll n", OF _ _ truns.stop])
      show "texec H (T_Poll n) t = ok (?at free (P_Enter n), None)" using False by (subst t, subst (2) t) simp
    qed (use op in simp)
    ultimately show ?thesis by (rule simulated_silent [rotated])
  qed
qed

lemma queue_simulated:
  assumes e: "embeds h t" and x: "exec H a h = ok (h', r)" and a: "enabled a h" "env_ok a h" "a \<in> {Wake_Sleep, Lock_Queue, Wake_Cv}"
  shows "simulated H t r h'"
proof -
  let ?at = "\<lambda>l pl. solo t l (dev h) (srv h) (lkern t) pl L_Top"
  have t: "t = ?at free (woken (dev h) (stands (pc h)))" by (rule embeds_eq [OF e])
  have op: "closer t = K_Open" using e by (simp add: embeds_def)
  consider n where "a = Wake_Sleep" "pc h = Sleeping n" | n where "a = Lock_Queue" "pc h = Queueing n"
    | n where "a = Wake_Cv" "pc h = Blocked n" using a by auto
  then have "simulated H (?at free (woken (dev h) (stands (pc h)))) r h'"
  proof cases
    case 1
    have "simulated H (?at [M_mutex \<mapsto> Poller] (P_Client n)) None (await n h)" by (rule await_simulated [OF op])
    with 1 x show ?thesis by (intro simulated_poll [where c = "(0, 0)"]) simp_all
  next
    case 2
    have "simulated H (?at [M_msg_queue_mtx \<mapsto> Poller] (P_Front n)) r h'"
    proof (cases "m_sensor_msg_queue (dev h) = []")
      case True
      with x 2 have "h' = h\<lparr>pc := Blocked n\<rparr>" "r = None" by simp_all
      then have "simulated H (?at free (P_Wait n)) r h'"
        using True op by (intro simulatedI [where t' = "?at free (P_Wait n)"]) (auto simp: woken_def intro: truns.stop)
      then show ?thesis using True by (intro simulated_poll [where c = "(0, 0)"]) simp_all
    next
      case False
      with x 2 front_simulated [OF _ op, of n h h' r "P_Front n" H "lkern t"] show ?thesis by simp
    qed
    with 2 show ?thesis by (intro simulated_poll [where c = "(0, 0)"]) simp_all
  next
    case 3
    with x front_simulated [OF _ op, of n h h' r "P_Pop n" H "lkern t"]
    have "simulated H (?at [M_msg_queue_mtx \<mapsto> Poller] (P_Pop n)) r h'" by simp
    then have "simulated H (?at free (P_Wake n)) r h'" by (intro simulated_poll [where c = "(0, 0)"]) simp_all
    with 3 a show ?thesis by (simp add: woken_def)
  qed
  with t show ?thesis by simp
qed

lemma resume_simulated:
  assumes e: "embeds h t" and at: "pc h = Got n buf" and x: "exec H (Resume c) h = ok (h', r)"
  shows "simulated H t r h'"
proof -
  let ?at = "\<lambda>l d pl. solo t l d (srv h) (lkern t) pl L_Top"
  have t: "t = ?at free (dev h) (P_Relock n buf)" using embeds_eq [OF e] at by simp
  have op: "closer t = K_Open" using e by (simp add: embeds_def)
  from x at obtain got d where st: "store_msg H c buf (dev h) = ok (got, d)"
    and rest: "(if got then finish_poll H n (h\<lparr>dev := recycle_buffer buf d\<rparr>) else ok (await n (h\<lparr>dev := d\<rparr>), None)) = ok (h', r)"
    by (auto simp: resume_poll_def process_msg_def Let_def elim!: bindr_okE split: if_splits)
  have "simulated H (?at [M_mutex \<mapsto> Poller] d (if got then P_Pool_Lock n buf else P_Client n)) r h'"
  proof (cases got)
    case True
    from finish_simulated [OF _ op, of H n "h\<lparr>dev := recycle_buffer buf d\<rparr>" h' r "lkern t"] rest True
    have fin: "simulated H (?at [M_mutex \<mapsto> Poller] (recycle_buffer buf d) (P_Pick n)) r h'" by simp
    have "simulated H (?at [M_mutex \<mapsto> Poller, M_msg_pool_mtx \<mapsto> Poller] d (P_Recycle n buf)) r h'"
      by (rule simulated_poll [where c = "(0, 0)", OF _ fin]) (simp add: release_def std.unlock_held fun_upd_twist)
    then have "simulated H (?at [M_mutex \<mapsto> Poller] d (P_Pool_Lock n buf)) r h'"
      by (rule simulated_poll [where c = "(0, 0)", rotated]) (simp add: acquire_def std.lock_free)
    then show ?thesis using True by simp
  next
    case False
    from await_simulated [OF op, of H "h\<lparr>dev := d\<rparr>" "lkern t" n] rest False show ?thesis by simp
  qed
  then have "simulated H (?at [M_mutex \<mapsto> Poller] (dev h) (P_Process n buf)) r h'"
    by (rule simulated_poll [where c = c, rotated]) (simp add: st)
  then have "simulated H (?at free (dev h) (P_Relock n buf)) r h'" by (intro simulated_poll [where c = c]) simp_all
  with t show ?thesis by simp
qed

text \<open>A call of the framework, made by one thread while no other call is under way.\<close>

definition calling :: "threads \<Rightarrow> (mtx, tid) locks \<Rightarrow> SensorDevice \<Rightarrow> caller_pc \<Rightarrow> threads" where
  "calling t l d c = t\<lparr>t_dev := d, mutexes := l, callers := (\<lambda>_. C_Out)(0 := c)\<rparr>"

lemma calling_simps [simp]:
  "t_dev (calling t l d c) = d" "t_srv (calling t l d c) = t_srv t" "mutexes (calling t l d c) = l"
  "callers (calling t l d c) 0 = c" "listening (calling t l d c) = listening t" "closer (calling t l d c) = closer t"
  "(calling t l d c)\<lparr>mutexes := l'\<rparr> = calling t l' d c"
  "(calling t l d c)\<lparr>callers := (callers (calling t l d c))(0 := c')\<rparr> = calling t l d c'"
  "(calling t l d c)\<lparr>t_dev := d', callers := (callers (calling t l d c))(0 := c')\<rparr> = calling t l d' c'"
  by (simp_all add: calling_def)

lemma embeds_calling: "embeds h t \<Longrightarrow> t = calling t free (dev h) C_Out"
  by (cases t) (simp add: embeds_def calling_def fun_upd_idem)

lemma calling_embeds:
  "embeds h t \<Longrightarrow> m_sensor_msg_queue d = m_sensor_msg_queue (dev h) \<Longrightarrow> embeds (h\<lparr>dev := d\<rparr>) (calling t free d C_Out)"
  by (simp add: embeds_def calling_def woken_def fun_upd_idem)

lemma call_body_queue: "call_body H r d = ok (goto, d') \<Longrightarrow> m_sensor_msg_queue d' = m_sensor_msg_queue d"
  by (cases r) (auto simp: change_config_def sensor_device_flush_def Let_def elim!: bindr_okE split: if_splits)

text \<open>What is left of a call after its body: perhaps a message, then the answer.\<close>

definition answers :: "SockServer \<Rightarrow> kern \<Rightarrow> caller_pc \<Rightarrow> int \<Rightarrow> bool" where
  "answers ss k goto ret \<longleftrightarrow> goto = C_Unlock ret \<or>
     (\<exists>msg r k'. goto = C_Client msg \<and> sensor_device_send_config_msg ss msg k = ok (r, k') \<and>
       ret = (if r < 0 then - errno k' else 0))"

lemma answers_intros:
  "answers ss k (C_Unlock ret) ret"
  "sensor_device_send_config_msg ss msg k = ok (r, k') \<Longrightarrow> r < 0 \<Longrightarrow> answers ss k (C_Client msg) (- errno k')"
  "sensor_device_send_config_msg ss msg k = ok (r, k') \<Longrightarrow> \<not> r < 0 \<Longrightarrow> answers ss k (C_Client msg) 0"
  unfolding answers_def by auto

lemma call_simulated:
  assumes e: "embeds h t" and k: "fd_ok k" and b: "begin_call H r = (C_Lock r, None)" "env_fine (T_Call 0 r) t"
    and body: "call_body H r (dev h) = ok (goto, d)" and ans: "answers (srv h) k goto ret"
  shows "simulated H t (Some (ret, [])) (h\<lparr>dev := d\<rparr>)"
proof -
  have t: "t_srv t = srv h" "listening t = L_Top" using e by (simp_all add: embeds_def)
  have fine: "env_fine (T_Caller 0 k) (calling t l d' c)" for l d' c using k t by simp
  note caller = exec_silent [where a = "T_Caller 0 k", OF _ fine]
  have unlock: "truns H (calling t [M_mutex \<mapsto> Caller 0] d (C_Unlock ret)) [(ret, [])] (calling t free d C_Out)"
    by (rule exec_answer [where a = "T_Caller 0 k", OF _ fine truns.stop]) (simp add: release_def std.unlock_held)
  have "truns H (calling t [M_mutex \<mapsto> Caller 0] d goto) [(ret, [])] (calling t free d C_Out)"
  proof (cases "goto = C_Unlock ret")
    case False
    with ans obtain msg q k' where g: "goto = C_Client msg" and s: "sensor_device_send_config_msg (srv h) msg k = ok (q, k')"
      and ret: "ret = (if q < 0 then - errno k' else 0)" by (auto simp: answers_def)
    show ?thesis
    proof (cases "get_sock_client (srv h)")
      case None
      with s ret have "ret = 0" by (simp add: sensor_device_send_config_msg_def split: if_splits)
      with None t(1) g show ?thesis by (intro caller [OF _ unlock]) simp
    next
      case (Some p)
      with s have "send_config (srv h) p msg k = ok (q, k')"
        by (simp add: sensor_device_send_config_msg_def send_config_def)
      then have "truns H (calling t [M_mutex \<mapsto> Caller 0] d (C_Send p msg)) [(ret, [])] (calling t free d C_Out)"
        using t(1) ret by (intro caller [OF _ unlock]) simp
      then show ?thesis using Some t(1) g by (intro caller) simp_all
    qed
  qed (use unlock in simp)
  then have "truns H (calling t [M_mutex \<mapsto> Caller 0] (dev h) (C_Body r)) [(ret, [])] (calling t free d C_Out)"
    by (intro caller) (simp_all add: body)
  then have lock: "truns H (calling t free (dev h) (C_Lock r)) [(ret, [])] (calling t free d C_Out)"
    by (intro caller) (simp_all add: acquire_def std.lock_free)
  have "truns H t [(ret, [])] (calling t free d C_Out)"
  proof (rule exec_silent [where a = "T_Call 0 r", OF _ b(2) lock])
    show "texec H (T_Call 0 r) t = ok (calling t free (dev h) (C_Lock r), None)"
      using b(1) e by (cases t) (simp add: embeds_def calling_def)
  qed
  with calling_embeds [OF e call_body_queue [OF body]] show ?thesis by (intro simulatedI) simp_all
qed

lemma refused_simulated:
  assumes e: "embeds h t" and b: "begin_call H r = (C_Out, Some (ret, []))" "env_fine (T_Call 0 r) t"
  shows "simulated H t (Some (ret, [])) h"
proof -
  have "truns H t [(ret, [])] t"
  proof (rule exec_answer [where a = "T_Call 0 r", OF _ b(2) truns.stop])
    show "texec H (T_Call 0 r) t = ok (t, Some (ret, []))"
      using b(1) e by (cases t) (simp add: embeds_def fun_upd_idem)
  qed
  with e show ?thesis by (intro simulatedI) simp_all
qed

lemma config_simulated:
  assumes e: "embeds h t" and k: "fd_ok k" and a: "a \<in> {Activate i en k, Batch i en k, Set_Delay i en k}"
    and x: "exec H a h = ok (h', r)"
  shows "simulated H t r h'"
proof -
  have op: "env_fine (T_Call 0 q) t" if "\<And>h. q \<noteq> R_Flush h" for q using e that by (simp add: embeds_def)
  show ?thesis
  proof (cases "get_type_from_hanle H i < 0")
    case True
    with a x have r: "h' = h" "r = Some (- EINVAL, [])"
      by (auto simp: config_step_def sensor_device_activate_def sensor_device_batch_def sensor_device_set_delay_def)
    show ?thesis unfolding r by (rule refused_simulated [OF e, where r = "R_Batch i en"]) (use True op [of "R_Batch i en"] in simp_all)
  next
    case False
    have "\<exists>q goto d ret. begin_call H q = (C_Lock q, None) \<and> (\<forall>h. q \<noteq> R_Flush h) \<and> call_body H q (dev h) = ok (goto, d) \<and>
        answers (srv h) k goto ret \<and> r = Some (ret, []) \<and> h' = h\<lparr>dev := d\<rparr>"
    proof -
      consider "a = Activate i en k" | "a = Batch i en k" | "a = Set_Delay i en k" using a by auto
      then show ?thesis
      proof cases
        case 1
        with x False show ?thesis
          by (intro exI [where x = "R_Activate i en"])
             (auto simp: config_step_def sensor_device_activate_def change_config_def Let_def elim!: bindr_okE intro!: answers_intros split: if_splits)
      next
        case 2
        with x False show ?thesis
          by (intro exI [where x = "R_Batch i en"])
             (auto simp: config_step_def sensor_device_batch_def change_config_def Let_def elim!: bindr_okE intro: answers_intros split: if_splits)
      next
        case 3
        with x False show ?thesis
          by (intro exI [where x = "R_Set_Delay i en"])
             (auto simp: config_step_def sensor_device_set_delay_def change_config_def Let_def elim!: bindr_okE intro: answers_intros split: if_splits)
      qed
    qed
    then show ?thesis using call_simulated [OF e k _ op] by blast
  qed
qed

lemma flush_simulated:
  assumes e: "embeds h t" and x: "exec H (Flush i) h = ok (h', r)" and "env_ok (Flush i) h"
  shows "simulated H t r h'"
proof -
  from x obtain ret d where f: "sensor_device_flush H i (dev h) = ok (ret, d)" and r: "r = Some (ret, [])" "h' = h\<lparr>dev := d\<rparr>"
    by (auto elim!: bindr_okE)
  show ?thesis unfolding r
    by (rule call_simulated [OF e, where r = "R_Flush i" and goto = "C_Unlock ret" and k = "(lkern t)\<lparr>sysq := []\<rparr>"])
       (use assms f in \<open>simp_all add: embeds_def answers_def fd_ok_def\<close>)
qed

lemma listen_simulated:
  assumes e: "embeds h t" and inv: "dev_inv H (dev h)" and w: "m_be_working (srv h)"
    and x: "exec H (Listen junk k) h = ok (h', r)" and env: "env_ok (Listen junk k) h"
  shows "simulated H t r h'"
proof -
  from x obtain n ss d k' where l: "listen_round H junk (srv h) (dev h) k = ok (n, ss, d, k')"
    and r: "r = None" "h' = h\<lparr>srv := ss, dev := d\<rparr>" by (auto elim!: bindr_okE)
  show ?thesis
  proof (cases "m_server (srv h) = None")
    case True
    with l have "ss = srv h" "d = dev h"
      by (auto simp: listen_round_def check_new_connection_def check_new_message_def sock_server_has_newconn_def
          sock_server_clients_readable_def Let_def)
    with r e show ?thesis using simulatedI [of H t None t h] by (simp add: truns.stop)
  next
    case False
    let ?at = "\<lambda>k. solo t free (dev h) (srv h) k (woken (dev h) (stands (pc h))) L_Top"
    have "truns H (?at k) [] (solo t free d ss k' (woken d (stands (pc h))) L_Top)"
      by (rule solo_round [OF l w False]) (use env inv in \<open>simp_all add: dev_inv_def\<close>)
    then have "simulated H (?at k) r h'" using r e
      by (intro simulatedI [where t' = "solo t free d ss k' (woken d (stands (pc h))) L_Top"]) (simp_all add: embeds_def)
    moreover have "truns H t [] (?at k)"
      by (rule exec_silent [where a = "T_Kernel k", OF _ _ truns.stop])
         (use env embeds_eq [OF e] in \<open>simp_all add: solo_def\<close>)
    ultimately show ?thesis by (rule simulated_silent [rotated])
  qed
qed

text \<open>Every step of the coarser model.\<close>

lemma step_simulated:
  assumes e: "embeds h t" and inv: "dev_inv H (dev h)" and w: "m_be_working (srv h)" and st: "step H h a r h'"
  shows "simulated H t r h'"
proof -
  from st have en: "enabled a h" and env: "env_ok a h" and x: "exec H a h = ok (h', r)" by (auto elim: stepE)
  show ?thesis
  proof (cases a)
    case (Poll n)
    with poll_simulated [OF e] en x show ?thesis by simp
  next
    case (Resume c)
    with en obtain n buf where "pc h = Got n buf" by auto
    with resume_simulated [OF e this] x Resume show ?thesis by (simp only:)
  next
    case (Listen junk k)
    with listen_simulated [OF e inv w] x env show ?thesis by (simp only:)
  next
    case (Flush i)
    with flush_simulated [OF e] x env show ?thesis by (simp only:)
  next
    case (Activate i v k)
    with config_simulated [OF e, of k a i v] x env show ?thesis by simp
  next
    case (Batch i v k)
    with config_simulated [OF e, of k a i v] x env show ?thesis by simp
  next
    case (Set_Delay i v k)
    with config_simulated [OF e, of k a i v] x env show ?thesis by simp
  qed (use queue_simulated [OF e x en env] in simp_all)
qed

section \<open>States of the coarser model\<close>

text \<open>Only \<open>start\<close>, \<open>stop\<close> and the destructor touch the flag of the loop and the thread.\<close>

lemma drop_running:
  "drop_client cbs i p ss a k = ok (r, ss', a', k') \<Longrightarrow> m_be_working ss' = m_be_working ss \<and> m_thread ss' = m_thread ss"
  by (auto simp: drop_client_def forget_client_def Let_def elim!: bindr_okE split: if_splits)

lemma scan_running:
  "scan_clients cbs ids ss a k = ok (r, ss', a', k') \<Longrightarrow> m_be_working ss' = m_be_working ss \<and> m_thread ss' = m_thread ss"
proof (induction ids arbitrary: ss a k)
  case (Cons i ids)
  from Cons.prems show ?case
    by (auto elim!: bindr_okE split: option.splits sock_conn_status_t.splits dest!: Cons.IH drop_running)
qed simp

lemma round_running:
  assumes "listen_round H junk ss d k = ok (n, ss', d', k')"
  shows "m_be_working ss' = m_be_working ss \<and> m_thread ss' = m_thread ss"
proof -
  from assms obtain n1 ss1 d1 k1 where
    c: "check_new_connection (hal_callbacks H junk) ss d k = ok (n1, ss1, d1, k1)" and
    m: "check_new_message (hal_callbacks H junk) ss1 d1 k1 = ok (n, ss', d', k')"
    by (auto simp: listen_round_def elim!: bindr_okE)
  from connection_split [OF c] have "m_be_working ss1 = m_be_working ss \<and> m_thread ss1 = m_thread ss"
    by (auto simp: accept_client_def enter_client_def Let_def elim!: bindr_okE split: if_splits option.splits)
  moreover from m have "m_be_working ss' = m_be_working ss1 \<and> m_thread ss' = m_thread ss1"
    by (auto simp: check_new_message_def Let_def choose_default_def elim!: bindr_okE split: if_splits option.splits dest!: scan_running)
  ultimately show ?thesis by simp
qed

lemma step_running:
  assumes "step H h a r h'"
  shows "m_be_working (srv h') = m_be_working (srv h) \<and> m_thread (srv h') = m_thread (srv h)"
proof -
  from assms have x: "exec H a h = ok (h', r)" by (auto elim: stepE)
  then show ?thesis
  proof (cases a)
    case (Listen junk k)
    with x show ?thesis by (auto elim!: bindr_okE dest: round_running)
  qed (auto simp: begin_poll_def finish_poll_def pop_queue_def resume_poll_def config_step_def await_def Let_def
      elim!: bindr_okE split: poll_pc.splits if_splits list.splits)
qed

lemma reachable_embeds:
  assumes hdr: "header_ok H" and "reachable H h" and "m_thread (srv h)" and "m_be_working (srv h)"
  shows "\<exists>t. treachable H t \<and> embeds h t"
  using assms(2-)
proof (induction rule: reachable.induct)
  case (init junk trace ss)
  let ?k = "\<lparr>errno = 0, inbox = (\<lambda>_. []), outq = (\<lambda>_. []), sent = (\<lambda>_. []), sysq = [], calls = [], slept_us = 0\<rparr>"
  have "treachable H (threads_init H junk trace ss ?k)"
    using init by (intro treachable.init) (simp_all add: fd_ok_def)
  moreover have "embeds (hal_init H junk trace ss) (threads_init H junk trace ss ?k)"
    using init by (simp add: embeds_def threads_init_def hal_init_def)
  ultimately show ?case by blast
next
  case (next_state h a r h')
  from step_running [OF next_state.hyps(2)] next_state.prems have "m_thread (srv h)" "m_be_working (srv h)" by simp_all
  with next_state.IH obtain t where t: "treachable H t" "embeds h t" by blast
  have "dev_inv H (dev h)" using reachable_inv [OF hdr next_state.hyps(1)] by (simp add: hal_inv_def)
  from step_simulated [OF t(2) this _ next_state.hyps(2)] \<open>m_be_working (srv h)\<close> obtain t' where
    "truns H t (heard r) t'" "embeds h' t'" by (auto simp: simulated_def)
  with truns_reachable t(1) show ?case by blast
qed

end
