(* ===== verification/Thread_Locks.thy ===== *)
theory Thread_Locks
  imports Thread_Simulation
begin

text \<open>
  What the mutexes of the HAL achieve: which state each of them protects, the order in which they are
  taken, and that a thread that waits for one of them can get it.
\<close>

section \<open>Who writes what\<close>

text \<open>The thread that moves in a step; the kernel and the destructor are none.\<close>

fun actor :: "act \<Rightarrow> tid option" where
  "actor (T_Poll n) = Some Poller"
| "actor (T_Poller c) = Some Poller"
| "actor (T_Call i r) = Some (Caller i)"
| "actor (T_Caller i k) = Some (Caller i)"
| "actor (T_Listener junk) = Some Listener"
| "actor _ = None"

text \<open>What the device keeps besides the queue and the pool: the slots, the pending and flush counters,
  the stored configurations, the clock offsets.\<close>

definition main_state :: "SensorDevice \<Rightarrow> SensorDevice" where
  "main_state d = d\<lparr>m_msg_mem_pool := [], m_sensor_msg_queue := []\<rparr>"

lemma main_state_simps [simp]:
  "main_state (d\<lparr>m_sensor_msg_queue := q\<rparr>) = main_state d" "main_state (d\<lparr>m_msg_mem_pool := bs\<rparr>) = main_state d"
  "main_state (recycle_buffer b d) = main_state d" "main_state (new_pool_buffer d) = main_state d"
  "main_state (enqueue_msg b d) = main_state d"
  by (simp_all add: main_state_def recycle_buffer_def new_pool_buffer_def enqueue_msg_def split_beta)

lemma new_pool_queue [simp]: "m_sensor_msg_queue (new_pool_buffer d) = m_sensor_msg_queue d"
  by (simp add: new_pool_buffer_def)

definition guarded_step :: "tid \<Rightarrow> threads \<Rightarrow> threads \<Rightarrow> bool" where
  "guarded_step t s s' \<longleftrightarrow>
     (main_state (t_dev s') \<noteq> main_state (t_dev s) \<longrightarrow> M_mutex \<in> holds s t) \<and>
     (m_sensor_msg_queue (t_dev s') \<noteq> m_sensor_msg_queue (t_dev s) \<longrightarrow> M_msg_queue_mtx \<in> holds s t) \<and>
     (m_msg_mem_pool (t_dev s') \<noteq> m_msg_mem_pool (t_dev s) \<longrightarrow> M_msg_pool_mtx \<in> holds s t \<or>
        t = Listener \<and> (\<exists>i buf. listening s = L_Enqueue i buf) \<and> MAX_MSG_QUEUE_SIZE \<le> length (m_sensor_msg_queue (t_dev s)))"

lemma guarded_same: "t_dev s' = t_dev s \<Longrightarrow> guarded_step t s s'"
  by (simp add: guarded_step_def)

lemma acquire_dev: "acquire t m s = ok s' \<Longrightarrow> t_dev s' = t_dev s \<and> t_srv s' = t_srv s"
  by (auto simp: acquire_def elim!: bindr_okE)

lemma release_dev: "release t m s = ok s' \<Longrightarrow> t_dev s' = t_dev s \<and> t_srv s' = t_srv s"
  by (auto simp: release_def elim!: bindr_okE)

lemma take_front_dev:
  "take_front n s = ok s' \<Longrightarrow> \<exists>q. t_dev s' = (t_dev s)\<lparr>m_sensor_msg_queue := q\<rparr> \<and> t_srv s' = t_srv s"
  by (auto simp: take_front_def elim!: bindr_okE split: list.splits dest!: release_dev)

lemma pick_loop_main:
  "pick_loop H n 0 [] d = ok (r, evs, d') \<Longrightarrow> m_msg_mem_pool d' = m_msg_mem_pool d \<and> m_sensor_msg_queue d' = m_sensor_msg_queue d"
  using pick_loop_frame by blast

lemma poller_guarded:
  assumes hdr: "header_ok H" and inv: "thr_inv H s" and x: "poller_step H c (poller s) s = ok (s', r)"
  shows "guarded_step Poller s s' \<and> t_srv s' = t_srv s"
proof (cases "poller s")
  case (P_Process n buf)
  with thr_invD(3) [OF inv] have b: "length buf = MSG_BUF_SIZE" by simp
  from store_msg_safe [OF hdr thr_invD(2) [OF inv] b, of c] x P_Process show ?thesis
    by (auto simp: guarded_step_def)
qed (use x in \<open>auto simp: guarded_step_def elim!: bindr_okE split: if_splits
      dest!: acquire_dev release_dev take_front_dev pick_loop_main\<close>)

lemma caller_guarded:
  assumes inv: "thr_inv H s" and x: "caller_step H i k (callers s i) s = ok (s', r)"
  shows "guarded_step (Caller i) s s' \<and> t_srv s' = t_srv s"
proof (cases "callers s i")
  case (C_Body q)
  with thr_invD(4) [OF inv, of i] have "request_ok q" by simp
  from call_body_safe [OF thr_invD(2) [OF inv] this, of "t_srv s"] obtain goto d where
    "call_body H q (t_dev s) = ok (goto, d)" "m_msg_mem_pool d = m_msg_mem_pool (t_dev s)"
    "m_sensor_msg_queue d = m_sensor_msg_queue (t_dev s)" by auto
  with x C_Body show ?thesis by (auto simp: guarded_step_def)
qed (use x in \<open>auto simp: guarded_same elim!: bindr_okE dest!: acquire_dev release_dev\<close>)

lemma drop_oldest_short: "length q < MAX_MSG_QUEUE_SIZE \<Longrightarrow> drop_oldest q pool = (q, pool)"
  by (cases q) simp_all

lemma enqueue_pool: "length (m_sensor_msg_queue d) < MAX_MSG_QUEUE_SIZE \<Longrightarrow> m_msg_mem_pool (enqueue_msg b d) = m_msg_mem_pool d"
  by (simp add: enqueue_msg_def drop_oldest_short)

lemma listener_guarded:
  assumes x: "listener_step H junk (listening s) s = ok s'"
  shows "guarded_step Listener s s'"
proof (cases "listening s")
  case (L_Enqueue i buf)
  with x have "t_dev s' = enqueue_msg buf (t_dev s)" by (auto elim!: bindr_okE dest!: release_dev)
  with L_Enqueue enqueue_pool [of "t_dev s" buf] show ?thesis
    by (cases "length (m_sensor_msg_queue (t_dev s)) < MAX_MSG_QUEUE_SIZE") (auto simp: guarded_step_def)
qed (use x in \<open>auto simp: guarded_step_def pop_pool_buffer_def elim!: bindr_okE split: if_splits list.splits
      dest!: acquire_dev release_dev\<close>)

text \<open>A step changes what it changes under the mutex for it, with one exception: a full queue.\<close>

lemma step_guarded:
  assumes "header_ok H" and "thr_inv H s" and "texec H a s = ok (s', r)"
  shows "(\<forall>t. actor a = Some t \<longrightarrow> guarded_step t s s') \<and> (actor a = None \<longrightarrow> t_dev s' = t_dev s) \<and>
    (t_srv s' \<noteq> t_srv s \<longrightarrow> actor a = Some Listener \<or> (\<exists>k. a = T_Close k))"
proof (cases a)
  case (T_Poller c)
  with poller_guarded [OF assms(1,2), of c s' r] assms(3) show ?thesis by simp
next
  case (T_Caller i k)
  with caller_guarded [OF assms(2), of i k s' r] assms(3) show ?thesis by simp
next
  case (T_Listener junk)
  with listener_guarded [of H junk s s'] assms(3) show ?thesis by (auto elim!: bindr_okE)
next
  case (T_Close k)
  have "t_dev s2 = t_dev s" if "closer_step k (closer s) s = ok s2" for s2
    using that by (cases "closer s") (auto simp: SockServer_join_def elim!: bindr_okE split: if_splits)
  with T_Close assms(3) show ?thesis by (auto elim!: bindr_okE)
qed (use assms(3) in \<open>auto simp: guarded_same split: if_splits prod.splits poller_pc.splits\<close>)

section \<open>The order of the mutexes\<close>

text \<open>The mutex a thread is about to lock.\<close>

fun poller_wants :: "poller_pc \<Rightarrow> mtx option" where
  "poller_wants (P_Enter n) = Some M_mutex"
| "poller_wants (P_Sleep n) = Some M_mutex"
| "poller_wants (P_Queue_Lock n) = Some M_msg_queue_mtx"
| "poller_wants (P_Wake n) = Some M_msg_queue_mtx"
| "poller_wants (P_Relock n b) = Some M_mutex"
| "poller_wants (P_Pool_Lock n b) = Some M_msg_pool_mtx"
| "poller_wants _ = None"

fun caller_wants :: "caller_pc \<Rightarrow> mtx option" where
  "caller_wants (C_Lock r) = Some M_mutex"
| "caller_wants _ = None"

fun listener_wants :: "listener_pc \<Rightarrow> mtx option" where
  "listener_wants (L_Config i) = (if i < MAX_NUM_SENSORS then Some M_mutex else None)"
| "listener_wants (L_New_Lock i p hdr len) = Some M_msg_pool_mtx"
| "listener_wants (L_Pool_Lock i p hdr len) = Some M_msg_pool_mtx"
| "listener_wants (L_Queue_Lock i buf) = Some M_msg_queue_mtx"
| "listener_wants _ = None"

fun wants :: "threads \<Rightarrow> tid \<Rightarrow> mtx option" where
  "wants s Poller = poller_wants (poller s)"
| "wants s (Caller i) = caller_wants (callers s i)"
| "wants s Listener = listener_wants (listening s)"

text \<open>A thread that waits for one mutex while it holds another: only the polling thread, for the pool.\<close>

lemma nested_locks: "m \<in> holds s t \<Longrightarrow> wants s t = Some m' \<Longrightarrow> t = Poller \<and> m = M_mutex \<and> m' = M_msg_pool_mtx"
proof (cases t)
  case Poller
  then show "m \<in> holds s t \<Longrightarrow> wants s t = Some m' \<Longrightarrow> t = Poller \<and> m = M_mutex \<and> m' = M_msg_pool_mtx" by (cases "poller s") auto
next
  case (Caller i)
  then show "m \<in> holds s t \<Longrightarrow> wants s t = Some m' \<Longrightarrow> t = Poller \<and> m = M_mutex \<and> m' = M_msg_pool_mtx" by (cases "callers s i") auto
next
  case Listener
  then show "m \<in> holds s t \<Longrightarrow> wants s t = Some m' \<Longrightarrow> t = Poller \<and> m = M_mutex \<and> m' = M_msg_pool_mtx" by (cases "listening s") auto
qed

section \<open>Progress\<close>

text \<open>Some continuation leads to a state with the property.\<close>

definition runs_to :: "sensors_h \<Rightarrow> threads \<Rightarrow> (threads \<Rightarrow> bool) \<Rightarrow> bool" where
  "runs_to H s P \<longleftrightarrow> (\<exists>rs s'. truns H s rs s' \<and> P s')"

lemma runs_now: "P s \<Longrightarrow> runs_to H s P"
  by (auto simp: runs_to_def intro: truns.stop)

lemma runs_then: "runs_to H s Q \<Longrightarrow> (\<And>s'. Q s' \<Longrightarrow> runs_to H s' P) \<Longrightarrow> runs_to H s P"
  unfolding runs_to_def by (metis truns_append)

lemma runs_mono: "runs_to H s Q \<Longrightarrow> (\<And>s'. Q s' \<Longrightarrow> P s') \<Longrightarrow> runs_to H s P"
  by (auto simp: runs_to_def)

lemma runs_step:
  assumes "header_ok H" and "thr_inv H s" and "env_fine a s" and "texec H a s = ok (s', r)"
    and "thr_inv H s' \<Longrightarrow> runs_to H s' P"
  shows "runs_to H s P"
proof -
  from texec_good [OF assms(1-3)] assms(4) have "thr_inv H s'" by simp
  with assms(5) obtain rs s'' where run: "truns H s' rs s''" and P: "P s''" by (auto simp: runs_to_def)
  have st: "tstep H s a r s'" using assms(3,4) by (rule tstep.intros)
  show ?thesis
  proof (cases r)
    case None
    with st truns.silent [OF _ run] P show ?thesis by (auto simp: runs_to_def)
  next
    case (Some ans)
    from truns.answer [OF st [unfolded Some] run] P show ?thesis by (auto simp: runs_to_def)
  qed
qed

subsection \<open>The polling thread\<close>

definition poller_free :: "sensors_h \<Rightarrow> (nat \<Rightarrow> caller_pc) \<Rightarrow> listener_pc \<Rightarrow> threads \<Rightarrow> bool" where
  "poller_free H c l s \<longleftrightarrow> thr_inv H s \<and> poller_holds (poller s) = {} \<and> callers s = c \<and> listening s = l"

lemma poller_owns: "thr_inv H s \<Longrightarrow> m \<in> poller_holds (poller s) \<Longrightarrow> mutexes s m = Some Poller"
  using lock_owner [of s m Poller] thr_invD(1) by simp

lemma poller_lets_go:
  assumes hdr: "header_ok H" and inv: "thr_inv H s"
    and at: "poller s \<in> {P_Client n, P_Pick n, P_Front n, P_Pop n}"
  shows "runs_to H s (poller_free H (callers s) (listening s))"
proof -
  have "\<exists>s' r. texec H (T_Poller (0, 0)) s = ok (s', r) \<and> poller_holds (poller s') = {} \<and> callers s' = callers s \<and> listening s' = listening s"
  proof -
    consider "poller s = P_Client n" | "poller s = P_Pick n" | "poller s = P_Front n" | "poller s = P_Pop n" using at by auto
    then show ?thesis
    proof cases
      case 1
      then show ?thesis using poller_owns [OF inv, of M_mutex] by (simp add: release_held)
    next
      case 2
      from pick_loop_spec [OF hdr thr_invD(2) [OF inv], of "nat n" 0 "[]"] obtain out d' where
        "pick_loop H (nat n) 0 [] (t_dev s) = ok (int (length out), out, d')" by auto
      with 2 show ?thesis using poller_owns [OF inv, of M_mutex] by (simp add: release_held)
    next
      case 3
      then show ?thesis using poller_owns [OF inv, of M_msg_queue_mtx]
        by (auto simp: take_front_def release_held split: list.splits)
    next
      case 4
      with thr_invD(3) [OF inv] have "m_sensor_msg_queue (t_dev s) \<noteq> []" by simp
      with 4 show ?thesis using poller_owns [OF inv, of M_msg_queue_mtx]
        by (auto simp: take_front_def release_held split: list.splits)
    qed
  qed
  then obtain s' r where st: "texec H (T_Poller (0, 0)) s = ok (s', r)"
    and fin: "poller_holds (poller s') = {}" "callers s' = callers s" "listening s' = listening s" by blast
  show ?thesis by (rule runs_step [OF hdr inv _ st]) (use fin in \<open>auto simp: poller_free_def intro: runs_now\<close>)
qed

lemma poller_recycles:
  assumes hdr: "header_ok H" and inv: "thr_inv H s" and at: "poller s = P_Pool_Lock n b"
    and pool: "mutexes s M_msg_pool_mtx = None"
  shows "runs_to H s (poller_free H (callers s) (listening s))"
proof -
  let ?s1 = "s\<lparr>mutexes := (mutexes s)(M_msg_pool_mtx \<mapsto> Poller), poller := P_Recycle n b\<rparr>"
  have "texec H (T_Poller (0, 0)) s = ok (?s1, None)"
    using at pool by (simp add: acquire_def std.lock_free)
  then show ?thesis
  proof (rule runs_step [OF hdr inv, rotated])
    assume i1: "thr_inv H ?s1"
    let ?s2 = "?s1\<lparr>t_dev := recycle_buffer b (t_dev s), mutexes := (mutexes ?s1)(M_msg_pool_mtx := None), poller := P_Pick n\<rparr>"
    have "texec H (T_Poller (0, 0)) ?s1 = ok (?s2, None)" by (simp add: release_held)
    then show "runs_to H ?s1 (poller_free H (callers s) (listening s))"
    proof (rule runs_step [OF hdr i1, rotated])
      assume "thr_inv H ?s2"
      from poller_lets_go [OF hdr this, of n] show "runs_to H ?s2 (poller_free H (callers s) (listening s))" by simp
    qed simp
  qed simp
qed

lemma poller_frees:
  assumes hdr: "header_ok H" and inv: "thr_inv H s" and pool: "mutexes s M_msg_pool_mtx \<in> {None, Some Poller}"
  shows "runs_to H s (poller_free H (callers s) (listening s))"
proof (cases "poller s")
  case (P_Check n)
  let ?s = "s\<lparr>poller := (if m_pending_sensors (t_dev s) = 0 then P_Client n else P_Pick n)\<rparr>"
  have "texec H (T_Poller (0, 0)) s = ok (?s, None)" using P_Check by simp
  then show ?thesis
  proof (rule runs_step [OF hdr inv, rotated])
    assume "thr_inv H ?s"
    from poller_lets_go [OF hdr this, of n] show "runs_to H ?s (poller_free H (callers s) (listening s))" by simp
  qed simp
next
  case (P_Process n b)
  with thr_invD(3) [OF inv] have b: "length b = MSG_BUF_SIZE" by simp
  from store_msg_safe [OF hdr thr_invD(2) [OF inv] b, of "(0, 0)"] obtain got d where
    st: "store_msg H (0, 0) b (t_dev s) = ok (got, d)" by auto
  let ?s = "s\<lparr>t_dev := d, poller := (if got then P_Pool_Lock n b else P_Client n)\<rparr>"
  have "texec H (T_Poller (0, 0)) s = ok (?s, None)" using P_Process st by simp
  then show ?thesis
  proof (rule runs_step [OF hdr inv, rotated])
    assume i: "thr_inv H ?s"
    have "M_msg_pool_mtx \<notin> holds s Poller" using P_Process by simp
    with pool thr_invD(1) [OF inv] have "mutexes ?s M_msg_pool_mtx = None" by (auto simp: lock_inv_def)
    with poller_lets_go [OF hdr i, of n] poller_recycles [OF hdr i, of n b]
    show "runs_to H ?s (poller_free H (callers s) (listening s))" by (cases got) simp_all
  qed simp
next
  case (P_Pool_Lock n b)
  have "M_msg_pool_mtx \<notin> holds s Poller" using P_Pool_Lock by simp
  with pool thr_invD(1) [OF inv] have "mutexes s M_msg_pool_mtx = None" by (auto simp: lock_inv_def)
  from poller_recycles [OF hdr inv P_Pool_Lock this] show ?thesis .
next
  case (P_Recycle n b)
  let ?s = "s\<lparr>t_dev := recycle_buffer b (t_dev s), mutexes := (mutexes s)(M_msg_pool_mtx := None), poller := P_Pick n\<rparr>"
  have "texec H (T_Poller (0, 0)) s = ok (?s, None)"
    using P_Recycle poller_owns [OF inv, of M_msg_pool_mtx] by (simp add: release_held)
  then show ?thesis
  proof (rule runs_step [OF hdr inv, rotated])
    assume "thr_inv H ?s"
    from poller_lets_go [OF hdr this, of n] show "runs_to H ?s (poller_free H (callers s) (listening s))" by simp
  qed simp
qed (use poller_lets_go [OF hdr inv] inv in \<open>auto simp: poller_free_def intro: runs_now\<close>)

subsection \<open>The other calls\<close>

text \<open>Some kernel takes the message; the send has a timeout, so it always returns.\<close>

lemma send_config_returns:
  assumes live: "client_fd ss p \<noteq> None" and msg: "length msg = SIZEOF_CONFIG_MSG"
  shows "\<exists>k r k'. fd_ok k \<and> send_config ss p msg k = ok (r, k')"
proof -
  from live obtain fd where fd: "client_fd ss p = Some fd" by auto
  let ?k = "\<lparr>errno = 0, inbox = (\<lambda>_. []), outq = (\<lambda>_. replicate (length msg + nat (5 + 2)) (Sent 1)), sent = (\<lambda>_. []),
    sysq = [], calls = [], slept_us = 0\<rparr>"
  have "\<exists>res. push (Some 5) (length msg) (errno ?k) (outq ?k fd) = Some res" by (rule push_enough) simp
  then obtain res where "push (Some 5) (length msg) (errno ?k) (outq ?k fd) = Some res" by blast
  with send_data_timeout [OF fd, of "int (length msg)" msg 5 ?k] msg
  have "\<exists>r k'. send_config ss p msg ?k = ok (r, k')"
    by (auto simp: send_config_def send_result_def SIZEOF_CONFIG_MSG_def split_beta)
  moreover have "fd_ok ?k" by (simp add: fd_ok_def)
  ultimately show ?thesis by blast
qed

definition caller_free :: "sensors_h \<Rightarrow> nat \<Rightarrow> threads \<Rightarrow> threads \<Rightarrow> bool" where
  "caller_free H i s s' \<longleftrightarrow> thr_inv H s' \<and> callers s' = (callers s)(i := C_Out) \<and> poller s' = poller s \<and> listening s' = listening s"

lemma caller_unlocks:
  assumes hdr: "header_ok H" and inv: "thr_inv H s" and at: "callers s i = C_Unlock r"
  shows "runs_to H s (caller_free H i s)"
proof -
  let ?k = "(lkern s)\<lparr>sysq := []\<rparr>"
  have "mutexes s M_mutex = Some (Caller i)" using lock_owner [OF thr_invD(1) [OF inv], of M_mutex "Caller i"] at by simp
  then have "texec H (T_Caller i ?k) s = ok (s\<lparr>mutexes := (mutexes s)(M_mutex := None), callers := (callers s)(i := C_Out)\<rparr>, Some (r, []))"
    using at by (simp add: release_held)
  then show ?thesis
    by (rule runs_step [OF hdr inv, rotated]) (use at in \<open>auto simp: caller_free_def fd_ok_def intro: runs_now\<close>)
qed

lemma caller_sends:
  assumes hdr: "header_ok H" and inv: "thr_inv H s" and at: "callers s i = C_Send p msg"
  shows "runs_to H s (caller_free H i s)"
proof -
  from thr_invD(4) [OF inv, of i] at have "client_fd (t_srv s) p \<noteq> None" "length msg = SIZEOF_CONFIG_MSG" by simp_all
  from send_config_returns [OF this] obtain k ret k' where k: "fd_ok k" "send_config (t_srv s) p msg k = ok (ret, k')" by blast
  let ?s = "s\<lparr>callers := (callers s)(i := C_Unlock (if ret < 0 then - errno k' else 0))\<rparr>"
  have "texec H (T_Caller i k) s = ok (?s, None)" using at k by simp
  then show ?thesis
  proof (rule runs_step [OF hdr inv, rotated])
    assume "thr_inv H ?s"
    from caller_unlocks [OF hdr this, of i] show "runs_to H ?s (caller_free H i s)" by (simp add: caller_free_def [abs_def])
  qed (use at k in simp)
qed

lemma caller_asks:
  assumes hdr: "header_ok H" and inv: "thr_inv H s" and at: "callers s i = C_Client msg" and quiet: "deleted_client (listening s) = None"
  shows "runs_to H s (caller_free H i s)"
proof -
  let ?k = "(lkern s)\<lparr>sysq := []\<rparr>"
  let ?goto = "case get_sock_client (t_srv s) of None \<Rightarrow> C_Unlock 0 | Some p \<Rightarrow> C_Send p msg"
  let ?s = "s\<lparr>callers := (callers s)(i := ?goto)\<rparr>"
  have "texec H (T_Caller i ?k) s = ok (?s, None)" using at by simp
  then show ?thesis
  proof (rule runs_step [OF hdr inv, rotated])
    assume i: "thr_inv H ?s"
    show "runs_to H ?s (caller_free H i s)"
    proof (cases "get_sock_client (t_srv s)")
      case None
      with caller_unlocks [OF hdr i, of i 0] show ?thesis by (simp add: caller_free_def [abs_def])
    next
      case (Some p)
      with caller_sends [OF hdr i, of i p msg] show ?thesis by (simp add: caller_free_def [abs_def])
    qed
  qed (use at quiet in \<open>simp add: fd_ok_def\<close>)
qed

lemma caller_frees:
  assumes hdr: "header_ok H" and inv: "thr_inv H s" and quiet: "deleted_client (listening s) = None"
    and at: "caller_holds (callers s i) \<noteq> {} \<or> callers s i \<noteq> C_Out \<and> mutexes s M_mutex = None"
  shows "runs_to H s (caller_free H i s)"
proof -
  let ?k = "(lkern s)\<lparr>sysq := []\<rparr>"
  have body: "runs_to H s' (caller_free H i s')" if i: "thr_inv H s'" and b: "callers s' i = C_Body q"
    and q: "deleted_client (listening s') = None" for s' q
  proof -
    from thr_invD(4) [OF i, of i] b have "request_ok q" by simp
    from call_body_safe [OF thr_invD(2) [OF i] this, of "t_srv s'"] obtain goto d where
      g: "call_body H q (t_dev s') = ok (goto, d)" "caller_holds goto = {M_mutex}" by auto
    let ?s = "s'\<lparr>t_dev := d, callers := (callers s')(i := goto)\<rparr>"
    have "texec H (T_Caller i ?k) s' = ok (?s, None)" using b g by simp
    then show ?thesis
    proof (rule runs_step [OF hdr i, rotated])
      assume j: "thr_inv H ?s"
      from g(1) have "(\<exists>r. goto = C_Unlock r) \<or> (\<exists>msg. goto = C_Client msg)"
        by (cases q) (auto elim!: bindr_okE split: if_splits)
      with caller_unlocks [OF hdr j, of i] caller_asks [OF hdr j, of i] q
      show "runs_to H ?s (caller_free H i s')" by (auto simp: caller_free_def [abs_def])
    qed (use b in \<open>simp add: fd_ok_def\<close>)
  qed
  show ?thesis
  proof (cases "callers s i")
    case (C_Lock q)
    let ?s = "s\<lparr>mutexes := (mutexes s)(M_mutex \<mapsto> Caller i), callers := (callers s)(i := C_Body q)\<rparr>"
    have "texec H (T_Caller i ?k) s = ok (?s, None)" using C_Lock at by (simp add: acquire_def std.lock_free)
    then show ?thesis
    proof (rule runs_step [OF hdr inv, rotated])
      assume "thr_inv H ?s"
      from body [OF this, of q] quiet show "runs_to H ?s (caller_free H i s)" by (simp add: caller_free_def [abs_def])
    qed (use C_Lock in \<open>simp add: fd_ok_def\<close>)
  next
    case (C_Body q)
    with body [OF inv] quiet show ?thesis by simp
  next
    case (C_Client msg)
    with caller_asks [OF hdr inv _ quiet] show ?thesis by blast
  next
    case (C_Send p msg)
    with caller_sends [OF hdr inv] show ?thesis by blast
  next
    case (C_Unlock r)
    with caller_unlocks [OF hdr inv] show ?thesis by blast
  qed (use at in simp)
qed

subsection \<open>The listener\<close>

text \<open>The listener holds nothing, and the default client is not one it has deleted.\<close>

definition quiet :: "sensors_h \<Rightarrow> (nat \<Rightarrow> caller_pc) \<Rightarrow> threads \<Rightarrow> bool" where
  "quiet H c s \<longleftrightarrow> thr_inv H s \<and> listener_holds (listening s) = {} \<and> deleted_client (listening s) = None \<and> callers s = c"

lemma listener_owns: "thr_inv H s \<Longrightarrow> m \<in> listener_holds (listening s) \<Longrightarrow> mutexes s m = Some Listener"
  using lock_owner [of s m Listener] thr_invD(1) by simp

lemma listener_unlocks:
  assumes hdr: "header_ok H" and inv: "thr_inv H s" and at: "listening s = L_Config_Unlock i"
  shows "runs_to H s (quiet H (callers s))"
proof -
  have "texec H (T_Listener (0, 0)) s = ok (s\<lparr>mutexes := (mutexes s)(M_mutex := None), listening := L_Config (Suc i)\<rparr>, None)"
    using at listener_owns [OF inv, of M_mutex] by (simp add: release_held)
  then show ?thesis
    by (rule runs_step [OF hdr inv, rotated]) (use at in \<open>auto simp: quiet_def intro: runs_now\<close>)
qed

lemma listener_sends:
  assumes hdr: "header_ok H" and inv: "thr_inv H s" and at: "listening s = L_Config_Send i p"
  shows "runs_to H s (quiet H (callers s))"
proof -
  have "closer s \<noteq> K_Closed" using thr_invD(9) [OF inv] at by auto
  with thr_invD(6) [OF inv] at have i: "i < MAX_NUM_SENSORS" and live: "client_fd (t_srv s) p \<noteq> None" by (simp_all add: srv_ok_def)
  let ?c = "m_sensor_config_status (t_dev s) ! i"
  have c: "arr_get (m_sensor_config_status (t_dev s)) (int i) = ok ?c"
    using i thr_invD(2) [OF inv] by (simp add: arr_get_ok dev_inv_def)
  have "length (config_bytes ?c) = SIZEOF_CONFIG_MSG" by simp
  from send_config_returns [OF live this] obtain k ret k' where k: "fd_ok k" "send_config (t_srv s) p (config_bytes ?c) k = ok (ret, k')" by blast
  have "texec H (T_Kernel k) s = ok (s\<lparr>lkern := k\<rparr>, None)" by simp
  then show ?thesis
  proof (rule runs_step [OF hdr inv, rotated])
    assume j: "thr_inv H (s\<lparr>lkern := k\<rparr>)"
    let ?s = "s\<lparr>lkern := k', listening := L_Config_Unlock i\<rparr>"
    have "texec H (T_Listener (0, 0)) (s\<lparr>lkern := k\<rparr>) = ok (?s, None)" using at c k by simp
    then show "runs_to H (s\<lparr>lkern := k\<rparr>) (quiet H (callers s))"
    proof (rule runs_step [OF hdr j, rotated])
      assume "thr_inv H ?s"
      from listener_unlocks [OF hdr this] show "runs_to H ?s (quiet H (callers s))" by simp
    qed (use at in simp)
  qed (use k in simp)
qed

lemma listener_frees_one:
  assumes hdr: "header_ok H" and inv: "thr_inv H s" and env: "env_fine (T_Listener (0, 0)) s"
    and moves: "listener_step H (0, 0) (listening s) s \<noteq> None"
    and next_pc: "\<And>s'. listener_step H (0, 0) (listening s) s = ok s' \<Longrightarrow>
      listener_holds (listening s') = {} \<and> deleted_client (listening s') = None \<and> callers s' = callers s"
  shows "runs_to H s (quiet H (callers s))"
proof -
  from texec_good [OF hdr inv env] moves obtain s' where st: "listener_step H (0, 0) (listening s) s = ok s'" and i: "thr_inv H s'"
    by (cases "listener_step H (0, 0) (listening s) s") (auto simp: bindr_def split: sum.splits)
  have "texec H (T_Listener (0, 0)) s = ok (s', None)" using st by simp
  then show ?thesis
    by (rule runs_step [OF hdr inv env]) (use next_pc [OF st] in \<open>auto simp: quiet_def intro: runs_now\<close>)
qed

lemma release_frame: "release t m s = ok s' \<Longrightarrow> callers s' = callers s \<and> listening s' = listening s \<and> poller s' = poller s"
  by (auto simp: release_def elim!: bindr_okE)

lemma listener_frees:
  assumes hdr: "header_ok H" and inv: "thr_inv H s"
  shows "runs_to H s (quiet H (callers s))"
proof (cases "listening s")
  case (L_Config_Client i)
  let ?s = "s\<lparr>listening := (case get_sock_client (t_srv s) of None \<Rightarrow> L_Config_Unlock i | Some p \<Rightarrow> L_Config_Send i p)\<rparr>"
  have "texec H (T_Listener (0, 0)) s = ok (?s, None)" using L_Config_Client by simp
  then show ?thesis
  proof (rule runs_step [OF hdr inv, rotated])
    assume j: "thr_inv H ?s"
    show "runs_to H ?s (quiet H (callers s))"
    proof (cases "get_sock_client (t_srv s)")
      case None
      with listener_unlocks [OF hdr j, of i] show ?thesis by simp
    next
      case (Some p)
      with listener_sends [OF hdr j, of i p] show ?thesis by simp
    qed
  qed (use L_Config_Client in simp)
next
  case (L_Config_Send i p)
  with listener_sends [OF hdr inv] show ?thesis by blast
next
  case (L_Config_Unlock i)
  with listener_unlocks [OF hdr inv] show ?thesis by blast
next
  case (L_New i p h l)
  show ?thesis
    by (rule listener_frees_one [OF hdr inv])
       (use L_New listener_owns [OF inv, of M_msg_pool_mtx] in \<open>auto simp: release_held\<close>)
next
  case (L_Pool_Take i p h l)
  show ?thesis
    by (rule listener_frees_one [OF hdr inv])
       (use L_Pool_Take listener_owns [OF inv, of M_msg_pool_mtx] in
         \<open>auto simp: release_held pop_pool_buffer_def buf_write_def elim!: bindr_okE split: list.splits if_splits\<close>)
next
  case (L_Enqueue i b)
  show ?thesis
    by (rule listener_frees_one [OF hdr inv])
       (use L_Enqueue listener_owns [OF inv, of M_msg_queue_mtx] in \<open>auto simp: release_held\<close>)
next
  case (L_Forget i p)
  show ?thesis
    by (rule listener_frees_one [OF hdr inv])
       (use L_Forget in \<open>auto simp: forget_client_def arr_set_def Let_def elim!: bindr_okE split: if_splits\<close>)
qed (use inv in \<open>auto simp: quiet_def intro: runs_now\<close>)

text \<open>What the other threads leave alone: the listener, the kernel on its sockets, the destructor.\<close>

abbreviation listener_side :: "threads \<Rightarrow> listener_pc \<times> kern \<times> closer_pc" where
  "listener_side s \<equiv> (listening s, lkern s, closer s)"

lemma acquire_side: "acquire t m s = ok s' \<Longrightarrow> listener_side s' = listener_side s"
  by (auto simp: acquire_def elim!: bindr_okE)

lemma release_side: "release t m s = ok s' \<Longrightarrow> listener_side s' = listener_side s"
  by (auto simp: release_def elim!: bindr_okE)

lemma poller_side: "poller_step H c (poller s) s = ok (s', r) \<Longrightarrow> listener_side s' = listener_side s"
  by (cases "poller s")
     (auto simp: take_front_def elim!: bindr_okE split: if_splits list.splits dest!: acquire_side release_side)

lemma caller_side: "caller_step H i k (callers s i) s = ok (s', r) \<Longrightarrow> listener_side s' = listener_side s"
  by (cases "callers s i") (auto elim!: bindr_okE split: if_splits option.splits dest!: acquire_side release_side)

section \<open>No deadlock\<close>

text \<open>From every state the threads can get to one in which no mutex is held.\<close>

lemma all_free: "thr_inv H s \<Longrightarrow> (\<And>t. holds s t = {}) \<Longrightarrow> mutexes s = Map.empty"
  using thr_invD(1) [of H s] by (auto simp: lock_inv_def fun_eq_iff)

definition idle_locks :: "sensors_h \<Rightarrow> threads \<Rightarrow> bool" where
  "idle_locks H s \<longleftrightarrow> thr_inv H s \<and> mutexes s = Map.empty \<and> deleted_client (listening s) = None"

lemma poller_then_free:
  assumes hdr: "header_ok H" and q: "quiet H c s" and c: "\<And>i. caller_holds (c i) = {}"
  shows "runs_to H s (idle_locks H)"
proof -
  from q have inv: "thr_inv H s" and l: "listener_holds (listening s) = {}" "deleted_client (listening s) = None" and cs: "callers s = c"
    by (simp_all add: quiet_def)
  have "mutexes s M_msg_pool_mtx \<noteq> Some t" if "t \<noteq> Poller" for t
    using that thr_invD(1) [OF inv] l c cs by (cases t) (auto simp: lock_inv_def)
  then have "mutexes s M_msg_pool_mtx \<in> {None, Some Poller}" by (cases "mutexes s M_msg_pool_mtx") auto
  from poller_frees [OF hdr inv this] show ?thesis
  proof (rule runs_mono)
    fix s' assume f: "poller_free H (callers s) (listening s) s'"
    have "holds s' t = {}" for t using f l c cs by (cases t) (simp_all add: poller_free_def)
    with all_free [of H s'] f l show "idle_locks H s'" by (simp add: poller_free_def idle_locks_def)
  qed
qed

lemma locks_become_free:
  assumes hdr: "header_ok H" and inv: "thr_inv H s"
  shows "runs_to H s (idle_locks H)"
  using listener_frees [OF hdr inv]
proof (rule runs_then)
  fix s1 assume q: "quiet H (callers s) s1"
  then have i1: "thr_inv H s1" and l: "listener_holds (listening s1) = {}" "deleted_client (listening s1) = None" by (simp_all add: quiet_def)
  show "runs_to H s1 (idle_locks H)"
  proof (cases "\<exists>i. caller_holds (callers s1 i) \<noteq> {}")
    case True
    then obtain i where i: "caller_holds (callers s1 i) \<noteq> {}" by blast
    have hold: "M_mutex \<in> holds s1 (Caller j)" if "caller_holds (callers s1 j) \<noteq> {}" for j
      using that by (cases "callers s1 j") auto
    have others: "caller_holds (callers s1 j) = {}" if "j \<noteq> i" for j
      using that holds_exclusive [OF thr_invD(1) [OF i1] hold [OF i] hold, of j] by auto
    from caller_frees [OF hdr i1 l(2)] i have "runs_to H s1 (caller_free H i s1)" by blast
    then show ?thesis
    proof (rule runs_then)
      fix s2 assume f: "caller_free H i s1 s2"
      then have "quiet H (callers s2) s2" using l by (simp add: caller_free_def quiet_def)
      moreover have "caller_holds (callers s2 j) = {}" for j using f others by (simp add: caller_free_def)
      ultimately show "runs_to H s2 (idle_locks H)" by (rule poller_then_free [OF hdr])
    qed
  next
    case False
    with q show ?thesis by (intro poller_then_free [OF hdr, of "callers s"]) (auto simp: quiet_def)
  qed
qed

text \<open>A call that has begun can be finished.\<close>

lemma call_finishes:
  assumes hdr: "header_ok H" and inv: "thr_inv H s"
  shows "runs_to H s (\<lambda>s'. callers s' i = C_Out)"
  using locks_become_free [OF hdr inv]
proof (rule runs_then)
  fix s1 assume f: "idle_locks H s1"
  show "runs_to H s1 (\<lambda>s'. callers s' i = C_Out)"
  proof (cases "callers s1 i = C_Out")
    case False
    with f have "runs_to H s1 (caller_free H i s1)" by (intro caller_frees [OF hdr]) (simp_all add: idle_locks_def)
    then show ?thesis by (rule runs_mono) (simp add: caller_free_def)
  qed (simp add: runs_now)
qed

text \<open>A polling thread that was woken up can take its message.\<close>

lemma woken_takes_free:
  assumes hdr: "header_ok H" and inv: "thr_inv H s" and at: "poller s = P_Wake n" and m: "mutexes s M_msg_queue_mtx = None"
  shows "runs_to H s (\<lambda>s'. \<exists>b. poller s' = P_Relock n b)"
proof -
  let ?s = "s\<lparr>mutexes := (mutexes s)(M_msg_queue_mtx \<mapsto> Poller), poller := P_Pop n\<rparr>"
  have "texec H (T_Poller (0, 0)) s = ok (?s, None)" using at m by (simp add: acquire_def std.lock_free)
  then show ?thesis
  proof (rule runs_step [OF hdr inv, rotated])
    assume j: "thr_inv H ?s"
    from thr_invD(3) [OF j] obtain b q where q: "m_sensor_msg_queue (t_dev s) = b # q" by (auto simp: neq_Nil_conv)
    have "texec H (T_Poller (0, 0)) ?s = ok (?s\<lparr>t_dev := (t_dev s)\<lparr>m_sensor_msg_queue := q\<rparr>, mutexes := (mutexes ?s)(M_msg_queue_mtx := None),
        poller := P_Relock n b\<rparr>, None)" by (simp add: take_front_def q release_held)
    then show "runs_to H ?s (\<lambda>s'. \<exists>b. poller s' = P_Relock n b)"
      by (rule runs_step [OF hdr j, rotated]) (auto intro: runs_now)
  qed simp
qed

lemma woken_takes:
  assumes hdr: "header_ok H" and inv: "thr_inv H s" and at: "poller s = P_Wake n"
  shows "runs_to H s (\<lambda>s'. \<exists>b. poller s' = P_Relock n b)"
proof (cases "mutexes s M_msg_queue_mtx")
  case (Some t)
  with thr_invD(1) [OF inv] have "M_msg_queue_mtx \<in> holds s t" by (simp add: lock_inv_def)
  moreover have "M_msg_queue_mtx \<notin> caller_holds c" for c by (cases c) simp_all
  moreover have "\<exists>i buf. l = L_Enqueue i buf" if "M_msg_queue_mtx \<in> listener_holds l" for l using that by (cases l) auto
  ultimately obtain i buf where l: "listening s = L_Enqueue i buf" "t = Listener" using at by (cases t) (simp_all, blast)
  let ?s = "s\<lparr>t_dev := enqueue_msg buf (t_dev s), poller := P_Wake n, mutexes := (mutexes s)(M_msg_queue_mtx := None), listening := L_Scan (Suc i)\<rparr>"
  have "texec H (T_Listener (0, 0)) s = ok (?s, None)" using l at Some by (simp add: release_held)
  then show ?thesis
  proof (rule runs_step [OF hdr inv, rotated])
    assume "thr_inv H ?s"
    from woken_takes_free [OF hdr this] show "runs_to H ?s (\<lambda>s'. \<exists>b. poller s' = P_Relock n b)" by simp
  qed (use l in simp)
qed (rule woken_takes_free [OF hdr inv at])

end
