(* ===== verification/Fixtures.thy ===== *)
theory Fixtures
  imports Sensor_Scenarios Sock_Peer Fd_Passing Thread_Locks
begin

text \<open>
  A concrete HAL on which the properties are applied: the constants of the Android Open Source Project, a
  server with one client on descriptor 7, a freshly constructed device, and scripted kernels.
\<close>

section \<open>Kernels\<close>

definition kern0 :: kern where
  "kern0 = \<lparr>errno = 0, inbox = (\<lambda>_. []), outq = (\<lambda>_. []), sent = (\<lambda>_. []), sysq = [], calls = [], slept_us = 0\<rparr>"

definition ans :: "int \<Rightarrow> int list \<Rightarrow> int \<Rightarrow> sysans" where
  "ans r fds v = \<lparr>ans_ret = r, ans_errno = 0, ans_fds = fds, ans_val = v, ans_str = []\<rparr>"

lemma ans_simps [simp]:
  "ans_ret (ans r fds v) = r" "ans_errno (ans r fds v) = 0" "ans_fds (ans r fds v) = fds" "ans_val (ans r fds v) = v"
  by (simp_all add: ans_def)

text \<open>A kernel with bytes waiting on descriptor 7, one that takes what is sent to it, and one that
  answers system calls.\<close>

definition kern_in :: "recv_out list \<Rightarrow> kern" where
  "kern_in outs = kern0\<lparr>inbox := (\<lambda>_. [])(7 := outs)\<rparr>"

definition kern_out :: "send_out list \<Rightarrow> kern" where
  "kern_out outs = kern0\<lparr>outq := (\<lambda>_. [])(7 := outs)\<rparr>"

definition kern_sys :: "sysans list \<Rightarrow> kern" where
  "kern_sys as = kern0\<lparr>sysq := as\<rparr>"

lemma kern_simps [simp]:
  "inbox (kern_in outs) 7 = outs" "errno (kern_in outs) = 0" "sysq (kern_in outs) = []"
  "outq (kern_out so) 7 = so" "errno (kern_out so) = 0" "sent (kern_out so) 7 = []" "sysq (kern_out so) = []"
  "sysq (kern_sys as) = as" "sysq kern0 = []" "slept_us (kern_in outs) = 0" "calls kern0 = []" "calls (kern_sys as) = []"
  "slept_us (kern_out so) = 0" "outq kern0 = (\<lambda>_. [])" "inbox kern0 = (\<lambda>_. [])" "errno kern0 = 0"
  by (simp_all add: kern_in_def kern_out_def kern_sys_def kern0_def)

lemma kern_fd_ok [simp]: "fd_ok kern0" "fd_ok (kern_in outs)" "fd_ok (kern_out so)"
  by (simp_all add: fd_ok_def)

section \<open>A server with one client\<close>

definition demo_sv :: sock_server_t where
  "demo_sv = \<lparr>srv_type = SOCK_CONN_TYPE_UNIX_SOCK, socketfd = 3, srv_path = SOCK_UTIL_DEFAULT_PATH,
     client_slots = (replicate SOCK_MAX_CLIENTS (-1))[0 := 7], rfds = [], wfds = []\<rparr>"

definition demo_heap :: pheap where
  "demo_heap = \<lparr>next_ptr = 1, objs = [0 \<mapsto> \<lparr>proxy_id = 0, m_msg_buf = []\<rparr>]\<rparr>"

definition demo_ss :: SockServer where
  "demo_ss = (SockServer_new 8772 SOCK_CONN_TYPE_UNIX_SOCK demo_heap)\<lparr>m_server := Some demo_sv,
     m_clients := (replicate MAX_CLIENTS None)[0 := Some 0], m_pclient := Some 0, m_ncount := 1, m_be_working := True,
     m_thread := True\<rparr>"

lemma demo_ss_simps [simp]:
  "m_server demo_ss = Some demo_sv" "m_pclient demo_ss = Some 0" "m_ncount demo_ss = 1"
  "m_clients demo_ss = (replicate MAX_CLIENTS None)[0 := Some 0]" "proxies demo_ss = demo_heap"
  "client_slots demo_sv = (replicate SOCK_MAX_CLIENTS (-1))[0 := 7]" "socketfd demo_sv = 3"
  "objs demo_heap 0 = Some \<lparr>proxy_id = 0, m_msg_buf = []\<rparr>"
  by (simp_all add: demo_ss_def demo_sv_def demo_heap_def SockServer_new_def)

lemma clients_one: "(replicate MAX_CLIENTS None)[0 := Some p] = Some p # replicate 254 None"
proof -
  have "MAX_CLIENTS = Suc 254" by (simp add: MAX_CLIENTS_def)
  show ?thesis unfolding \<open>MAX_CLIENTS = Suc 254\<close> replicate_Suc by (simp only: list_update_code)
qed

lemma demo_connected: "connected demo_ss = [Some 0]"
  by (simp add: connected_def clients_one)

lemma demo_table: "table_inv demo_ss"
proof -
  have "slots_inv demo_ss demo_sv"
    by (auto simp: slots_inv_def nth_list_update MAX_CLIENTS_def SOCK_MAX_CLIENTS_def)
  moreover have "Some 0 \<in> set (m_clients demo_ss)" by (simp add: clients_one)
  ultimately show ?thesis
    by (auto simp: table_inv_def demo_connected demo_heap_def split: if_splits)
qed

lemma demo_server: "server_inv demo_ss"
  by (simp add: server_inv_def demo_table)

lemma demo_live: "client_fd demo_ss 0 = Some 7"
  by (simp add: client_fd_def SOCK_MAX_CLIENTS_def)

lemma demo_sole: "sole_client demo_ss 0 0"
  by (simp add: sole_client_def MAX_CLIENTS_def nth_list_update)

section \<open>A device and messages\<close>

definition demo_slot :: sensors_event_t where
  "demo_slot = \<lparr>ev_version = 0, ev_sensor = 0, ev_type = 0, ev_timestamp = 0, ev_data = replicate EVENT_WORDS 0\<rparr>"

definition demo_dev :: SensorDevice where
  "demo_dev = SensorDevice_new aosp_h (replicate MAX_NUM_SENSORS demo_slot) None"

lemma demo_dev_inv: "dev_inv aosp_h demo_dev"
  unfolding demo_dev_def by (rule dev_inv_new) (simp_all add: demo_slot_def)

lemma demo_dev_simps [simp]:
  "m_pending_sensors demo_dev = 0" "m_flush_count demo_dev = replicate MAX_NUM_SENSORS 0"
  "m_sensor_msg_queue demo_dev = []" "m_time_start demo_dev = 0"
  "m_sensor_config_status demo_dev = replicate MAX_NUM_SENSORS zero_config"
  "m_sensors demo_dev = replicate MAX_NUM_SENSORS (demo_slot\<lparr>ev_type := 1\<rparr>)"
  "length (sensor_data_count demo_dev) = MAX_NUM_SENSORS"
  by (simp_all add: demo_dev_def SensorDevice_new_def aosp_h_def)

text \<open>An accelerometer reading and an uncalibrated magnetic field reading.\<close>

definition acc_msg :: aic_sensors_event_t where
  "acc_msg = \<lparr>aic_type = 1, aic_data_num = 3, aic_timestamp = 1000, aic_fdata = [10, 20, 30]\<rparr>"

definition mag_msg :: aic_sensors_event_t where
  "mag_msg = \<lparr>aic_type = 14, aic_data_num = 6, aic_timestamp = 1000, aic_fdata = [1, 2, 3, 4, 5, 6]\<rparr>"

lemma acc_msg_ok: "msg_ok aosp_h acc_msg"
  by (simp add: msg_ok_def acc_msg_def type_list_def aosp_h_def int32_ok_def get_payload_len_def sizeof_float_def)

lemma mag_msg_ok: "msg_ok aosp_h mag_msg"
  by (simp add: msg_ok_def mag_msg_def type_list_def aosp_h_def int32_ok_def get_payload_len_def sizeof_float_def)

definition msg_buf :: "aic_sensors_event_t \<Rightarrow> byte list" where
  "msg_buf m = aic_bytes m @ replicate (MSG_BUF_SIZE - length (aic_bytes m)) 0"

lemma msg_buf_simps [simp]:
  "length (msg_buf acc_msg) = MSG_BUF_SIZE" "length (msg_buf mag_msg) = MSG_BUF_SIZE"
  "decode_msg aosp_h (msg_buf acc_msg) = acc_msg" "decode_msg aosp_h (msg_buf mag_msg) = mag_msg"
  by (simp_all add: msg_buf_def decode_aic_bytes [OF aosp_header_ok] acc_msg_ok mag_msg_ok)
    (simp_all add: length_aic_bytes acc_msg_def mag_msg_def MSG_BUF_SIZE_def MAX_SENSOR_PAYLOAD_SIZE_def)

lemma msg_types [simp]: "aic_type acc_msg = type_list aosp_h ! 0" "aic_type mag_msg = type_list aosp_h ! 5"
  by (simp_all add: acc_msg_def mag_msg_def type_list_def aosp_h_def)

section \<open>The HAL\<close>

definition demo_hal :: hal where
  "demo_hal = hal_init aosp_h (replicate MAX_NUM_SENSORS demo_slot) None demo_ss"

lemma demo_reachable: "reachable aosp_h demo_hal"
  unfolding demo_hal_def by (rule reachable.init) (simp_all add: demo_slot_def demo_server)

lemma demo_hal_simps [simp]: "dev demo_hal = demo_dev" "srv demo_hal = demo_ss" "pc demo_hal = Idle"
  by (simp_all add: demo_hal_def hal_init_def demo_dev_def)

text \<open>A state in which the polling thread waits for a message.\<close>

definition demo_blocked :: hal where
  "demo_blocked = demo_hal\<lparr>pc := Blocked 4\<rparr>"

lemma demo_queueing_reachable: "reachable aosp_h (demo_hal\<lparr>pc := Queueing 4\<rparr>)"
proof -
  have "step aosp_h demo_hal (Poll 4) None (demo_hal\<lparr>pc := Queueing 4\<rparr>)"
    by (rule step.intros) (simp_all add: begin_poll_def await_def get_sock_client_def)
  with demo_reachable show ?thesis by (rule reachable.next_state)
qed

lemma demo_blocked_reachable: "reachable aosp_h demo_blocked"
proof -
  have "step aosp_h (demo_hal\<lparr>pc := Queueing 4\<rparr>) Lock_Queue None demo_blocked"
    by (rule step.intros) (simp_all add: demo_blocked_def)
  with demo_queueing_reachable show ?thesis by (rule reachable.next_state)
qed

text \<open>A flush, and the polling call that hands out its notice.\<close>

lemma demo_flushed:
  obtains h r evs h' where "step aosp_h demo_hal (Flush 2) (Some (0, [])) h" and "step aosp_h h (Poll 4) (Some (r, evs)) h'" and "evs \<noteq> []"
    and "srv h = demo_ss" and "reachable aosp_h h"
proof -
  have lt: "(2 :: nat) < MAX_NUM_SENSORS" by (simp add: MAX_NUM_SENSORS_def)
  from flush_eq [OF demo_dev_inv lt] obtain d where fl: "sensor_device_flush aosp_h 2 demo_dev = ok (0, d)"
    and pend: "m_pending_sensors d = 2 ^ 2" using lt by (auto simp: aosp_h_def)
  let ?h = "demo_hal\<lparr>dev := d\<rparr>"
  have st: "step aosp_h demo_hal (Flush 2) (Some (0, [])) ?h"
    by (rule step.intros) (use fl in \<open>simp_all add: MAX_NUM_SENSORS_def\<close>)
  with demo_reachable have reach: "reachable aosp_h ?h" by (rule reachable.next_state)
  have inv: "dev_inv aosp_h d" using reachable_inv [OF aosp_header_ok reach] by (simp add: hal_inv_def)
  from finish_poll_ok [OF aosp_header_ok, of ?h 4] inv pend obtain h' r evs where
    f: "finish_poll aosp_h 4 ?h = ok (h', Some (r, evs))" "1 \<le> r" "r = int (length evs)" by (auto simp: demo_server)
  then have "step aosp_h ?h (Poll 4) (Some (r, evs)) h'"
    using pend by (intro step.intros) (simp_all add: begin_poll_def)
  with that [OF st this] reach f(2,3) show thesis by force
qed

text \<open>An accelerometer message on the only client's socket, and the round of the listener that receives it.\<close>

definition kern_acc :: kern where
  "kern_acc = (kern_in [Recvd (aic_bytes acc_msg)])\<lparr>sysq := [ans 0 [] 0, ans 1 [7] 0, ans 0 [] 28]\<rparr>"

lemma demo_received:
  obtains buf s1 where "step aosp_h demo_blocked (Listen (0, 0) kern_acc) None s1" and "pc s1 = Blocked 4"
    and "m_sensor_msg_queue (dev s1) = [buf]" and "decode_msg aosp_h buf = acc_msg" and "m_pending_sensors (dev s1) = 0"
    and "sole_client (srv s1) 0 0" and "client_fd (srv s1) 0 = Some 7" and "m_be_working (srv s1)" and "m_thread (srv s1)"
proof -
  have "aic_bytes acc_msg \<noteq> []" by (simp add: length_aic_bytes SIZEOF_AIC_EVENT_def flip: length_0_conv)
  then obtain buf d1 ss1 k1 where
    l: "listen_round aosp_h (0, 0) demo_ss demo_dev kern_acc = ok (0, ss1, enqueue_msg buf d1, k1)" "decode_msg aosp_h buf = acc_msg"
      "d1 = demo_dev\<lparr>m_msg_mem_pool := m_msg_mem_pool d1\<rparr>" "sole_client ss1 0 0" "client_fd ss1 0 = Some 7"
    using listen_round_delivers [OF aosp_header_ok acc_msg_ok demo_dev_inv demo_server demo_sole demo_live, of kern_acc "[]" "(0, 0)"]
    by (auto simp: readable_round_def kern_acc_def)
  have d1: "m_sensor_msg_queue d1 = []" "m_pending_sensors d1 = 0"
    using arg_cong [OF l(3), of m_sensor_msg_queue] arg_cong [OF l(3), of m_pending_sensors] by simp_all
  then have q: "m_sensor_msg_queue (enqueue_msg buf d1) = [buf]"
    by (simp add: enqueue_content keep_newest_def MAX_MSG_QUEUE_SIZE_def)
  let ?s1 = "demo_blocked\<lparr>srv := ss1, dev := enqueue_msg buf d1\<rparr>"
  have st: "step aosp_h demo_blocked (Listen (0, 0) kern_acc) None ?s1"
    by (rule step.intros) (use l(1) in \<open>simp_all add: demo_blocked_def fd_ok_def MAX_CLIENTS_def kern_acc_def\<close>)
  have "m_be_working ss1 \<and> m_thread ss1" using round_running [OF l(1)] by (simp add: demo_ss_def)
  with that [OF st] q l(2,4,5) d1(2) show thesis by (simp add: demo_blocked_def)
qed

text \<open>The polling thread with the message in its hands.\<close>

lemma demo_got_reachable:
  obtains s buf where "reachable aosp_h s" and "pc s = Got 4 buf" and "m_pending_sensors (dev s) = 0" and "decode_msg aosp_h buf = acc_msg"
    and "m_sensor_msg_queue (dev s) = []" and "sole_client (srv s) 0 0" and "client_fd (srv s) 0 = Some 7"
    and "m_be_working (srv s)" and "m_thread (srv s)"
proof -
  obtain buf s1 where s1: "step aosp_h demo_blocked (Listen (0, 0) kern_acc) None s1" "pc s1 = Blocked 4"
    "m_sensor_msg_queue (dev s1) = [buf]" "decode_msg aosp_h buf = acc_msg" "m_pending_sensors (dev s1) = 0"
    "sole_client (srv s1) 0 0" "client_fd (srv s1) 0 = Some 7" "m_be_working (srv s1)" "m_thread (srv s1)" by (rule demo_received)
  let ?s2 = "s1\<lparr>dev := (dev s1)\<lparr>m_sensor_msg_queue := []\<rparr>, pc := Got 4 buf\<rparr>"
  from demo_blocked_reachable s1(1) have "reachable aosp_h s1" by (rule reachable.next_state)
  moreover have "step aosp_h s1 Wake_Cv None ?s2"
    by (rule step.intros) (simp_all add: s1(2,3) pop_queue_def)
  ultimately have "reachable aosp_h ?s2" by (rule reachable.next_state)
  with that show thesis using s1(4-) by simp
qed

end
