(* ===== verification/Socket_Properties.thy ===== *)
theory Socket_Properties
  imports Fixtures
begin

text \<open>
  The properties of the socket library: transfers, their bounds and their failure to end, the
  descriptors, the slot table, and the client class.
\<close>

section \<open>Transfers\<close>

text \<open>C18: a blocking receive on a connected client whose stream holds enough bytes and no error
  other than interruptions returns, with exactly the requested number of bytes, which are the next
  bytes of the stream, stored at the right place of the buffer and removed from the stream.\<close>

theorem recv_data_whole:
  assumes "client_fd ss p = Some fd" and "off + n \<le> length buf" and "n < 2 ^ 31"
    and "calm (errno k) (inbox k fd)" and "n \<le> length (stream_of (inbox k fd))"
  shows "\<exists>k'. SockServer_recv_data ss (Some p) buf off (int n) SOCK_BLOCK_MODE tmo k
      = ok (int n, take off buf @ take n (stream_of (inbox k fd)) @ drop (off + n) buf, k') \<and>
    stream_of (inbox k' fd) = drop n (stream_of (inbox k fd))"
proof -
  let ?st = "stream_of (inbox k fd)"
  have l: "length (take n ?st) = n" using assms(5) by simp
  have "\<exists>k'. SockServer_recv_data ss (Some p) buf off (int (length (take n ?st))) SOCK_BLOCK_MODE tmo k
      = ok (int (length (take n ?st)), take off buf @ take n ?st @ drop (off + length (take n ?st)) buf, k') \<and>
    stream_of (inbox k' fd) = drop n ?st"
    by (rule recv_data_calm [OF assms(1) _ _ assms(4), of off "take n ?st" buf "drop n ?st" tmo])
      (use assms l in auto)
  then show ?thesis unfolding l .
qed

theorem recv_data_whole_witness:
  "\<exists>k'. SockServer_recv_data demo_ss (Some 0) [0, 0, 0] 0 (int 2) SOCK_BLOCK_MODE 5
       (kern_in [Recvd [1], RecvErr EAGAIN, Recvd [2, 3]])
      = ok (int 2, [1, 2, 0], k') \<and> stream_of (inbox k' 7) = [3]"
  using recv_data_whole [OF demo_live, of 0 2 "[0, 0, 0]" "kern_in [Recvd [1], RecvErr EAGAIN, Recvd [2, 3]]" 5]
  by (simp add: retry_errno_def)

text \<open>C19: a receive with a timeout always returns once the kernel has answered often enough;
  it returns the bytes it took off the stream, none lost and none invented, at most as many as asked
  for, and it sleeps at most one millisecond more than the timeout says.\<close>

theorem recv_data_timeout_bounded:
  assumes "client_fd ss p = Some fd" and "off + n \<le> length buf" and "n < 2 ^ 31"
    and "n + nat (tmo + 2) \<le> length (inbox k fd)"
  shows "\<exists>ds k'. SockServer_recv_data ss (Some p) buf off (int n) SOCK_TIMEOUT_MODE tmo k
      = ok (int (length ds), take off buf @ ds @ drop (off + length ds) buf, k') \<and>
    stream_of (inbox k fd) = ds @ stream_of (inbox k' fd) \<and> length ds \<le> n \<and>
    slept_us k' \<le> slept_us k + 1000 * nat (tmo + 1)"
proof -
  from drain_enough [OF assms(4), of "errno k"] obtain ds e r z where
    d: "drain (Some tmo) n (errno k) (inbox k fd) = Some (ds, e, r, z)" by auto
  from drain_length [OF d] drain_stream [OF d] drain_sleeps [OF d]
    recv_data_timeout [OF assms(1), of off "int n" buf tmo k] assms(2,3) d
  show ?thesis by (simp add: recv_result_def)
qed

theorem recv_data_timeout_bounded_witness:
  "\<exists>ds k'. SockServer_recv_data demo_ss (Some 0) [0, 0] 0 (int 1) SOCK_TIMEOUT_MODE 0
      (kern_in (replicate 3 (RecvErr EAGAIN)))
      = ok (int (length ds), take 0 [0, 0] @ ds @ drop (0 + length ds) [0, 0], k') \<and>
    stream_of (replicate 3 (RecvErr EAGAIN)) = ds @ stream_of (inbox k' 7) \<and> length ds \<le> 1 \<and> slept_us k' \<le> 1000"
  using recv_data_timeout_bounded [OF demo_live, of 0 1 "[0, 0]" 0 "kern_in (replicate 3 (RecvErr EAGAIN))"]
  by simp

text \<open>C20: a send with a timeout always returns once the kernel has answered often enough;
  what went out is a prefix of the data whose length is the return value, never a negative one, and
  the sleeps are bounded by the timeout plus one millisecond.\<close>

theorem send_data_timeout_bounded:
  assumes "client_fd ss p = Some fd" and "n \<le> length data" and "n < 2 ^ 31"
    and "n + nat (tmo + 2) \<le> length (outq k fd)"
  shows "\<exists>m k'. SockServer_send_data ss (Some p) data (int n) SOCK_TIMEOUT_MODE tmo k = ok (int m, k') \<and>
    m \<le> n \<and> sent k' fd = sent k fd @ take m data \<and> slept_us k' \<le> slept_us k + 1000 * nat (tmo + 1)"
proof -
  from push_enough [OF assms(4), of "errno k"] obtain m e r z where
    d: "push (Some tmo) n (errno k) (outq k fd) = Some (m, e, r, z)" by auto
  from push_le [OF d] push_sleeps [OF d] send_data_timeout [OF assms(1), of "int n" data tmo k] assms(2,3) d
  show ?thesis by (simp add: send_result_def)
qed

theorem send_data_timeout_bounded_witness:
  "\<exists>m k'. SockServer_send_data demo_ss (Some 0) [5, 6] (int 2) SOCK_TIMEOUT_MODE 0
      (kern_out [Sent 1, SendErr EAGAIN, SendErr EAGAIN, Sent 1]) = ok (int m, k') \<and>
    m \<le> 2 \<and> sent k' 7 = take m [5, 6] \<and> slept_us k' \<le> 1000"
  using send_data_timeout_bounded [OF demo_live, of 2 "[5, 6]" 0 "kern_out [Sent 1, SendErr EAGAIN, SendErr EAGAIN, Sent 1]"]
  by simp

text \<open>C39: when the peer has closed the connection while errno still holds a retry code of an
  earlier call, a blocking receive never returns, however long the kernel keeps reporting the end of
  the stream: the return value 0 is not told apart from an error.\<close>

theorem recv_data_eof_spins:
  assumes "client_fd ss p = Some fd" and "off + Suc n \<le> length buf" and "Suc n < 2 ^ 31"
    and "retry_errno (errno k)" and "inbox k fd = replicate m (Recvd [])"
  shows "SockServer_recv_data ss (Some p) buf off (int (Suc n)) SOCK_BLOCK_MODE tmo k = None"
  using recv_data_block [OF assms(1), of off "int (Suc n)" buf tmo k] assms(2-)
  by (simp del: of_nat_Suc add: drain_eof_spins)

theorem recv_data_eof_spins_witness:
  "SockServer_recv_data demo_ss (Some 0) [0] 0 (int (Suc 0)) SOCK_BLOCK_MODE 5
     ((kern_in (replicate 100 (Recvd [])))\<lparr>errno := EAGAIN\<rparr>) = None"
  by (rule recv_data_eof_spins [OF demo_live]) (simp_all add: retry_errno_def)

section \<open>Descriptors and slots\<close>



text \<open>C37: a client that connects when the least free slot lies beyond the 255 entries of the class's
  array (the C layer has 512 slots) is written behind the array.\<close>

theorem client_table_overflow:
  assumes "m_server ss = Some sv" and "length (m_clients ss) = MAX_CLIENTS"
    and "length (client_slots sv) = SOCK_MAX_CLIENTS" and "0 \<le> socketfd sv" and "socketfd sv < 1024"
    and "MAX_CLIENTS \<le> sock_server_find_empty_slot sv" and "sock_server_find_empty_slot sv < SOCK_MAX_CLIENTS"
    and "sysq k = a1 # a2 # a3 # q" and "0 < ans_ret a1" and "socketfd sv \<in> set (ans_fds a1)"
    and "0 \<le> ans_ret a2" and "0 \<le> ans_ret a3"
  shows "check_new_connection cbs ss a k = fault Array_Index"
  using assms by (rule client_beyond_table)

theorem client_table_overflow_witness:
  "check_new_connection (hal_callbacks aosp_h (0, 0))
     (demo_ss\<lparr>m_server := Some (demo_sv\<lparr>client_slots := replicate MAX_CLIENTS 9 @ replicate 257 (-1)\<rparr>)\<rparr>) demo_dev
     (kern_sys [ans 1 [3] 0, ans 300 [] 0, ans 0 [] 0]) = fault Array_Index"
proof -
  let ?sv = "demo_sv\<lparr>client_slots := replicate MAX_CLIENTS 9 @ replicate 257 (-1)\<rparr>"
  have "sock_server_find_empty_slot ?sv = MAX_CLIENTS"
    by (simp add: sock_server_find_empty_slot_def find_slot_from_eq takeWhile_append takeWhile_replicate)
  then show ?thesis
    by (intro client_table_overflow [of _ ?sv _ "ans 1 [3] 0" "ans 300 [] 0" "ans 0 [] 0" "[]"])
      (simp_all add: MAX_CLIENTS_def SOCK_MAX_CLIENTS_def)
qed

section \<open>The client class\<close>





end
