(* ===== verification/Device_Properties.thy ===== *)
theory Device_Properties
  imports Fixtures
begin

text \<open>
  The properties of the sensor device: the lookup functions, the configuration calls, the messages
  and their queue, the event slots as a refinement of their specification, and the time stamps.
\<close>

section \<open>Event slots\<close>



text \<open>C12: with something pending, picking an event succeeds, takes it from the pending sensor with the
  highest handle and does to the slots what the specification says: a reading is handed out whole, with
  its handle and the event's size filled in, and its slot is empty afterwards; of several notices one
  is handed out.\<close>

theorem pick_refines_spec:
  assumes "dev_inv H d" and "m_pending_sensors d \<noteq> 0" and "i = Max (bits_of (m_pending_sensors d))"
  shows "\<exists>e d'. sensor_device_pick_pending_event_locked H d = ok (int i, Some e, d') \<and> dev_inv H d' \<and>
    slot_of H d' = (slot_of H d)(i := slot_take (slot_of H d i)) \<and>
    (case slot_of H d i of Empty \<Rightarrow> False
     | Flushing n \<Rightarrow> e = m_sensors d ! i \<and> is_notice H e
     | Reading r \<Rightarrow> e = r\<lparr>ev_sensor := int i, ev_version := SIZEOF_SENSORS_EVENT H\<rparr>)"
proof -
  note p = pick_eq [OF assms]
  have "case slot_of H d i of Empty \<Rightarrow> False
     | Flushing n \<Rightarrow> fst (hand_out H i d) = m_sensors d ! i \<and> is_notice H (fst (hand_out H i d))
     | Reading r \<Rightarrow> fst (hand_out H i d) = r\<lparr>ev_sensor := int i, ev_version := SIZEOF_SENSORS_EVENT H\<rparr>"
    using p(3) by (auto simp: slot_of_def hand_out_def Let_def is_notice_def)
  with p(1) hand_out_inv [OF assms(1) p(2,3)] hand_out_refines(1) [OF assms(1) p(2,3)] show ?thesis by blast
qed

theorem pick_refines_spec_witness:
  "\<exists>d e d'. sensor_device_flush aosp_h (int 3) demo_dev = ok (0, d) \<and>
    sensor_device_pick_pending_event_locked aosp_h d = ok (3, Some e, d') \<and> is_notice aosp_h e"
proof -
  have h: "(3 :: nat) < MAX_NUM_SENSORS" by (simp add: MAX_NUM_SENSORS_def)
  from flush_eq [OF demo_dev_inv h] obtain d where run: "sensor_device_flush aosp_h (int 3) demo_dev = ok (0, d)"
    and d: "d = demo_dev\<lparr>m_flush_count := (m_flush_count demo_dev)[3 := 0],
           m_sensors := (m_sensors demo_dev)[3 := flush_notice aosp_h (int 3) (m_sensors demo_dev ! 3)],
           m_pending_sensors := m_pending_sensors demo_dev OR 2 ^ 3\<rparr>"
    using h by (auto simp: aosp_h_def)
  have inv: "dev_inv aosp_h d" by (rule flush_inv [OF demo_dev_inv h run])
  have bits: "bits_of (m_pending_sensors d) = {3}" using bits_of_set [of 3 0] by (simp add: d)
  then have "m_pending_sensors d \<noteq> 0" and "3 = Max (bits_of (m_pending_sensors d))" by auto
  moreover have "slot_of aosp_h d 3 = Flushing 1"
    using h bits by (simp add: slot_of_def d flush_notice_def)
  ultimately show ?thesis
    using pick_refines_spec [OF inv, of 3] run by auto
qed

text \<open>C15: the reading loop of the polling call hands out as many events as are outstanding, up to the number
  asked for; every event is a flush notice or a reading labelled with its own sensor and type; and every
  notice that leaves the device is handed to the caller.\<close>

theorem poll_reads_all:
  assumes "header_ok H" and "dev_inv H d"
  shows "\<exists>out d'. pick_loop H n 0 [] d = ok (int (length out), out, d') \<and> dev_inv H d' \<and>
     length out = min n (outstanding H d) \<and> outstanding H d' = outstanding H d - length out \<and>
     notices H d = notices H d' + length (filter (is_notice H) out) \<and> list_all (event_ok H) out"
  using pick_loop_spec [OF assms, of n 0 "[]"] by auto

theorem poll_reads_all_witness:
  "\<exists>out d'. pick_loop aosp_h 4 0 [] demo_dev = ok (int (length out), out, d') \<and> dev_inv aosp_h d' \<and>
     length out = min 4 (outstanding aosp_h demo_dev) \<and> outstanding aosp_h d' = outstanding aosp_h demo_dev - length out \<and>
     notices aosp_h demo_dev = notices aosp_h d' + length (filter (is_notice aosp_h) out) \<and> list_all (event_ok aosp_h) out"
  by (rule poll_reads_all [OF aosp_header_ok demo_dev_inv])



text \<open>C16: the time stamp given to a new event is never later than the host's clock, whatever the client
  sent; the very first event gets the host's time, and from then on the offset between the two clocks is
  kept, so that an event that is not in the future gets the client's time plus that offset.\<close>

theorem stamp_never_future:
  assumes "header_ok H" and "dev_inv H d" and "h < MAX_NUM_SENSORS" and "length buf = MSG_BUF_SIZE"
    and "m = decode_msg H buf" and "aic_type m = type_list H ! h"
  shows "\<exists>d'. process_msg H clock buf d = ok (True, d') \<and>
    sint (ev_timestamp (m_sensors d' ! h)) \<le> sint (now_ns clock) \<and>
    (if m_time_start d = 0
     then ev_timestamp (m_sensors d' ! h) = now_ns clock \<and> m_time_offset d' = now_ns clock - aic_timestamp m
     else m_time_offset d' = m_time_offset d \<and> m_time_start d' = m_time_start d \<and>
       (sint (aic_timestamp m + m_time_offset d) \<le> sint (now_ns clock) \<longrightarrow>
        ev_timestamp (m_sensors d' ! h) = aic_timestamp m + m_time_offset d))"
proof -
  have ty: "aic_type (decode_msg H buf) = type_list H ! h" using assms(5,6) by simp
  have l: "length (m_sensors d) = MAX_NUM_SENSORS" using assms(2) by (simp add: dev_inv_def slots_ok_def)
  have ts: "ev_timestamp (m_sensors (intake H clock h buf d) ! h) = stamp_at (now_ns clock) (aic_timestamp m) d"
    using assms(3,5) l data_slot_less [OF assms(3)] by (simp add: intake_nth Let_def)
  have off: "m_time_offset (intake H clock h buf d) = offset_at (now_ns clock) (aic_timestamp m) d"
    and st: "m_time_start d \<noteq> 0 \<Longrightarrow> m_time_start (intake H clock h buf d) = m_time_start d"
    using assms(5) by (simp_all add: intake_def Let_def)
  show ?thesis
    using process_msg_eq [OF assms(1-4) ty, of clock] stamp_not_future [of "now_ns clock" "aic_timestamp m" d]
    by (intro exI [of _ "intake H clock h buf d"]) (auto simp: ts off st stamp_first, auto simp: offset_at_def stamp_at_def)
qed

theorem stamp_never_future_witness:
  "\<exists>d'. process_msg aosp_h (1, 0) (msg_buf acc_msg) demo_dev = ok (True, d') \<and>
    sint (ev_timestamp (m_sensors d' ! 0)) \<le> sint (now_ns (1, 0)) \<and> ev_timestamp (m_sensors d' ! 0) = now_ns (1, 0)"
  using stamp_never_future [OF aosp_header_ok demo_dev_inv, of 0 "msg_buf acc_msg" acc_msg "(1, 0)"]
  by (auto simp: MAX_NUM_SENSORS_def)

text \<open>C36: a message of the uncalibrated magnetic field is announced as a new event of that sensor, but
  its six values overwrite the slot of the calibrated magnetic field: the event goes out with the
  values its slot held before, and the other sensor's slot is corrupted.\<close>

theorem mag_uncalibrated_misplaced:
  assumes "header_ok H" and "dev_inv H d" and "length buf = MSG_BUF_SIZE"
    and "m = decode_msg H buf" and "aic_type m = SENSOR_TYPE_MAGNETIC_FIELD_UNCALIBRATED H"
  shows "\<exists>d'. process_msg H clock buf d = ok (True, d') \<and>
    ev_data (m_sensors d' ! 5) = ev_data (m_sensors d ! 5) \<and>
    ev_data (m_sensors d' ! 2) = overlay (aic_fdata m) (ev_data (m_sensors d ! 2))"
proof -
  have h: "(5 :: nat) < MAX_NUM_SENSORS" by (simp add: MAX_NUM_SENSORS_def)
  have ty: "aic_type (decode_msg H buf) = type_list H ! 5" using assms(4,5) by (simp add: type_list_def)
  show ?thesis
    using process_msg_eq [OF assms(1,2) h assms(3) ty] intake_mag_uncalibrated [OF assms(2-4)] by auto
qed

theorem mag_uncalibrated_misplaced_witness:
  "\<exists>d'. process_msg aosp_h (1, 0) (msg_buf mag_msg) demo_dev = ok (True, d') \<and>
    ev_data (m_sensors d' ! 5) = replicate EVENT_WORDS 0 \<and> take 6 (ev_data (m_sensors d' ! 2)) = [1, 2, 3, 4, 5, 6]"
proof -
  have ty: "aic_type mag_msg = SENSOR_TYPE_MAGNETIC_FIELD_UNCALIBRATED aosp_h" by (simp add: type_list_def)
  have fd: "aic_fdata mag_msg = [1, 2, 3, 4, 5, 6]" by (simp add: mag_msg_def)
  from mag_uncalibrated_misplaced [OF aosp_header_ok demo_dev_inv _ _ ty, of "msg_buf mag_msg" "(1, 0)"] show ?thesis
    by (auto simp: fd overlay_def demo_slot_def MAX_NUM_SENSORS_def)
qed

section \<open>Messages\<close>



text \<open>C6: a sequence of well-formed messages on a client's stream, cut into pieces by the kernel in any way
  and mixed with interruptions, is delivered by as many calls of the listener callback: the queue holds
  the newest 128 of the old and the new messages, in order, and the stream is left exactly behind the
  last one.\<close>

theorem messages_in_order:
  assumes "header_ok H" and "list_all (msg_ok H) ms" and "dev_inv H d"
    and "client_fd ss p = Some fd" and "length js = length ms"
    and "calm (errno k) (inbox k fd)" and "stream_of (inbox k fd) = concat (map aic_bytes ms) @ rest"
  shows "\<exists>d' k'. callback_rounds H js ss p d k = ok (d', k') \<and> dev_inv H d' \<and>
     map (decode_msg H) (m_sensor_msg_queue d') =
       keep_newest MAX_MSG_QUEUE_SIZE (map (decode_msg H) (m_sensor_msg_queue d) @ ms) \<and>
     stream_of (inbox k' fd) = rest"
  using callback_rounds_deliver [OF assms] unfolding queued_def by blast

theorem messages_in_order_witness:
  "\<exists>d' k'. callback_rounds aosp_h [(1, 2), (3, 4)] demo_ss 0 demo_dev
       (kern_in [Recvd (take 5 (aic_bytes acc_msg)), RecvErr EINTR, Recvd (drop 5 (aic_bytes acc_msg) @ aic_bytes mag_msg)])
     = ok (d', k') \<and> map (decode_msg aosp_h) (m_sensor_msg_queue d') = [acc_msg, mag_msg]"
proof -
  let ?k = "kern_in [Recvd (take 5 (aic_bytes acc_msg)), RecvErr EINTR, Recvd (drop 5 (aic_bytes acc_msg) @ aic_bytes mag_msg)]"
  have "calm (errno ?k) (inbox ?k 7)"
    by (simp add: retry_errno_def) (simp add: length_aic_bytes SIZEOF_AIC_EVENT_def flip: length_0_conv)
  moreover have "stream_of (inbox ?k 7) = concat (map aic_bytes [acc_msg, mag_msg]) @ []" by (simp flip: append_assoc)
  ultimately show ?thesis
    using messages_in_order [OF aosp_header_ok _ demo_dev_inv demo_live, of "[acc_msg, mag_msg]" "[(1, 2), (3, 4)]" ?k "[]"]
    by (auto simp: acc_msg_ok mag_msg_ok keep_newest_def MAX_MSG_QUEUE_SIZE_def)
qed

text \<open>C40: a header of an unknown type is dropped without the values that follow it: these stay on the
  stream and are taken for the next header.\<close>

theorem unknown_type_desync:
  fixes ty :: u32
  assumes "sint ty \<notin> set (type_list H)" and "length hdr = SIZEOF_AIC_EVENT" and "take 4 hdr = le_bytes 4 ty"
    and "client_fd ss p = Some fd" and "calm (errno k) (inbox k fd)" and "stream_of (inbox k fd) = hdr @ rest"
  shows "\<exists>k'. sensor_event_callback H junk ss p d k = ok (d, k') \<and> stream_of (inbox k' fd) = rest"
  using callback_unsupported [OF assms] by blast

theorem unknown_type_desync_witness:
  "\<exists>k'. sensor_event_callback aosp_h (0, 0) demo_ss 0 demo_dev
      (kern_in [Recvd (le_bytes 4 (6 :: u32) @ replicate 12 0 @ [9, 9, 9, 9])]) = ok (demo_dev, k') \<and>
    stream_of (inbox k' 7) = [9, 9, 9, 9]"
  by (rule unknown_type_desync [OF _ _ _ demo_live, where ty = 6 and hdr = "le_bytes 4 (6 :: u32) @ replicate 12 0"])
    (simp_all add: type_list_def aosp_h_def SIZEOF_AIC_EVENT_def)

text \<open>C17: after any number of messages the queue holds the newest 128 of all, in order of arrival, and no
  buffer is lost on the way: what falls out of the queue is in the pool.\<close>

theorem queue_keeps_newest:
  assumes "length (m_sensor_msg_queue d) \<le> MAX_MSG_QUEUE_SIZE"
  shows "m_sensor_msg_queue (fold enqueue_msg ms d) = keep_newest MAX_MSG_QUEUE_SIZE (m_sensor_msg_queue d @ ms) \<and>
    m_msg_mem_pool (fold enqueue_msg ms d) @ m_sensor_msg_queue (fold enqueue_msg ms d) =
      m_msg_mem_pool d @ m_sensor_msg_queue d @ ms"
proof -
  have "m_msg_mem_pool (fold enqueue_msg ms d) @ m_sensor_msg_queue (fold enqueue_msg ms d)
      = m_msg_mem_pool d @ m_sensor_msg_queue d @ ms"
    by (induction ms arbitrary: d) (simp_all add: enqueue_conserves flip: append_assoc)
  with msg_queue.enq_all [OF assms] show ?thesis by blast
qed

theorem queue_keeps_newest_witness:
  "m_sensor_msg_queue (fold enqueue_msg [[1], [2]] demo_dev) = [[1], [2]]"
  using queue_keeps_newest [of demo_dev "[[1], [2]]"] by (simp add: keep_newest_def MAX_MSG_QUEUE_SIZE_def)

section \<open>Configuration\<close>



text \<open>C23: when a client connects, the stored configuration of all nine sensors goes to the default
  client, in the order of the handles, if the kernel takes each message whole.\<close>

theorem connect_sends_all_configs:
  assumes "dev_inv H d" and "table_inv ss" and "m_pclient ss = Some q" and "client_fd ss q = Some fd"
    and "takes_all MAX_NUM_SENSORS SIZEOF_CONFIG_MSG (outq k fd)"
  shows "\<exists>k'. client_connected_callback ss p d k = ok (d, k') \<and>
    sent k' fd = sent k fd @ concat (map config_bytes (m_sensor_config_status d))"
proof -
  have "length (m_sensor_config_status d) = MAX_NUM_SENSORS" using assms(1) by (simp add: dev_inv_def)
  with send_all_configs_whole [OF assms(2-4), of "m_sensor_config_status d" k] assms(5) show ?thesis
    by (auto simp: client_connected_callback_def)
qed

theorem connect_sends_all_configs_witness:
  "\<exists>k'. client_connected_callback demo_ss 0 demo_dev (kern_out (replicate 9 (Sent 12))) = ok (demo_dev, k') \<and>
    sent k' 7 = concat (map config_bytes (replicate MAX_NUM_SENSORS zero_config))"
  using connect_sends_all_configs [OF demo_dev_inv demo_table, of 0 7 "kern_out (replicate 9 (Sent 12))" 0] demo_live
  by (simp add: takes_all_def MAX_NUM_SENSORS_def SIZEOF_CONFIG_MSG_def list_all_iff)

end
