(* ===== verification/Thread_Races.thy ===== *)
theory Thread_Races
  imports Fixtures
begin

text \<open>
  Where the mutexes of the HAL are not enough: the pool, which one thread tests without its mutex while
  another writes it; the default client, which the framework's threads use while the listener deletes
  it; and the flush, which does not wake up a polling thread that waits for a message.
\<close>

section \<open>The pool\<close>

text \<open>The listener on its way to the only client, which is readable.\<close>

lemma listener_to_header:
  assumes srv: "server_inv ss" and sole: "sole_client ss 0 p" and live: "client_fd ss p = Some fd" and rr: "readable_round fd k"
    and room: "m_ncount ss < int MAX_CLIENTS" and w: "m_be_working ss" "m_server ss \<noteq> None"
  obtains ss1 k1 where "truns H (solo t free d ss k pl L_Top) [] (solo t free d ss1 k1 pl (L_Header 0 p))"
    and "client_fd ss1 p = Some fd" and "errno k1 = errno k" and "inbox k1 = inbox k"
proof -
  from srv have len: "length (m_clients ss) = MAX_CLIENTS" by (simp add: server_inv_def table_inv_def)
  obtain sv c k1 k2 k3 where nc: "sock_server_has_newconn (m_server ss) (m_connection_timeout_ms ss) k = ok (False, k1)"
    and rd: "sock_server_clients_readable (m_server ss) (m_client_status_check_timeout ss) k1 = ok (True, Some sv, k2)"
    and c: "objs (proxies ss) p = Some c" and ck: "sock_server_check_connect (Some sv) (Some c) k2 = ok (readable, k3)"
    and k3: "errno k3 = errno k" "inbox k3 = inbox k" and l1: "client_fd (ss\<lparr>m_server := Some sv\<rparr>) p = Some fd"
    using readable_round_parts [OF srv sole live rr] by metis
  let ?ss = "ss\<lparr>m_server := Some sv\<rparr>"
  let ?fin = "solo t free d ?ss k3 pl (L_Header 0 p)"
  have e: "visit_client 0 ?ss k2 = ok (L_Header 0 p, k3)"
    using sole len c ck by (simp add: visit_client_def sole_client_def arr_get_ok deref_proxy_def MAX_CLIENTS_def)
  have "truns H (solo t free d ?ss k2 pl (L_Scan 0)) [] ?fin"
    by (rule solo_step [where junk = "(0, 0)", OF _ _ truns.stop]) (use e in \<open>simp_all add: MAX_CLIENTS_def\<close>)
  then have "truns H (solo t free d ss k1 pl L_Message) [] ?fin"
    by (rule solo_step [where junk = "(0, 0)", rotated 2]) (use rd in simp_all)
  then have "truns H (solo t free d ss k pl L_Conn) [] ?fin"
    by (rule solo_step [where junk = "(0, 0)", rotated 2]) (use nc room in \<open>simp_all add: accept_client_def\<close>)
  then have "truns H (solo t free d ss k pl L_Top) [] ?fin"
    by (rule solo_step [where junk = "(0, 0)", rotated 2]) (use w in simp_all)
  from that [OF this l1 k3] show thesis .
qed

text \<open>A whole message on the socket has a usable header.\<close>

lemma header_received:
  assumes hdr: "header_ok H" and m: "msg_ok H m" and inv: "dev_inv H d" and q: "m_sensor_msg_queue d = []"
    and live: "client_fd ss p = Some fd" and calm: "calm (errno k) (inbox k fd)" and str: "stream_of (inbox k fd) = aic_bytes m @ rest"
  shows "\<exists>h len k'. receive_header H junk ss p k = ok (Some (h, len), k')"
proof -
  from callback_delivers [OF hdr m inv live calm str, of junk] obtain buf d1 k2 where
    cb: "sensor_event_callback H junk ss p d k = ok (enqueue_msg buf d1, k2)" by blast
  then obtain r k1 where r: "receive_header H junk ss p k = ok (r, k1)" unfolding callback_split by (auto elim!: bindr_okE)
  have "r \<noteq> None"
  proof
    assume "r = None"
    with cb r have "d = enqueue_msg buf d1" by (simp add: callback_split)
    with enqueue_nonempty [of buf d1] q show False by simp
  qed
  with r show ?thesis by auto
qed

text \<open>The polling thread on its way to the pool, with both of its mutexes.\<close>

lemma poller_to_pool:
  assumes st: "store_msg H c buf d = ok (True, d1)"
  shows "truns H (solo t free d ss k (P_Relock n buf) a) []
    (solo t [M_mutex \<mapsto> Poller, M_msg_pool_mtx \<mapsto> Poller] d1 ss k (P_Recycle n buf) a)"
proof -
  let ?fin = "solo t [M_mutex \<mapsto> Poller, M_msg_pool_mtx \<mapsto> Poller] d1 ss k (P_Recycle n buf) a"
  have "truns H (solo t [M_mutex \<mapsto> Poller] d1 ss k (P_Pool_Lock n buf) a) [] ?fin"
    by (rule solo_poll [where c = c, OF _ truns.stop]) (simp add: acquire_def std.lock_free)
  then have "truns H (solo t [M_mutex \<mapsto> Poller] d ss k (P_Process n buf) a) [] ?fin"
    by (rule solo_poll [where c = c, rotated]) (simp add: st)
  then show ?thesis by (rule solo_poll [where c = c, rotated]) simp
qed

text \<open>One client leaves room for another.\<close>

lemma sole_room:
  assumes "server_inv ss" and "sole_client ss 0 p"
  shows "m_ncount ss < int MAX_CLIENTS"
proof -
  have len: "length (m_clients ss) = MAX_CLIENTS" "m_ncount ss = int (length (connected ss))"
    using assms(1) by (simp_all add: server_inv_def table_inv_def)
  have "m_clients ss ! 1 = None" using assms(2) by (simp add: sole_client_def MAX_CLIENTS_def)
  then have "None \<in> set (m_clients ss)" using nth_mem [of 1 "m_clients ss"] len by (simp add: MAX_CLIENTS_def)
  then have "length (connected ss) < length (m_clients ss)" unfolding connected_def by (intro length_filter_less) auto
  with len show ?thesis by simp
qed

lemma pool_race_reachable:
  obtains s buf p hdr len where "treachable aosp_h s" and "poller s = P_Recycle 4 buf" and "listening s = L_Pool_Test 0 p hdr len"
    and "mutexes s M_msg_pool_mtx = Some Poller"
proof -
  obtain h buf where h: "reachable aosp_h h" "pc h = Got 4 buf" "decode_msg aosp_h buf = acc_msg" "m_sensor_msg_queue (dev h) = []"
    "sole_client (srv h) 0 0" "client_fd (srv h) 0 = Some 7" "m_be_working (srv h)" "m_thread (srv h)" using demo_got_reachable .
  from reachable_embeds [OF aosp_header_ok h(1,8,7)] obtain t where t: "treachable aosp_h t" "embeds h t" by blast
  from reachable_inv [OF aosp_header_ok h(1)] h(2) have inv: "dev_inv aosp_h (dev h)" "server_inv (srv h)" "length buf = MSG_BUF_SIZE"
    by (simp_all add: hal_inv_def)
  let ?k = "(kern_in [Recvd (aic_bytes acc_msg)])\<lparr>sysq := [ans 0 [] 0, ans 1 [7] 0, ans 0 [] 28]\<rparr>"
  have ne: "aic_bytes acc_msg \<noteq> []" by (simp add: length_aic_bytes SIZEOF_AIC_EVENT_def flip: length_0_conv)
  have sv: "m_server (srv h) \<noteq> None" using h(6) by (auto simp: client_fd_def split: option.splits)
  have room: "m_ncount (srv h) < int MAX_CLIENTS" by (rule sole_room [OF inv(2) h(5)])
  have rr: "readable_round 7 ?k" by (simp add: readable_round_def)
  obtain ss1 k1 where l1: "truns aosp_h (solo t free (dev h) (srv h) ?k (P_Relock 4 buf) L_Top) []
      (solo t free (dev h) ss1 k1 (P_Relock 4 buf) (L_Header 0 0))"
    and k1: "client_fd ss1 0 = Some 7" "errno k1 = errno ?k" "inbox k1 = inbox ?k"
    using listener_to_header [OF inv(2) h(5,6) rr room h(7) sv] .
  have "\<exists>hdr len k2. receive_header aosp_h (0, 0) ss1 0 k1 = ok (Some (hdr, len), k2)"
    by (rule header_received [OF aosp_header_ok acc_msg_ok inv(1) h(4) k1(1), where rest = "[]"]) (use k1 ne in simp_all)
  then obtain hdr len k2 where "receive_header aosp_h (0, 0) ss1 0 k1 = ok (Some (hdr, len), k2)" by blast
  then have "truns aosp_h (solo t free (dev h) ss1 k1 (P_Relock 4 buf) (L_Header 0 0)) []
      (solo t free (dev h) ss1 k2 (P_Relock 4 buf) (L_Pool_Test 0 0 hdr len))"
    by (intro solo_step [where junk = "(0, 0)", OF _ _ truns.stop]) simp_all
  note l = truns_silent [OF l1 this]
  have k: "truns aosp_h t [] (solo t free (dev h) (srv h) ?k (P_Relock 4 buf) L_Top)"
    by (rule exec_silent [where a = "T_Kernel ?k", OF _ _ truns.stop])
       (use embeds_eq [OF t(2)] h(2) in \<open>simp_all add: solo_def fd_ok_def\<close>)
  have "aic_type (decode_msg aosp_h buf) = type_list aosp_h ! 0" by (simp add: h(3))
  then obtain d1 where "store_msg aosp_h (0, 0) buf (dev h) = ok (True, d1)"
    by (rule store_msg_eq [OF aosp_header_ok inv(1) _ inv(3), of 0 "(0, 0)", rotated]) (simp_all add: MAX_NUM_SENSORS_def)
  from truns_silent [OF k truns_silent [OF l poller_to_pool [OF this]]] truns_reachable t(1)
  have "treachable aosp_h (solo t [M_mutex \<mapsto> Poller, M_msg_pool_mtx \<mapsto> Poller] d1 ss1 k2 (P_Recycle 4 buf) (L_Pool_Test 0 0 hdr len))"
    by blast
  from that [OF this] show thesis by simp
qed

section \<open>The default client\<close>

lemma drop_step:
  assumes inv: "thr_inv H s" and l: "listening s = L_Drop j p"
  obtains s1 where "texec H (T_Listener junk) s = ok (s1, None)" and "listening s1 = L_Forget j p" and "objs (proxies (t_srv s1)) p = None"
    and "m_server (t_srv s1) \<noteq> None" and "callers s1 = callers s" and "m_pclient (t_srv s1) = m_pclient (t_srv s)"
proof -
  have "closer s \<noteq> K_Closed" using thr_invD(9) [OF inv] l by auto
  with thr_invD(6) [OF inv] l have tab: "table_inv (t_srv s)" and en: "entry (t_srv s) j p" and "m_server (t_srv s) \<noteq> None"
    by (simp_all add: srv_ok_def)
  then obtain sv where sv: "m_server (t_srv s) = Some sv" by auto
  from drop_closes [OF tab sv en, of "lkern s"] obtain sv' k' where
    c: "sock_server_close_client (m_server (t_srv s)) (Some p) (proxies (t_srv s)) (lkern s) = ok (Some sv', delete_proxy p (proxies (t_srv s)), k')"
    by auto
  with l have st: "texec H (T_Listener junk) s = ok (s\<lparr>t_srv := (t_srv s)\<lparr>m_server := Some sv', proxies := delete_proxy p (proxies (t_srv s))\<rparr>,
      lkern := k', listening := L_Forget j p\<rparr>, None)" by simp
  show thesis by (rule that [OF st]) (simp_all add: delete_proxy_def)
qed

lemma stale_send_config:
  assumes "objs (proxies ss) p = None" and "m_server ss \<noteq> None" and "length msg = SIZEOF_CONFIG_MSG"
  shows "send_config ss p msg k = fault Use_After_Free"
  using stale_send_faults [OF assms(1,2), of "int (length msg)" msg 5 k] assms(3)
  by (simp add: send_config_def SIZEOF_CONFIG_MSG_def)

text \<open>A framework thread that is about to ask for the client which the listener is about to drop.\<close>

lemma dropped_while_sending:
  assumes inv: "thr_inv H s" and c: "callers s i = C_Client msg" and p: "get_sock_client (t_srv s) = Some p" and l: "listening s = L_Drop j p"
  shows "texec_all H [T_Caller i k, T_Listener junk, T_Caller i k'] s = fault Use_After_Free"
    and "texec_all H [T_Listener junk, T_Caller i k, T_Caller i k'] s = fault Use_After_Free"
proof -
  have msg: "length msg = SIZEOF_CONFIG_MSG" using thr_invD(4) [OF inv, of i] c by simp
  obtain s1 where s1: "texec H (T_Listener junk) s = ok (s1, None)" "objs (proxies (t_srv s1)) p = None" "m_server (t_srv s1) \<noteq> None"
    "callers s1 = callers s" "m_pclient (t_srv s1) = m_pclient (t_srv s)" using drop_step [OF inv l, of junk] by metis
  from s1(5) p have p1: "get_sock_client (t_srv s1) = Some p" by (simp add: get_sock_client_def)
  from stale_send_config [OF s1(2,3) msg] c p1 s1(1,4)
  show "texec_all H [T_Listener junk, T_Caller i k, T_Caller i k'] s = fault Use_After_Free" by simp
  let ?s = "s\<lparr>callers := (callers s)(i := C_Send p msg)\<rparr>"
  have first: "texec H (T_Caller i k) s = ok (?s, None)" using c p by simp
  have "thr_inv H ?s"
  proof -
    have "closer s = K_Open" using thr_invD(8) [OF inv, of i] c by simp
    with thr_invD(6) [OF inv] l have "srv_ok (t_dev s) (t_srv s) (L_Drop j p)" by simp
    from default_live [OF this p] have "client_fd (t_srv s) p \<noteq> None" by simp
    with msg show ?thesis by (intro caller_stay_good [OF inv]) (simp_all add: c)
  qed
  moreover have "listening ?s = L_Drop j p" using l by simp
  ultimately obtain s2 where s2: "texec H (T_Listener junk) ?s = ok (s2, None)" "objs (proxies (t_srv s2)) p = None"
    "m_server (t_srv s2) \<noteq> None" "callers s2 = callers ?s" using drop_step [of H ?s j p junk] by metis
  then have "texec_all H [T_Listener junk, T_Caller i k'] ?s = fault Use_After_Free"
    using stale_send_config [OF s2(2,3) msg] by (simp del: texec.simps(5))
  with first
  show "texec_all H [T_Caller i k, T_Listener junk, T_Caller i k'] s = fault Use_After_Free" by simp
qed

section \<open>Waking up\<close>

text \<open>The wait does not look at the queue again: a spurious wake-up takes the front of an empty queue.\<close>

lemma spurious_wakeup:
  assumes inv: "thr_inv H s" and w: "poller s = P_Wait n" and m: "mutexes s M_msg_queue_mtx = None"
  shows "texec_all H [T_Spurious, T_Poller c, T_Poller c] s = fault Empty_Front"
  using thr_invD(3) [OF inv] w m by (simp add: acquire_def std.lock_free take_front_def)

section \<open>Flushing\<close>

text \<open>A flush while the polling thread waits: it succeeds, and the polling thread goes on waiting.\<close>

lemma flush_while_waiting:
  assumes inv: "thr_inv H s" and w: "poller s = P_Wait n" and c: "callers s i = C_Out" and m: "mutexes s M_mutex = None"
    and h: "h < MAX_NUM_SENSORS"
  shows "\<exists>s'. texec_all H [T_Call i (R_Flush (int h)), T_Caller i k, T_Caller i k, T_Caller i k] s = ok (s', [None, None, None, Some (0, [])]) \<and>
    poller s' = P_Wait n \<and> h \<in> bits_of (m_pending_sensors (t_dev s'))"
proof -
  obtain d where f: "sensor_device_flush H (int h) (t_dev s) = ok (0, d)" and b: "h \<in> bits_of (m_pending_sensors d)"
    using flush_eq [OF thr_invD(2) [OF inv] h] slots_ok_nth(2) [OF _ h] h thr_invD(2) [OF inv] by (auto simp: dev_inv_def bits_of_set MAX_NUM_SENSORS_def split: if_splits)
  let ?s = "s\<lparr>t_dev := d, callers := (callers s)(i := C_Out), mutexes := (mutexes s)(M_mutex := None)\<rparr>"
  have "texec_all H [T_Call i (R_Flush (int h)), T_Caller i k, T_Caller i k, T_Caller i k] s = ok (?s, [None, None, None, Some (0, [])])"
    using c m f by (simp add: acquire_def std.lock_free release_held)
  with w b show ?thesis by (intro exI [of _ ?s]) simp
qed

section \<open>Half a message\<close>

text \<open>
  A client that stops in the middle of a header: the kernel goes on to answer that there is nothing to
  receive, and after any number of such answers the receive has not returned.
\<close>

lemma header_stalls:
  assumes "client_fd ss p = Some fd" and "calm (errno k) (inbox k fd)" and "length (stream_of (inbox k fd)) < SIZEOF_AIC_EVENT"
  shows "receive_header H junk ss p k = None"
  using recv_data_block [OF assms(1), of 0 "int SIZEOF_AIC_EVENT" "stack_header junk" 5 k] drain_stalls [OF assms(2,3)]
  by (simp add: receive_header_def SIZEOF_AIC_EVENT_def)

text \<open>The rest of the header has not come, and the connection is not broken either.\<close>

definition half_header :: "int \<Rightarrow> kern \<Rightarrow> bool" where
  "half_header fd k \<longleftrightarrow> calm (errno k) (inbox k fd) \<and> length (stream_of (inbox k fd)) < SIZEOF_AIC_EVENT"

text \<open>What the threads can do while the kernel brings no more than half a header of a client.\<close>

inductive starved :: "sensors_h \<Rightarrow> int \<Rightarrow> threads \<Rightarrow> threads \<Rightarrow> bool" for H fd where
  stay: "starved H fd s s"
| move: "tstep H s a r s' \<Longrightarrow> (\<And>k. a = T_Kernel k \<Longrightarrow> half_header fd k) \<Longrightarrow> starved H fd s' s'' \<Longrightarrow> starved H fd s s''"

definition stuck :: "nat \<Rightarrow> nat \<Rightarrow> int \<Rightarrow> threads \<Rightarrow> bool" where
  "stuck i p fd s \<longleftrightarrow> listening s = L_Header i p \<and> client_fd (t_srv s) p = Some fd \<and> half_header fd (lkern s)"

lemma stuck_listener: "stuck i p fd s \<Longrightarrow> texec H (T_Listener junk) s = None"
  using header_stalls [of "t_srv s" p fd "lkern s" H junk] by (auto simp: stuck_def half_header_def)

lemma stuck_step:
  assumes hdr: "header_ok H" and inv: "thr_inv H s" and st: "stuck i p fd s" and x: "texec H a s = ok (s', r)"
    and k: "\<And>k. a = T_Kernel k \<Longrightarrow> half_header fd k"
  shows "stuck i p fd s'"
proof (cases a)
  case (T_Poller c)
  with x poller_side [of H c s s' r] poller_guarded [OF hdr inv, of c s' r] st show ?thesis by (simp add: stuck_def)
next
  case (T_Caller j k)
  with x caller_side [of H j k s s' r] caller_guarded [OF inv, of j k s' r] st show ?thesis by (simp add: stuck_def)
next
  case (T_Listener junk)
  with x stuck_listener [OF st] show ?thesis by simp
next
  case (T_Close k)
  with x st show ?thesis
    by (cases "closer s") (auto simp: stuck_def SockServer_join_def SockServer_stop_def client_fd_def elim!: bindr_okE cong: option.case_cong)
qed (use x st k in \<open>auto simp: stuck_def split: if_splits prod.splits poller_pc.splits\<close>)

lemma starved_stuck:
  assumes hdr: "header_ok H" and "starved H fd s s'" and "treachable H s" and "stuck i p fd s"
  shows "treachable H s' \<and> stuck i p fd s'"
  using assms(2-)
proof (induction rule: starved.induct)
  case (move s a r s' s'')
  from move.hyps(1) have "texec H a s = ok (s', r)" by (auto elim: tstepE)
  from stuck_step [OF hdr treachable_inv [OF hdr move.prems(1)] move.prems(2) this] move.hyps(2)
  have "stuck i p fd s'" by blast
  with move.IH treachable.step [OF move.prems(1) move.hyps(1)] show ?case by blast
qed simp

end
