(* ===== verification/Thread_Delivery.thy ===== *)
theory Thread_Delivery
  imports Thread_Locks "HOL-Library.Sublist"
begin

text \<open>
  The queue between the listener and the polling thread as a channel: what the polling thread takes is what
  the listener has put in, in the same order, and nothing is lost unless the queue is full.
\<close>

section \<open>Histories\<close>

text \<open>The messages a step puts into the queue and takes from it.\<close>

fun put :: "act \<Rightarrow> threads \<Rightarrow> byte list list" where
  "put (T_Listener junk) s = (case listening s of L_Enqueue i buf \<Rightarrow> [buf] | _ \<Rightarrow> [])"
| "put _ s = []"

fun got :: "act \<Rightarrow> threads \<Rightarrow> byte list list" where
  "got (T_Poller c) s = (case poller s of P_Front n \<Rightarrow> take 1 (m_sensor_msg_queue (t_dev s))
     | P_Pop n \<Rightarrow> take 1 (m_sensor_msg_queue (t_dev s)) | _ \<Rightarrow> [])"
| "got _ s = []"

inductive history :: "sensors_h \<Rightarrow> threads \<Rightarrow> byte list list \<Rightarrow> byte list list \<Rightarrow> threads \<Rightarrow> bool" for H where
  now: "history H s [] [] s"
| later: "tstep H s a r s' \<Longrightarrow> history H s' ps gs s'' \<Longrightarrow> history H s (put a s @ ps) (got a s @ gs) s''"

lemma truns_history: "truns H s rs s' \<Longrightarrow> \<exists>ps gs. history H s ps gs s'"
  by (induction rule: truns.induct) (blast intro: history.intros)+

section \<open>One step\<close>

lemma take_front_queue:
  "take_front n s = ok s' \<Longrightarrow> take 1 (m_sensor_msg_queue (t_dev s)) @ m_sensor_msg_queue (t_dev s') = m_sensor_msg_queue (t_dev s)"
  by (auto simp: take_front_def elim!: bindr_okE split: list.splits dest!: release_dev)

lemma poller_queue:
  assumes hdr: "header_ok H" and inv: "thr_inv H s" and x: "poller_step H c (poller s) s = ok (s', r)"
  shows "got (T_Poller c) s @ m_sensor_msg_queue (t_dev s') = m_sensor_msg_queue (t_dev s)"
proof (cases "poller s")
  case (P_Process n buf)
  with thr_invD(3) [OF inv] have b: "length buf = MSG_BUF_SIZE" by simp
  from store_msg_safe [OF hdr thr_invD(2) [OF inv] b, of c] x P_Process show ?thesis by auto
qed (use x in \<open>auto elim!: bindr_okE split: if_splits dest!: acquire_dev release_dev take_front_queue pick_loop_main\<close>)

lemma listener_queue:
  assumes x: "listener_step H junk (listening s) s = ok s'"
  shows "m_sensor_msg_queue (t_dev s') = (if put (T_Listener junk) s = [] then m_sensor_msg_queue (t_dev s)
    else keep_newest MAX_MSG_QUEUE_SIZE (m_sensor_msg_queue (t_dev s) @ put (T_Listener junk) s))"
proof (cases "listening s")
  case (L_Enqueue i buf)
  with x show ?thesis by (auto simp: enqueue_content elim!: bindr_okE dest!: release_dev)
qed (use x in \<open>auto simp: pop_pool_buffer_def elim!: bindr_okE split: if_splits list.splits dest!: acquire_dev release_dev\<close>)

text \<open>A step either takes from the front, or puts at the end and drops the oldest, or leaves the queue alone.\<close>

lemma step_queue:
  assumes hdr: "header_ok H" and inv: "thr_inv H s" and x: "texec H a s = ok (s', r)"
  shows "put a s = [] \<and> got a s @ m_sensor_msg_queue (t_dev s') = m_sensor_msg_queue (t_dev s) \<or>
    got a s = [] \<and> (\<exists>b. put a s = [b]) \<and> m_sensor_msg_queue (t_dev s') = keep_newest MAX_MSG_QUEUE_SIZE (m_sensor_msg_queue (t_dev s) @ put a s)"
proof (cases a)
  case (T_Poller c)
  with poller_queue [OF hdr inv] x show ?thesis by simp
next
  case (T_Listener junk)
  with x have "listener_step H junk (listening s) s = ok s'" by (auto elim!: bindr_okE)
  from listener_queue [OF this] T_Listener show ?thesis by (cases "listening s") simp_all
next
  case (T_Caller i k)
  with x have c: "caller_step H i k (callers s i) s = ok (s', r)" by simp
  have "m_sensor_msg_queue (t_dev s') = m_sensor_msg_queue (t_dev s)"
  proof (cases "callers s i")
    case (C_Body q)
    with c show ?thesis by (auto elim!: bindr_okE dest: call_body_queue)
  qed (use c in \<open>auto elim!: bindr_okE dest!: acquire_dev release_dev\<close>)
  with T_Caller show ?thesis by simp
qed (use step_guarded [OF hdr inv x] x in \<open>auto split: if_splits prod.splits poller_pc.splits\<close>)

section \<open>The channel\<close>

lemma keep_newest_subseq: "subseq (keep_newest n xs) xs"
  by (simp add: keep_newest_def suffix_drop suffix_imp_subseq)

lemma keep_newest_all: "length xs \<le> n \<Longrightarrow> keep_newest n xs = xs"
  by (simp add: keep_newest_def)

lemma history_fifo:
  assumes hdr: "header_ok H" and "history H s ps gs s'" and "treachable H s"
  shows "subseq (gs @ m_sensor_msg_queue (t_dev s')) (m_sensor_msg_queue (t_dev s) @ ps)"
  using assms(2,3)
proof (induction rule: history.induct)
  case (later s a r s' ps gs s'')
  let ?q = "m_sensor_msg_queue (t_dev s)" and ?q' = "m_sensor_msg_queue (t_dev s')" and ?q'' = "m_sensor_msg_queue (t_dev s'')"
  from treachable.step [OF later.prems later.hyps(1)] have IH: "subseq (gs @ ?q'') (?q' @ ps)" by (rule later.IH)
  from later.hyps(1) have "texec H a s = ok (s', r)" by (auto elim: tstepE)
  from step_queue [OF hdr treachable_inv [OF hdr later.prems] this] show ?case
  proof (elim disjE conjE exE)
    assume q: "put a s = []" "got a s @ ?q' = ?q"
    have "subseq (got a s @ gs @ ?q'') ((got a s @ ?q') @ ps)" using IH by (simp add: subseq_append')
    then show ?thesis unfolding q by (simp add: q(1))
  next
    fix b assume q: "got a s = []" "?q' = keep_newest MAX_MSG_QUEUE_SIZE (?q @ put a s)"
    have "subseq (?q' @ ps) ((?q @ put a s) @ ps)" unfolding q(2) by (intro list_emb_append_mono keep_newest_subseq) simp
    with IH have "subseq (gs @ ?q'') ((?q @ put a s) @ ps)" by (rule subseq_order.trans)
    then show ?thesis using q(1) by simp
  qed
qed simp

lemma history_lossless:
  assumes hdr: "header_ok H" and "history H s ps gs s'" and "treachable H s"
    and "length (m_sensor_msg_queue (t_dev s)) + length ps \<le> MAX_MSG_QUEUE_SIZE"
  shows "gs @ m_sensor_msg_queue (t_dev s') = m_sensor_msg_queue (t_dev s) @ ps"
  using assms(2-)
proof (induction rule: history.induct)
  case (later s a r s' ps gs s'')
  let ?q = "m_sensor_msg_queue (t_dev s)" and ?q' = "m_sensor_msg_queue (t_dev s')" and ?q'' = "m_sensor_msg_queue (t_dev s'')"
  note reach = treachable.step [OF later.prems(1) later.hyps(1)]
  from later.hyps(1) have "texec H a s = ok (s', r)" by (auto elim: tstepE)
  from step_queue [OF hdr treachable_inv [OF hdr later.prems(1)] this] show ?case
  proof (elim disjE conjE exE)
    assume q: "put a s = []" "got a s @ ?q' = ?q"
    then have "length ?q' \<le> length ?q" by (metis le_add2 length_append)
    then have "length ?q' + length ps \<le> MAX_MSG_QUEUE_SIZE" using later.prems(2) q(1) by simp
    from later.IH [OF reach this] q show ?thesis by (simp flip: q(2))
  next
    fix b assume q: "got a s = []" "?q' = keep_newest MAX_MSG_QUEUE_SIZE (?q @ put a s)"
    have "length (?q @ put a s) \<le> MAX_MSG_QUEUE_SIZE" using later.prems(2) by simp
    with q(2) have q': "?q' = ?q @ put a s" by (simp only: keep_newest_all)
    then have "length ?q' + length ps \<le> MAX_MSG_QUEUE_SIZE" using later.prems(2) by simp
    from later.IH [OF reach this] q(1) q' show ?thesis by simp
  qed
qed simp

end
