(* ===== verification/Thread_Ledger.thy ===== *)
theory Thread_Ledger
  imports Thread_Locks
begin

text \<open>
  Where the events come from: an account of the flush requests and messages on one side, and the flush notices
  and readings on the other, over all interleavings of the threads.
\<close>

section \<open>Readings in the slots\<close>

fun slot_readings :: "slot \<Rightarrow> nat" where
  "slot_readings (Reading e) = 1"
| "slot_readings _ = 0"

definition readings :: "sensors_h \<Rightarrow> SensorDevice \<Rightarrow> nat" where
  "readings H d = (\<Sum>i < MAX_NUM_SENSORS. slot_readings (slot_of H d i))"

lemma outstanding_split: "outstanding H d = notices H d + readings H d"
proof -
  have "slot_weight x = slot_notices x + slot_readings x" for x by (cases x) simp_all
  then show ?thesis by (simp add: outstanding_def notices_def readings_def sum.distrib)
qed

text \<open>The account depends on the pending mask, the slots and the flush counters only.\<close>

lemma same_slots:
  assumes "m_pending_sensors d' = m_pending_sensors d" and "m_sensors d' = m_sensors d" and "m_flush_count d' = m_flush_count d"
  shows "notices H d' = notices H d" and "readings H d' = readings H d"
proof -
  have "slot_of H d' = slot_of H d" by (rule ext) (simp add: slot_of_def assms)
  then show "notices H d' = notices H d" "readings H d' = readings H d" by (simp_all add: notices_def readings_def)
qed

lemma same_main:
  assumes "main_state d' = main_state d"
  shows "notices H d' = notices H d" and "readings H d' = readings H d"
proof -
  have f: "m_pending_sensors x = m_pending_sensors (main_state x)" "m_sensors x = m_sensors (main_state x)"
    "m_flush_count x = m_flush_count (main_state x)" for x by (simp_all add: main_state_def)
  have "m_pending_sensors d' = m_pending_sensors d" "m_sensors d' = m_sensors d" "m_flush_count d' = m_flush_count d"
    using f [of d'] f [of d] assms by simp_all
  from same_slots [OF this] show "notices H d' = notices H d" "readings H d' = readings H d" .
qed

text \<open>Changing one slot changes the account by that slot.\<close>

lemma one_slot:
  assumes "h < MAX_NUM_SENSORS" and "\<And>i. i \<noteq> h \<Longrightarrow> slot_notices (slot_of H d' i) = slot_notices (slot_of H d i)"
    and "\<And>i. i \<noteq> h \<Longrightarrow> slot_readings (slot_of H d' i) = slot_readings (slot_of H d i)"
  shows "notices H d' + slot_notices (slot_of H d h) = notices H d + slot_notices (slot_of H d' h)"
    and "readings H d' + slot_readings (slot_of H d h) = readings H d + slot_readings (slot_of H d' h)"
proof -
  have n: "(\<lambda>i. slot_notices (slot_of H d' i)) = (\<lambda>i. slot_notices (slot_of H d i))(h := slot_notices (slot_of H d' h))"
    and r: "(\<lambda>i. slot_readings (slot_of H d' i)) = (\<lambda>i. slot_readings (slot_of H d i))(h := slot_readings (slot_of H d' h))"
    using assms(2,3) by (auto simp: fun_eq_iff)
  show "notices H d' + slot_notices (slot_of H d h) = notices H d + slot_notices (slot_of H d' h)"
    using sum_fun_upd_nat [OF assms(1), of "\<lambda>x. x" "\<lambda>i. slot_notices (slot_of H d i)" "slot_notices (slot_of H d' h)"]
    unfolding notices_def n by simp
  show "readings H d' + slot_readings (slot_of H d h) = readings H d + slot_readings (slot_of H d' h)"
    using sum_fun_upd_nat [OF assms(1), of "\<lambda>x. x" "\<lambda>i. slot_readings (slot_of H d i)" "slot_readings (slot_of H d' h)"]
    unfolding readings_def r by simp
qed

section \<open>The operations\<close>

lemma flush_account:
  assumes inv: "dev_inv H d" and h: "h < MAX_NUM_SENSORS" and run: "sensor_device_flush H (int h) d = ok (r, d')"
  shows "notices H d' \<le> notices H d + 1" and "readings H d' \<le> readings H d"
proof -
  have lens: "length (m_flush_count d) = MAX_NUM_SENSORS" "length (m_sensors d) = MAX_NUM_SENSORS"
    using inv by (simp_all add: dev_inv_def slots_ok_def)
  have h32: "h < 32" using h by (simp add: MAX_NUM_SENSORS_def)
  have inc: "unat (w + 1 :: u32) \<le> unat w + 1" for w by (simp add: unat_word_ariths)
  have other: "slot_of H d' i = slot_of H d i" if "i \<noteq> h" for i
    using run that h32 by (auto simp: flush_eq [OF inv h] slot_of_def bits_of_set split: if_splits)
  have slots: "slots_ok H (m_pending_sensors d) (m_sensors d)" using inv by (simp add: dev_inv_def)
  have "slot_notices (slot_of H d' h) \<le> slot_notices (slot_of H d h) + 1 \<and> slot_readings (slot_of H d' h) = 0"
    using run h lens h32 inc [of "m_flush_count d ! h"] slots_ok_nth(2) [OF slots h]
    by (auto simp: flush_eq [OF inv h] slot_of_def bits_of_set flush_notice_def split: if_splits)
  with one_slot [OF h, of H d' d] other show "notices H d' \<le> notices H d + 1" "readings H d' \<le> readings H d" by auto
qed

lemma intake_account:
  assumes hdr: "header_ok H" and inv: "dev_inv H d" and h: "h < MAX_NUM_SENSORS" and len: "length buf = MSG_BUF_SIZE"
    and ty: "aic_type (decode_msg H buf) = type_list H ! h"
  shows "notices H (intake H clock h buf d) \<le> notices H d" and "readings H (intake H clock h buf d) \<le> readings H d + 1"
proof -
  let ?d = "intake H clock h buf d"
  have l: "length (m_sensors d) = MAX_NUM_SENSORS" using inv by (simp add: dev_inv_def slots_ok_def)
  have sub: "bits_of (m_pending_sensors d) \<subseteq> {..<MAX_NUM_SENSORS}" using inv by (simp add: dev_inv_def slots_ok_def)
  have h32: "h < 32" using h by (simp add: MAX_NUM_SENSORS_def)
  have "type_list H ! h \<in> set (type_list H)" using h by simp
  then have meta: "type_list H ! h \<noteq> SENSOR_TYPE_META_DATA H" by (rule header_ok_type(3) [OF hdr])
  have nth: "ev_type (m_sensors ?d ! i) = (if i = h then type_list H ! h else ev_type (m_sensors d ! i))" if "i < MAX_NUM_SENSORS" for i
    using that h l ty data_slot_less [OF h] by (simp add: intake_nth Let_def)
  have "slot_notices (slot_of H ?d i) = slot_notices (slot_of H d i) \<and> slot_readings (slot_of H ?d i) = slot_readings (slot_of H d i)"
    if "i \<noteq> h" for i
  proof (cases "i \<in> bits_of (m_pending_sensors d)")
    case True
    with sub nth [of i] that h32 show ?thesis by (auto simp: slot_of_def bits_of_set)
  next
    case False
    with that h32 show ?thesis by (simp add: slot_of_def bits_of_set)
  qed
  moreover have "slot_notices (slot_of H ?d h) = 0" "slot_readings (slot_of H ?d h) \<le> 1"
    using nth [OF h] meta h32 by (simp_all add: slot_of_def bits_of_set)
  ultimately show "notices H ?d \<le> notices H d" "readings H ?d \<le> readings H d + 1"
    using one_slot [OF h, of H ?d d] by auto
qed

lemma store_account:
  assumes hdr: "header_ok H" and inv: "dev_inv H d" and len: "length buf = MSG_BUF_SIZE" and run: "store_msg H clock buf d = ok (got, d')"
  shows "notices H d' \<le> notices H d \<and> readings H d' \<le> readings H d + 1"
proof (cases "aic_type (decode_msg H buf) \<in> set (type_list H)")
  case True
  then obtain h where h: "h < MAX_NUM_SENSORS" "aic_type (decode_msg H buf) = type_list H ! h" by (auto simp: in_set_conv_nth)
  with run have "main_state d' = main_state (intake H clock h buf d)"
    using store_msg_eq [OF hdr inv h(1) len h(2), of clock] main_state_simps(3) [of buf d'] by (metis Inr_inject option.inject prod.inject)
  from same_main [OF this, where H = H] intake_account [OF hdr inv h(1) len h(2), of clock] show ?thesis by simp
next
  case False
  from process_msg_unsupported [OF len False, of clock d] run have "main_state d' = main_state d"
    by (elim process_msg_split) auto
  with same_main [OF this, where H = H] show ?thesis by simp
qed

lemma pick_account:
  assumes hdr: "header_ok H" and inv: "dev_inv H d" and run: "pick_loop H n 0 [] d = ok (r, evs, d')"
  shows "length (filter (is_notice H) evs) + notices H d' = notices H d"
    and "length (filter (Not \<circ> is_notice H) evs) + readings H d' = readings H d" and "list_all (event_ok H) evs"
proof -
  from pick_loop_spec [OF hdr inv, of n 0 "[]"] run have
    o: "length evs = min n (outstanding H d)" "outstanding H d' = outstanding H d - length evs"
      "notices H d = notices H d' + length (filter (is_notice H) evs)" "list_all (event_ok H) evs" by auto
  have "length (filter (is_notice H) evs) + length (filter (Not \<circ> is_notice H) evs) = length evs"
    using sum_length_filter_compl [of "is_notice H" evs] by (simp add: o_def)
  with o show "length (filter (is_notice H) evs) + notices H d' = notices H d"
    "length (filter (Not \<circ> is_notice H) evs) + readings H d' = readings H d" "list_all (event_ok H) evs"
    using outstanding_split [of H d] outstanding_split [of H d'] by auto
qed

section \<open>The threads\<close>

text \<open>The events in an answer, and whether a step carries out a flush request or takes in a message.\<close>

fun events_of :: "answer \<Rightarrow> sensors_event_t list" where
  "events_of None = []"
| "events_of (Some (r, evs)) = evs"

fun flushed :: "act \<Rightarrow> threads \<Rightarrow> nat" where
  "flushed (T_Caller i k) s = (case callers s i of C_Body (R_Flush h) \<Rightarrow> 1 | _ \<Rightarrow> 0)"
| "flushed _ s = 0"

fun taken_in :: "act \<Rightarrow> threads \<Rightarrow> nat" where
  "taken_in (T_Poller c) s = (case poller s of P_Process n buf \<Rightarrow> 1 | _ \<Rightarrow> 0)"
| "taken_in _ s = 0"

definition balanced :: "sensors_h \<Rightarrow> nat \<Rightarrow> nat \<Rightarrow> sensors_event_t list \<Rightarrow> SensorDevice \<Rightarrow> SensorDevice \<Rightarrow> bool" where
  "balanced H f m evs d d' \<longleftrightarrow>
     length (filter (is_notice H) evs) + notices H d' \<le> notices H d + f \<and>
     length (filter (Not \<circ> is_notice H) evs) + readings H d' \<le> readings H d + m \<and> list_all (event_ok H) evs"

lemma balanced_same: "main_state d' = main_state d \<Longrightarrow> balanced H f m [] d d'"
  using same_main [of d' d H] by (simp add: balanced_def)

lemma balanced_config: "balanced H f m [] d (d\<lparr>m_sensor_config_status := cs\<rparr>)"
  using same_slots [of "d\<lparr>m_sensor_config_status := cs\<rparr>" d H] by (simp add: balanced_def)

lemma config_only:
  assumes "call_body H q d = ok (goto, d')" and "\<And>h. q \<noteq> R_Flush h"
  shows "\<exists>cs. d' = d\<lparr>m_sensor_config_status := cs\<rparr>"
  using assms by (cases q) (auto simp: change_config_def elim!: bindr_okE)

lemma balanced_trans:
  "balanced H f m evs d d' \<Longrightarrow> balanced H f' m' evs' d' d'' \<Longrightarrow> balanced H (f + f') (m + m') (evs @ evs') d d''"
  by (simp add: balanced_def)

lemma poller_balanced:
  assumes hdr: "header_ok H" and inv: "thr_inv H s" and x: "poller_step H c (poller s) s = ok (s', r)"
  shows "balanced H 0 (taken_in (T_Poller c) s) (events_of r) (t_dev s) (t_dev s')"
proof (cases "poller s")
  case (P_Process n buf)
  with thr_invD(3) [OF inv] have b: "length buf = MSG_BUF_SIZE" by simp
  from x P_Process obtain got where "store_msg H c buf (t_dev s) = ok (got, t_dev s')" and "r = None" by (auto elim!: bindr_okE)
  with store_account [OF hdr thr_invD(2) [OF inv] b] P_Process show ?thesis by (simp add: balanced_def)
next
  case (P_Pick n)
  with x obtain res evs where p: "pick_loop H (nat n) 0 [] (t_dev s) = ok (res, evs, t_dev s')" and "r = Some (res, evs)"
    by (auto elim!: bindr_okE dest!: release_dev)
  with pick_account [OF hdr thr_invD(2) [OF inv] p] P_Pick show ?thesis by (simp add: balanced_def)
next
  case (P_Recycle n buf)
  with x show ?thesis by (auto elim!: bindr_okE dest!: release_dev intro!: balanced_same)
qed (use x in \<open>auto elim!: bindr_okE split: if_splits dest!: acquire_dev release_dev take_front_dev intro!: balanced_same\<close>)

lemma caller_balanced:
  assumes inv: "thr_inv H s" and x: "caller_step H i k (callers s i) s = ok (s', r)"
  shows "balanced H (flushed (T_Caller i k) s) 0 (events_of r) (t_dev s) (t_dev s')"
proof (cases "callers s i")
  case (C_Body q)
  with x obtain goto where b: "call_body H q (t_dev s) = ok (goto, t_dev s')" and r: "r = None" by (auto elim!: bindr_okE)
  show ?thesis
  proof (cases "\<exists>h. q = R_Flush h")
    case True
    then obtain h where q: "q = R_Flush h" by blast
    with thr_invD(4) [OF inv, of i] C_Body obtain j where j: "h = int j" "j < MAX_NUM_SENSORS"
      using handle_cases [of h] by (auto simp: request_ok_def)
    from b q j obtain r' where "sensor_device_flush H (int j) (t_dev s) = ok (r', t_dev s')" by (auto elim!: bindr_okE)
    from flush_account [OF thr_invD(2) [OF inv] j(2) this] C_Body q r show ?thesis by (simp add: balanced_def)
  next
    case False
    with config_only [OF b] obtain cs where "t_dev s' = (t_dev s)\<lparr>m_sensor_config_status := cs\<rparr>" by blast
    then show ?thesis using r balanced_config by simp
  qed
qed (use x in \<open>auto elim!: bindr_okE dest!: acquire_dev release_dev intro!: balanced_same\<close>)

lemma listener_balanced:
  assumes x: "listener_step H junk (listening s) s = ok s'"
  shows "balanced H 0 0 [] (t_dev s) (t_dev s')"
proof -
  have "main_state (t_dev s') = main_state (t_dev s)"
    using x by (cases "listening s") (auto simp: pop_pool_buffer_def elim!: bindr_okE split: if_splits list.splits dest!: acquire_dev release_dev)
  then show ?thesis by (rule balanced_same)
qed

lemma step_balanced:
  assumes hdr: "header_ok H" and inv: "thr_inv H s" and x: "texec H a s = ok (s', r)"
  shows "balanced H (flushed a s) (taken_in a s) (events_of r) (t_dev s) (t_dev s')"
proof (cases a)
  case (T_Poller c)
  with poller_balanced [OF hdr inv] x show ?thesis by simp
next
  case (T_Caller i k)
  with caller_balanced [OF inv] x show ?thesis by simp
next
  case (T_Listener junk)
  with x listener_balanced [of H junk s s'] show ?thesis by (auto elim!: bindr_okE)
next
  case (T_Call i q)
  with x show ?thesis by (cases q) (auto split: if_splits intro!: balanced_same)
qed (use step_guarded [OF hdr inv x] x in \<open>auto elim!: bindr_okE split: if_splits poller_pc.splits intro!: balanced_same\<close>)

text \<open>A run with all events it hands out, the flush requests it carries out and the messages it takes in.\<close>

inductive ledger :: "sensors_h \<Rightarrow> threads \<Rightarrow> sensors_event_t list \<Rightarrow> nat \<Rightarrow> nat \<Rightarrow> threads \<Rightarrow> bool" for H where
  blank: "ledger H s [] 0 0 s"
| entry: "tstep H s a r s' \<Longrightarrow> ledger H s' evs f m s'' \<Longrightarrow>
     ledger H s (events_of r @ evs) (flushed a s + f) (taken_in a s + m) s''"

lemma ledger_balanced:
  assumes hdr: "header_ok H" and "ledger H s evs f m s'" and "treachable H s"
  shows "balanced H f m evs (t_dev s) (t_dev s')"
  using assms(2,3)
proof (induction rule: ledger.induct)
  case (entry s a r s' evs f m s'')
  from entry.hyps(1) have "texec H a s = ok (s', r)" by (auto elim: tstepE)
  from step_balanced [OF hdr treachable_inv [OF hdr entry.prems] this] entry.IH [OF treachable.step [OF entry.prems entry.hyps(1)]]
  show ?case by (rule balanced_trans)
qed (simp add: balanced_same)

lemma truns_ledger: "truns H s rs s' \<Longrightarrow> \<exists>f m. ledger H s (concat (map snd rs)) f m s'"
proof (induction rule: truns.induct)
  case (silent s a s' rs s'')
  then show ?case using ledger.entry [of H s a None s'] by fastforce
next
  case (answer s a r s' rs s'')
  then show ?case using ledger.entry [of H s a "Some r" s'] by (cases r) fastforce
qed (auto intro: ledger.blank)

lemma ledger_append: "ledger H s evs f m s' \<Longrightarrow> ledger H s' evs' f' m' s'' \<Longrightarrow> ledger H s (evs @ evs') (f + f') (m + m') s''"
  by (induction rule: ledger.induct) (auto simp: add.assoc intro: ledger.entry)

end
