(* ===== verification/Thread_Closing.thy ===== *)
theory Thread_Closing
  imports Thread_Locks
begin

text \<open>
  Closing: once the destructor has called \<open>stop\<close>, the listener finishes what it has begun and ends. A number
  that every step of the listener decreases bounds its steps, and it is never blocked by a mutex.
\<close>

section \<open>The listener's steps are numbered\<close>

text \<open>For each place of the listener, more than the number of steps it can still take once it is to stop.\<close>

definition scan_rank :: "nat \<Rightarrow> nat" where
  "scan_rank i = 3 + 15 * (MAX_CLIENTS + 1 - i)"

definition config_rank :: "nat \<Rightarrow> nat" where
  "config_rank i = scan_rank 0 + 2 + 5 * (MAX_NUM_SENSORS + 1 - i)"

fun rank :: "listener_pc \<Rightarrow> nat" where
  "rank L_Quit = 0"
| "rank L_Top = 1"
| "rank L_Choose = 2"
| "rank (L_Scan i) = scan_rank i"
| "rank (L_Enqueue i buf) = scan_rank (Suc i) + 1"
| "rank (L_Queue_Lock i buf) = scan_rank (Suc i) + 2"
| "rank (L_Payload i p buf len) = scan_rank (Suc i) + 3"
| "rank (L_Pool_Take i p hdr len) = scan_rank (Suc i) + 4"
| "rank (L_Pool_Lock i p hdr len) = scan_rank (Suc i) + 5"
| "rank (L_New i p hdr len) = scan_rank (Suc i) + 6"
| "rank (L_New_Lock i p hdr len) = scan_rank (Suc i) + 7"
| "rank (L_Pool_Test i p hdr len) = scan_rank (Suc i) + 8"
| "rank (L_Header i p) = scan_rank (Suc i) + 9"
| "rank (L_Forget i p) = scan_rank (Suc i) + 1"
| "rank (L_Drop i p) = scan_rank (Suc i) + 2"
| "rank L_Message = scan_rank 0 + 1"
| "rank (L_Config i) = config_rank i"
| "rank (L_Config_Unlock i) = config_rank (Suc i) + 1"
| "rank (L_Config_Send i p) = config_rank (Suc i) + 2"
| "rank (L_Config_Client i) = config_rank (Suc i) + 3"
| "rank L_Conn = config_rank 0 + 1"

lemma scan_rank_less: "i < MAX_CLIENTS \<Longrightarrow> scan_rank (Suc i) + 9 < scan_rank i"
  by (simp add: scan_rank_def)

lemma scan_rank_pos [simp]: "2 < scan_rank i" "Suc 0 < scan_rank i" "0 < scan_rank i"
  by (simp_all add: scan_rank_def)

lemma config_rank_less: "i < MAX_NUM_SENSORS \<Longrightarrow> config_rank (Suc i) + 3 < config_rank i"
  by (simp add: config_rank_def)

lemma config_rank_message: "scan_rank 0 + 1 < config_rank i"
  by (simp add: config_rank_def)

lemma rank_bound: "rank at_pc \<le> 3896"
  by (cases at_pc) (simp_all add: scan_rank_def config_rank_def MAX_CLIENTS_def MAX_NUM_SENSORS_def)

lemma rank_conn: "rank L_Conn = 3896"
  by (simp add: scan_rank_def config_rank_def MAX_CLIENTS_def MAX_NUM_SENSORS_def)

lemma visit_goes:
  "visit_client i ss k = ok (goto, k') \<Longrightarrow> goto = L_Scan (Suc i) \<or> (\<exists>p. goto = L_Header i p \<or> goto = L_Drop i p)"
  by (auto simp: visit_client_def elim!: bindr_okE split: option.splits sock_conn_status_t.splits)

lemma rank_decreases:
  assumes x: "listener_step H junk (listening s) s = ok s'" and w: "\<not> m_be_working (t_srv s)"
  shows "rank (listening s') < rank (listening s)"
proof (cases "listening s")
  case (L_Scan i)
  with x show ?thesis using scan_rank_less [of i]
    by (auto elim!: bindr_okE split: if_splits dest!: visit_goes)
next
  case (L_Config i)
  with x show ?thesis using config_rank_less [of i] config_rank_message [of i]
    by (auto elim!: bindr_okE split: if_splits)
qed (use x w config_rank_message [of 0] in
  \<open>auto elim!: bindr_okE split: if_splits option.splits\<close>)

text \<open>The listener leaves alone whether it is to go on.\<close>

lemma accept_flag: "accept_client ss k = ok (c, ss', k') \<Longrightarrow> m_be_working ss' = m_be_working ss"
  by (auto simp: accept_client_def enter_client_def Let_def elim!: bindr_okE split: if_splits option.splits)

lemma forget_flag: "forget_client i p ss = ok (r, ss') \<Longrightarrow> m_be_working ss' = m_be_working ss"
  by (auto simp: forget_client_def Let_def elim!: bindr_okE split: if_splits)

lemma acquire_flag: "acquire t m s = ok s' \<Longrightarrow> m_be_working (t_srv s') = m_be_working (t_srv s) \<and> closer s' = closer s"
  using acquire_dev acquire_side by fastforce

lemma release_flag: "release t m s = ok s' \<Longrightarrow> m_be_working (t_srv s') = m_be_working (t_srv s) \<and> closer s' = closer s"
  using release_dev release_side by fastforce

lemma listener_keeps_flag:
  assumes x: "listener_step H junk (listening s) s = ok s'"
  shows "m_be_working (t_srv s') = m_be_working (t_srv s) \<and> closer s' = closer s"
proof (cases "listening s")
  case L_Choose
  with x show ?thesis by (auto simp: choose_default_def split: if_splits)
qed (use x in \<open>auto elim!: bindr_okE split: if_splits dest!: acquire_flag release_flag accept_flag forget_flag\<close>)

section \<open>At most so many steps\<close>

text \<open>A run in which the listener takes \<open>n\<close> steps.\<close>

inductive listened :: "sensors_h \<Rightarrow> threads \<Rightarrow> nat \<Rightarrow> threads \<Rightarrow> bool" for H where
  none: "listened H s 0 s"
| own: "tstep H s (T_Listener junk) r s' \<Longrightarrow> listened H s' n s'' \<Longrightarrow> listened H s (Suc n) s''"
| other: "tstep H s a r s' \<Longrightarrow> \<forall>junk. a \<noteq> T_Listener junk \<Longrightarrow> listened H s' n s'' \<Longrightarrow> listened H s n s''"

definition stopping :: "threads \<Rightarrow> bool" where
  "stopping s \<longleftrightarrow> closer s \<noteq> K_Open \<and> \<not> m_be_working (t_srv s)"

lemma other_keeps:
  assumes hdr: "header_ok H" and inv: "thr_inv H s" and x: "texec H a s = ok (s', r)" and a: "\<forall>junk. a \<noteq> T_Listener junk"
  shows "listening s' = listening s \<and> (stopping s \<longrightarrow> stopping s') \<and> ((closer s = K_Open \<longrightarrow> closer s' = K_Open) \<or> stopping s')"
proof (cases a)
  case (T_Poller c)
  with x poller_side [of H c s s' r] poller_guarded [OF hdr inv, of c s' r] show ?thesis by (simp add: stopping_def)
next
  case (T_Caller i k)
  with x caller_side [of H i k s s' r] caller_guarded [OF inv, of i k s' r] show ?thesis by (simp add: stopping_def)
next
  case (T_Close k)
  with x show ?thesis
    by (cases "closer s") (auto simp: stopping_def SockServer_join_def SockServer_stop_def SockServer_delete_def Let_def elim!: bindr_okE split: if_splits)
qed (use x a in \<open>auto simp: stopping_def split: if_splits prod.splits poller_pc.splits\<close>)

lemma stopped_when_closing:
  assumes hdr: "header_ok H" and "treachable H s"
  shows "closer s = K_Open \<or> stopping s"
  using assms(2)
proof (induction rule: treachable.induct)
  case (init junk trace ss k)
  then show ?case by (simp add: threads_init_def)
next
  case (step s a r s')
  from step.hyps(2) have x: "texec H a s = ok (s', r)" by (auto elim: tstepE)
  show ?case
  proof (cases "\<exists>junk. a = T_Listener junk")
    case True
    with x obtain junk where "listener_step H junk (listening s) s = ok s'" by (auto elim!: bindr_okE)
    from listener_keeps_flag [OF this] step.IH show ?thesis by (simp add: stopping_def)
  next
    case False
    with other_keeps [OF hdr treachable_inv [OF hdr step.hyps(1)] x] step.IH show ?thesis by blast
  qed
qed

lemma listened_bound:
  assumes hdr: "header_ok H" and "listened H s n s'" and "treachable H s" and "stopping s"
  shows "n + rank (listening s') \<le> rank (listening s)"
  using assms(2-)
proof (induction rule: listened.induct)
  case (own s junk r s' n s'')
  from own.hyps(1) have l: "listener_step H junk (listening s) s = ok s'" by (auto elim!: tstepE bindr_okE)
  have "stopping s'" using listener_keeps_flag [OF l] own.prems(2) by (simp add: stopping_def)
  with own.IH treachable.step [OF own.prems(1) own.hyps(1)] have "n + rank (listening s'') \<le> rank (listening s')" by blast
  with rank_decreases [OF l] own.prems(2) show ?case by (simp add: stopping_def)
next
  case (other s a r s' n s'')
  from other.hyps(1) have x: "texec H a s = ok (s', r)" by (auto elim: tstepE)
  from other_keeps [OF hdr treachable_inv [OF hdr other.prems(1)] x other.hyps(2)] other.prems(2)
  have "listening s' = listening s" "stopping s'" by blast+
  with other.IH treachable.step [OF other.prems(1) other.hyps(1)] show ?case by simp
qed simp

section \<open>Never blocked\<close>

lemma returns_ops [simp]:
  "returns (arr_get xs i)" "returns (arr_set xs i v)" "returns (FD_SET fd fds)" "returns (FD_ISSET fd fds)"
  "returns (mutex_unlock t m l)" "returns (deref_proxy h p)" "returns (pop_pool_buffer d)" "returns (buf_write buf off ds)"
  "returns (load32 buf off)"
  by (auto simp: arr_get_def arr_set_def FD_SET_def FD_ISSET_def mutex_unlock_def deref_proxy_def pop_pool_buffer_def buf_write_def load32_def
      split: option.splits list.splits)

lemma returns_release [simp]: "returns (release t m s)"
  unfolding release_def by (rule returns_bindr) simp_all

lemma returns_fd_set_slots [simp]: "returns (fd_set_slots fds set0)"
proof (induction fds arbitrary: set0)
  case (Cons fd fds)
  then have "returns (bindr (FD_SET fd set0) (fd_set_slots fds))" by (intro returns_bindr) simp_all
  with Cons show ?case by simp
qed simp

text \<open>A kernel that answers every question with 0, and has only broken connections.\<close>

definition kern_down :: kern where
  "kern_down = \<lparr>errno = 0, inbox = (\<lambda>_. [Recvd []]), outq = (\<lambda>_. []), sent = (\<lambda>_. []),
     sysq = [\<lparr>ans_ret = 0, ans_errno = 0, ans_fds = [], ans_val = 0, ans_str = []\<rparr>], calls = [], slept_us = 0\<rparr>"

lemma kern_down_fd [simp]: "fd_ok kern_down"
  by (simp add: kern_down_def fd_ok_def)

lemma sys_down [simp]: "returns (sys c kern_down)"
  by (simp add: sys_def kern_down_def)

lemma select_down [simp]: "returns (sys_select fds fds' tmo kern_down)"
  unfolding sys_select_def by (rule returns_bindr) (simp_all split: prod.splits)

lemma select_down_zero: "sys_select fds fds' tmo kern_down = ok (nsel, fds1, fds2, k) \<Longrightarrow> nsel = 0"
  by (auto simp: sys_select_def sys_def kern_down_def)

lemma accept_down: "returns (accept_client ss kern_down)"
proof (cases "m_server ss")
  case (Some sv)
  have "returns (sock_server_has_newconn (Some sv) tmo kern_down)" for tmo
    by (auto simp: sock_server_has_newconn_def dest: select_down_zero)
  moreover have "\<not> has" if "sock_server_has_newconn (Some sv) tmo kern_down = ok (has, k)" for tmo has k
    using that by (auto simp: sock_server_has_newconn_def elim!: bindr_okE dest: select_down_zero split: if_splits)
  ultimately show ?thesis unfolding accept_client_def Some by (intro returns_bindr) (auto split: prod.splits)
qed (simp add: accept_client_def sock_server_has_newconn_def)

lemma readable_down [simp]: "returns (sock_server_clients_readable server tmo kern_down)"
  by (cases server) (auto simp: sock_server_clients_readable_def Let_def)

lemma visit_down [simp]: "returns (visit_client i ss kern_down)"
proof -
  have "returns (sock_server_check_connect server client kern_down)" for server client
    by (auto simp: sock_server_check_connect_def split: option.splits)
  then show ?thesis unfolding visit_client_def by (auto split: option.splits)
qed

lemma recv_down:
  assumes "client_fd ss p = Some fd" and "off + nat len \<le> length buf" and "0 \<le> len" and "len < 2 ^ 31"
  shows "returns (SockServer_recv_data ss (Some p) buf off len SOCK_BLOCK_MODE tmo kern_down)"
proof -
  have d: "drain None n (errno kern_down) (inbox kern_down fd) \<noteq> None" for n
    by (cases n) (simp_all add: kern_down_def retry_errno_def EINTR_def EAGAIN_def)
  show ?thesis unfolding recv_data_block [OF assms] recv_result_def returns_map by (rule d)
qed

lemma header_down: "client_fd ss p = Some fd \<Longrightarrow> returns (receive_header H junk ss p kern_down)"
  unfolding receive_header_def
  by (intro returns_bindr recv_down) (auto simp: SIZEOF_AIC_EVENT_def Let_def)

section \<open>The listener can always go on\<close>

text \<open>Once no other thread is active, the listener finds every mutex free that it wants.\<close>

lemma listener_alone:
  assumes inv: "thr_inv H s" and "closer s \<noteq> K_Open" and "listener_holds (listening s) = {}"
  shows "mutexes s m = None"
proof -
  have "poller s = P_Out" "callers s i = C_Out" for i using thr_invD(7,8) [OF inv] assms(2) by blast+
  then have "holds s t = {}" for t using assms(3) by (cases t) simp_all
  then show ?thesis using all_free [OF inv] by simp
qed

lemma listener_returns:
  assumes inv: "thr_inv H s" and closing: "closer s = K_Joining" and at: "listening s \<noteq> L_Quit"
  shows "\<exists>k. fd_ok k \<and> returns (listener_step H (0, 0) (listening s) (s\<lparr>lkern := k\<rparr>))"
proof -
  let ?s = "s\<lparr>lkern := kern_down\<rparr>"
  have srv: "srv_ok (t_dev s) (t_srv s) (listening s)" using thr_invD(6) [OF inv] closing by simp
  have lock: "acquire Listener m ?s = ok (?s\<lparr>mutexes := (mutexes s)(m \<mapsto> Listener)\<rparr>)" if "listener_holds (listening s) = {}" for m
    using listener_alone [OF inv, of m] closing that by (simp add: acquire_def std.lock_free)
  have live: "\<exists>fd. client_fd (t_srv s) p = Some fd" if "entry (t_srv s) i p" "settled (listening s) (t_srv s) = t_srv s"
      "\<not> between_rounds (listening s)" for i p
  proof -
    from srv that obtain sv where "table_inv (t_srv s)" "m_server (t_srv s) = Some sv" by (auto simp: srv_ok_def)
    from entry_live [OF this that(1)] show ?thesis by blast
  qed
  show ?thesis
  proof (cases "listening s")
    case (L_Config_Send i p)
    with srv have i: "i < MAX_NUM_SENSORS" and fd: "client_fd (t_srv s) p \<noteq> None" by (simp_all add: srv_ok_def)
    have "length (config_bytes (m_sensor_config_status (t_dev s) ! i)) = SIZEOF_CONFIG_MSG" by simp
    from send_config_returns [OF fd this] obtain k r k' where
      k: "fd_ok k" "send_config (t_srv s) p (config_bytes (m_sensor_config_status (t_dev s) ! i)) k = ok (r, k')" by blast
    have "arr_get (m_sensor_config_status (t_dev s)) (int i) = ok (m_sensor_config_status (t_dev s) ! i)"
      using i thr_invD(2) [OF inv] by (simp add: arr_get_ok dev_inv_def)
    with k L_Config_Send show ?thesis by (intro exI [of _ k]) simp
  next
    case (L_Header i p)
    then obtain fd where "client_fd (t_srv s) p = Some fd" using live [of i p] srv by (auto simp: srv_ok_def)
    from header_down [OF this, of H "(0, 0)"] L_Header show ?thesis by (intro exI [of _ kern_down]) auto
  next
    case (L_Payload i p buf len)
    then obtain fd where fd: "client_fd (t_srv s) p = Some fd" using live [of i p] srv by (auto simp: srv_ok_def)
    have "SIZEOF_AIC_EVENT + nat len \<le> length buf" "0 \<le> len" "len < 2 ^ 31"
      using srv L_Payload by (auto simp: srv_ok_def MSG_BUF_SIZE_def MAX_SENSOR_PAYLOAD_SIZE_def)
    from recv_down [OF fd this, of 5] L_Payload show ?thesis by (intro exI [of _ kern_down]) auto
  next
    case (L_Drop i p)
    then obtain sv where sv: "m_server (t_srv s) = Some sv" and en: "entry (t_srv s) i p" and tab: "table_inv (t_srv s)"
      using srv by (auto simp: srv_ok_def)
    from drop_closes [OF tab sv en, of kern_down] L_Drop show ?thesis by (intro exI [of _ kern_down]) auto
  qed (use at lock accept_down in \<open>auto intro!: exI [of _ kern_down] simp: forget_client_def Let_def\<close>)
qed

text \<open>So it ends, and then the destructor deletes what there is.\<close>

definition gone :: "threads \<Rightarrow> bool" where
  "gone s \<longleftrightarrow> closer s = K_Closed \<and> m_server (t_srv s) = None \<and> connected (t_srv s) = []"

lemma delete_returns:
  assumes hdr: "header_ok H" and inv: "thr_inv H s" and "closer s = K_Joining" and "listening s = L_Quit"
  shows "runs_to H s gone"
proof -
  have env: "env_fine (T_Close kern_down) s" using thr_invD(7,8) [OF inv] assms(3) by auto
  have cl: "sysq (close_slots fds k) = sysq k" for fds k by (induction fds arbitrary: k) simp_all
  have "returns (sock_server_close (m_server (t_srv s)) kern_down)"
    by (auto simp: sock_server_close_def Let_def sys_def cl kern_down_def split: option.splits)
  then have "returns (texec H (T_Close kern_down) s)"
    using assms(3,4) by (auto simp: SockServer_join_def SockServer_delete_def SockServer_stop_def Let_def)
  with texec_good [OF hdr inv env] obtain s' r where x: "texec H (T_Close kern_down) s = ok (s', r)"
    by (auto simp: returns_def safe_run_def split: option.splits sum.splits)
  then have "gone s'"
    using assms(3) by (auto simp: gone_def SockServer_join_def SockServer_delete_def connected_def Let_def elim!: bindr_okE split: if_splits)
  then show ?thesis by (intro runs_step [OF hdr inv env x] runs_now)
qed

lemma closing_finishes:
  assumes hdr: "header_ok H" and "thr_inv H s" and "closer s = K_Joining" and "\<not> m_be_working (t_srv s)"
    and "listening s = L_Conn \<Longrightarrow> m_ncount (t_srv s) < int MAX_CLIENTS"
  shows "runs_to H s gone"
  using assms(2-)
proof (induction "rank (listening s)" arbitrary: s rule: less_induct)
  case less
  note inv = less.prems(1)
  show ?case
  proof (cases "listening s = L_Quit")
    case False
    obtain k where k: "fd_ok k" "returns (listener_step H (0, 0) (listening s) (s\<lparr>lkern := k\<rparr>))"
      using listener_returns [OF inv less.prems(2) False] by blast
    let ?s = "s\<lparr>lkern := k\<rparr>"
    have "texec H (T_Kernel k) s = ok (?s, None)" by simp
    then show ?thesis
    proof (rule runs_step [OF hdr inv, rotated])
      assume inv1: "thr_inv H ?s"
      have out: "callers s i = C_Out" for i using thr_invD(8) [OF inv] less.prems(2) by auto
      have env: "env_fine (T_Listener (0, 0)) ?s" using less.prems(4) out by simp
      from texec_good [OF hdr inv1 env] k(2) obtain s' where x: "listener_step H (0, 0) (listening ?s) ?s = ok s'" and inv2: "thr_inv H s'"
        by (auto simp: returns_def safe_run_def bindr_def split: option.splits sum.splits)
      have st: "texec H (T_Listener (0, 0)) ?s = ok (s', None)" using x by simp
      have w: "\<not> m_be_working (t_srv ?s)" using less.prems(3) by simp
      from listener_keeps_flag [OF x] less.prems(2) w have "closer s' = K_Joining" "\<not> m_be_working (t_srv s')" by simp_all
      moreover have "rank (listening s') < rank (listening s)" using rank_decreases [OF x w] by simp
      moreover have "listening s' \<noteq> L_Conn" using rank_decreases [OF x w] rank_bound [of "listening s"] rank_conn by auto
      ultimately have "runs_to H s' gone" using less.hyps [of s'] inv2 by blast
      then show "runs_to H ?s gone" by (rule runs_step [OF hdr inv1 env st])
    qed (use k in simp)
  next
    case True
    with delete_returns [OF hdr inv less.prems(2)] show ?thesis by blast
  qed
qed

end
