(* ===== verification/Thread_Properties.thy ===== *)
theory Thread_Properties
  imports Thread_Races Thread_Delivery Thread_Ledger Thread_Closing
begin

text \<open>The properties of the threads of the HAL and of their mutexes.\<close>

section \<open>A state to start from\<close>

definition demo_threads :: threads where
  "demo_threads = threads_init aosp_h (replicate MAX_NUM_SENSORS demo_slot) None demo_ss kern0"

lemma demo_threads_reachable: "treachable aosp_h demo_threads"
  unfolding demo_threads_def by (rule treachable.init) (simp_all add: demo_slot_def demo_server)

lemma demo_threads_simps [simp]:
  "poller demo_threads = P_Out" "callers demo_threads = (\<lambda>_. C_Out)" "closer demo_threads = K_Open" "mutexes demo_threads = Map.empty"
  "t_srv demo_threads = demo_ss" "t_dev demo_threads = demo_dev" "listening demo_threads = L_Top" "lkern demo_threads = kern0"
  by (simp_all add: demo_threads_def threads_init_def demo_dev_def demo_ss_def)

lemma treachable_exec: "treachable H s \<Longrightarrow> env_fine a s \<Longrightarrow> texec H a s = ok (s', r) \<Longrightarrow> treachable H s'"
  by (blast intro: treachable.step tstep.intros)

text \<open>A framework thread in the middle of a flush, with \<open>m_mutex\<close> locked.\<close>

definition demo_locked :: threads where
  "demo_locked = demo_threads\<lparr>mutexes := [M_mutex \<mapsto> Caller 1], callers := (\<lambda>_. C_Out)(1 := C_Body (R_Flush 2))\<rparr>"

lemma demo_locked_reachable: "treachable aosp_h demo_locked"
proof -
  let ?s = "demo_threads\<lparr>callers := (\<lambda>_. C_Out)(1 := C_Lock (R_Flush 2))\<rparr>"
  have "treachable aosp_h ?s"
    by (rule treachable_exec [OF demo_threads_reachable, where a = "T_Call 1 (R_Flush 2)"]) (simp_all add: MAX_NUM_SENSORS_def)
  then show ?thesis
    by (rule treachable_exec [where a = "T_Caller 1 kern0"]) (simp_all add: demo_locked_def acquire_def std.lock_free)
qed

section \<open>What the threads guarantee\<close>



text \<open>C4: what a step changes it changes under the mutex for it. The slots, the counters and the
  stored configurations change under \<open>m_mutex\<close> only, the queue under \<open>m_msg_queue_mtx\<close> only; the pool
  changes under \<open>m_msg_pool_mtx\<close>, except that the listener, when the queue is full, moves the oldest message to
  the pool under the mutex of the queue; the client table is written by the listener and the destructor only.\<close>

theorem guarded_writes:
  assumes "header_ok H" and "treachable H s" and "tstep H s a r s'"
  shows "(main_state (t_dev s') \<noteq> main_state (t_dev s) \<longrightarrow> (\<exists>t. actor a = Some t \<and> mutexes s M_mutex = Some t)) \<and>
    (m_sensor_msg_queue (t_dev s') \<noteq> m_sensor_msg_queue (t_dev s) \<longrightarrow> (\<exists>t. actor a = Some t \<and> mutexes s M_msg_queue_mtx = Some t)) \<and>
    (m_msg_mem_pool (t_dev s') \<noteq> m_msg_mem_pool (t_dev s) \<longrightarrow> (\<exists>t. actor a = Some t \<and> mutexes s M_msg_pool_mtx = Some t) \<or>
       actor a = Some Listener \<and> mutexes s M_msg_queue_mtx = Some Listener \<and> MAX_MSG_QUEUE_SIZE \<le> length (m_sensor_msg_queue (t_dev s))) \<and>
    (t_srv s' \<noteq> t_srv s \<longrightarrow> actor a = Some Listener \<or> (\<exists>k. a = T_Close k))"
proof -
  note inv = treachable_inv [OF assms(1,2)]
  from assms(3) have "texec H a s = ok (s', r)" by (auto elim: tstepE)
  note g = step_guarded [OF assms(1) inv this]
  note own = lock_owner [OF thr_invD(1) [OF inv]]
  have "mutexes s M_msg_queue_mtx = Some Listener" if "listening s = L_Enqueue i buf" for i buf
    using own [of M_msg_queue_mtx Listener] that by simp
  with g own show ?thesis by (cases "actor a") (auto simp: guarded_step_def)
qed

theorem guarded_writes_witness:
  "\<exists>s s'. treachable aosp_h s \<and> tstep aosp_h s (T_Caller 1 kern0) None s' \<and>
    main_state (t_dev s') \<noteq> main_state (t_dev s) \<and> mutexes s M_mutex = Some (Caller 1)"
proof -
  have h: "(2 :: nat) < MAX_NUM_SENSORS" by (simp add: MAX_NUM_SENSORS_def)
  from flush_eq [OF demo_dev_inv h] obtain d where fl: "sensor_device_flush aosp_h 2 demo_dev = ok (0, d)"
    and pend: "m_pending_sensors d = 2 ^ 2" using h by (auto simp: aosp_h_def)
  have st: "tstep aosp_h demo_locked (T_Caller 1 kern0) None (demo_locked\<lparr>t_dev := d, callers := (\<lambda>_. C_Out)(1 := C_Unlock 0)\<rparr>)"
    by (rule tstep.intros) (simp_all add: demo_locked_def fl)
  have "m_pending_sensors (main_state d) \<noteq> m_pending_sensors (main_state demo_dev)" by (simp add: main_state_def pend)
  then have ch: "main_state d \<noteq> main_state demo_dev" by auto
  have dev: "t_dev demo_locked = demo_dev" by (simp add: demo_locked_def)
  from guarded_writes [OF aosp_header_ok demo_locked_reachable st] have "mutexes demo_locked M_mutex = Some (Caller 1)"
    using ch dev by simp
  with st demo_locked_reachable ch dev show ?thesis by force
qed





text \<open>C5: the queue is a channel between the listener and the polling thread. However the threads are
  interleaved, the messages taken by the polling thread, followed by those still queued, are a subsequence of
  those queued at first, followed by those put in by the listener: nothing is invented, doubled or
  reordered. As long as they fit into the queue, nothing is lost either.\<close>

theorem fifo_between_threads:
  assumes "header_ok H" and "treachable H s" and "history H s ps gs s'"
  shows "subseq (gs @ m_sensor_msg_queue (t_dev s')) (m_sensor_msg_queue (t_dev s) @ ps) \<and>
    (length (m_sensor_msg_queue (t_dev s)) + length ps \<le> MAX_MSG_QUEUE_SIZE \<longrightarrow>
       gs @ m_sensor_msg_queue (t_dev s') = m_sensor_msg_queue (t_dev s) @ ps)"
  using history_fifo [OF assms(1,3,2)] history_lossless [OF assms(1,3,2)] by blast

theorem fifo_between_threads_witness:
  "\<exists>s s' ps gs buf. treachable aosp_h s \<and> history aosp_h s ps gs s' \<and> m_sensor_msg_queue (t_dev s) = [] \<and>
    m_sensor_msg_queue (t_dev s') = [buf] \<and> subseq (gs @ [buf]) ps"
proof -
  obtain buf h where h: "step aosp_h demo_blocked (Listen (0, 0) kern_acc) None h" "m_sensor_msg_queue (dev h) = [buf]"
    by (rule demo_received)
  have w: "m_thread (srv demo_blocked)" "m_be_working (srv demo_blocked)" by (simp_all add: demo_blocked_def demo_ss_def)
  from reachable_embeds [OF aosp_header_ok demo_blocked_reachable w] obtain s where
    s: "treachable aosp_h s" "embeds demo_blocked s" by blast
  have "dev_inv aosp_h (dev demo_blocked)" by (simp add: demo_blocked_def demo_dev_inv)
  from step_simulated [OF s(2) this w(2) h(1)] obtain s' where
    s': "truns aosp_h s [] s'" "embeds h s'" by (auto simp: simulated_def)
  then obtain ps gs where hist: "history aosp_h s ps gs s'" using truns_history by blast
  have q: "m_sensor_msg_queue (t_dev s) = []" "m_sensor_msg_queue (t_dev s') = [buf]"
    using s(2) s'(2) h(2) by (simp_all add: embeds_def demo_blocked_def)
  with fifo_between_threads [OF aosp_header_ok s(1) hist] have "subseq (gs @ [buf]) ps" by simp
  with q s(1) hist show ?thesis by blast
qed

text \<open>C7: every event has a cause. In any interleaving of the threads, the flush notices handed out by the
  polling calls, together with those still owed, are no more than those owed at first and the flush requests carried out;
  the readings handed out and still pending are no more than those pending at first and the messages taken in; and all events
  are well labelled.\<close>

theorem no_event_invented:
  assumes "header_ok H" and "treachable H s" and "ledger H s evs f m s'"
  shows "length (filter (is_notice H) evs) + notices H (t_dev s') \<le> notices H (t_dev s) + f \<and>
    length (filter (Not \<circ> is_notice H) evs) + readings H (t_dev s') \<le> readings H (t_dev s) + m \<and> list_all (event_ok H) evs"
  using ledger_balanced [OF assms(1,3,2)] by (simp add: balanced_def)

theorem no_event_invented_witness:
  "\<exists>evs f m s'. ledger aosp_h demo_threads evs f m s' \<and> evs \<noteq> [] \<and> 1 \<le> f + m"
proof -
  obtain h r evs h' where h: "step aosp_h demo_hal (Flush 2) (Some (0, [])) h" "step aosp_h h (Poll 4) (Some (r, evs)) h'"
    "evs \<noteq> []" "srv h = demo_ss" "reachable aosp_h h" by (rule demo_flushed)
  have d: "dev_inv aosp_h (dev demo_hal)" "dev_inv aosp_h (dev h)"
    using reachable_inv [OF aosp_header_ok h(5)] by (simp_all add: demo_dev_inv hal_inv_def)
  have w: "m_be_working (srv demo_hal)" "m_be_working (srv h)" by (simp_all add: h(4) demo_ss_def)
  have "embeds demo_hal demo_threads" by (simp add: embeds_def)
  from step_simulated [OF this d(1) w(1) h(1)] obtain s where
    s: "truns aosp_h demo_threads [(0, [])] s" "embeds h s" by (auto simp: simulated_def)
  from step_simulated [OF s(2) d(2) w(2) h(2)] obtain s' where "truns aosp_h s [(r, evs)] s'" by (auto simp: simulated_def)
  from truns_ledger [OF truns_append [OF s(1) this]] obtain f m where l: "ledger aosp_h demo_threads evs f m s'" by auto
  have z: "notices aosp_h demo_dev = 0" "readings aosp_h demo_dev = 0"
    by (simp_all add: notices_def readings_def slot_of_def)
  have "length (filter (is_notice aosp_h) evs) + length (filter (Not \<circ> is_notice aosp_h) evs) = length evs"
    using sum_length_filter_compl [of "is_notice aosp_h" evs] by (simp add: o_def)
  with no_event_invented [OF aosp_header_ok demo_threads_reachable l] z h(3) have "1 \<le> f + m" by (cases evs) auto
  with l h(3) show ?thesis by blast
qed

text \<open>C8: after \<open>stop\<close> the listener takes at most 3896 more steps in any run, whatever the other threads and the
  kernel do in between; and there is a continuation in which it ends, the destructor returns, and no server
  and no client is left.\<close>

theorem close_finishes:
  assumes "header_ok H" and "treachable H s" and "closer s = K_Joining"
    and "listening s = L_Conn \<longrightarrow> m_ncount (t_srv s) < int MAX_CLIENTS"
  shows "(\<forall>n s'. listened H s n s' \<longrightarrow> n \<le> 3896) \<and>
    (\<exists>rs s'. truns H s rs s' \<and> closer s' = K_Closed \<and> m_server (t_srv s') = None \<and> connected (t_srv s') = [])"
proof -
  have st: "stopping s" using stopped_when_closing [OF assms(1,2)] assms(3) by simp
  have "n \<le> 3896" if "listened H s n s'" for n s'
    using listened_bound [OF assms(1) that assms(2) st] rank_bound [of "listening s"] by simp
  moreover have "runs_to H s gone"
    by (rule closing_finishes [OF assms(1) treachable_inv [OF assms(1,2)] assms(3)]) (use st assms(4) in \<open>simp_all add: stopping_def\<close>)
  ultimately show ?thesis by (auto simp: runs_to_def gone_def)
qed

theorem close_finishes_witness:
  "\<exists>s rs s'. treachable aosp_h s \<and> closer s = K_Joining \<and> connected (t_srv s) = [Some 0] \<and>
    truns aosp_h s rs s' \<and> closer s' = K_Closed \<and> connected (t_srv s') = []"
proof -
  let ?s = "demo_threads\<lparr>t_srv := SockServer_stop demo_ss, closer := K_Joining\<rparr>"
  have reach: "treachable aosp_h ?s"
    by (rule treachable_exec [OF demo_threads_reachable, where a = "T_Close kern0"]) simp_all
  have "connected (t_srv ?s) = [Some 0]" using demo_connected by (simp add: SockServer_stop_def connected_def)
  with close_finishes [OF aosp_header_ok reach] reach show ?thesis by (intro exI [of _ ?s]) (auto simp: connected_def)
qed

text \<open>C9: the threads can do whatever the coarser model does, in which a call of the framework and a round
  of the listener are single steps and the polling call is cut only where it gives up \<open>m_mutex\<close>: each
  step of it is a sequence of steps of the threads with the same answers, between corresponding states.\<close>

theorem calls_are_atomic:
  assumes "header_ok H" and "reachable H h" and "m_be_working (srv h)" and "embeds h t" and "step H h a r h'"
  shows "\<exists>t'. truns H t (heard r) t' \<and> embeds h' t'"
proof -
  have "dev_inv H (dev h)" using reachable_inv [OF assms(1,2)] by (simp add: hal_inv_def)
  from step_simulated [OF assms(4) this assms(3,5)] show ?thesis by (simp add: simulated_def)
qed

theorem calls_are_atomic_witness:
  "\<exists>t'. truns aosp_h demo_threads [] t' \<and> embeds (demo_hal\<lparr>pc := Queueing 4\<rparr>) t'"
proof -
  have st: "step aosp_h demo_hal (Poll 4) None (demo_hal\<lparr>pc := Queueing 4\<rparr>)"
    by (rule step.intros) (simp_all add: begin_poll_def await_def get_sock_client_def)
  have "embeds demo_hal demo_threads" by (simp add: embeds_def)
  moreover have "m_be_working (srv demo_hal)" by (simp add: demo_ss_def)
  ultimately show ?thesis using calls_are_atomic [OF aosp_header_ok demo_reachable _ _ st] by simp
qed


section \<open>Where the mutexes are not enough\<close>

text \<open>C33: the listener tests the pool without its mutex: there is a reachable state in which the polling thread
  holds the mutex of the pool and is about to append to the pool, while the listener is about to test whether the pool is
  empty, and both can take their steps.\<close>

theorem pool_race:
  "\<exists>s buf p hdr len s1 s2. treachable aosp_h s \<and> poller s = P_Recycle 4 buf \<and> listening s = L_Pool_Test 0 p hdr len \<and>
    mutexes s M_msg_pool_mtx = Some Poller \<and>
    tstep aosp_h s (T_Poller (0, 0)) None s1 \<and> m_msg_mem_pool (t_dev s1) = m_msg_mem_pool (t_dev s) @ [buf] \<and>
    tstep aosp_h s (T_Listener (0, 0)) None s2 \<and> (listening s2 = L_Pool_Lock 0 p hdr len) = (m_msg_mem_pool (t_dev s) \<noteq> [])"
proof -
  obtain s buf p hdr len where s: "treachable aosp_h s" "poller s = P_Recycle 4 buf" "listening s = L_Pool_Test 0 p hdr len"
    "mutexes s M_msg_pool_mtx = Some Poller" using pool_race_reachable .
  let ?s1 = "s\<lparr>t_dev := recycle_buffer buf (t_dev s), mutexes := (mutexes s)(M_msg_pool_mtx := None), poller := P_Pick 4\<rparr>"
  let ?s2 = "s\<lparr>listening := (if m_msg_mem_pool (t_dev s) = [] then L_New_Lock 0 p hdr len else L_Pool_Lock 0 p hdr len)\<rparr>"
  have "tstep aosp_h s (T_Poller (0, 0)) None ?s1" by (rule tstep.intros) (use s in \<open>simp_all add: release_held\<close>)
  moreover have "tstep aosp_h s (T_Listener (0, 0)) None ?s2" by (rule tstep.intros) (use s in simp_all)
  ultimately show ?thesis using s
    by (intro exI [of _ s] exI [of _ buf] exI [of _ p] exI [of _ hdr] exI [of _ len] exI [of _ ?s1] exI [of _ ?s2]) simp
qed

text \<open>C31: no mutex protects the default client. When a framework thread is about to ask for the
  client that the listener is about to drop, the send reads the deleted proxy, both if the pointer was taken before the
  deletion and if it is taken after the deletion but before the listener clears it.\<close>

theorem stale_client_use_after_free:
  assumes "header_ok H" and "treachable H s" and "callers s i = C_Client msg" and "get_sock_client (t_srv s) = Some p"
    and "listening s = L_Drop j p"
  shows "texec_all H [T_Caller i k, T_Listener junk, T_Caller i k'] s = fault Use_After_Free \<and>
    texec_all H [T_Listener junk, T_Caller i k, T_Caller i k'] s = fault Use_After_Free"
  using dropped_while_sending [OF treachable_inv [OF assms(1,2)] assms(3-5)] by blast

text \<open>The listener about to drop the only client, and a framework thread about to ask for it.\<close>

definition kern_gone :: kern where
  "kern_gone = kern_sys [ans 0 [] 0, ans 1 [7] 0, ans 0 [] 0]"

lemma demo_drop:
  "\<exists>ss k. truns aosp_h (solo demo_threads free demo_dev demo_ss kern_gone P_Out L_Top) []
     (solo demo_threads free demo_dev ss k P_Out (L_Drop 0 0)) \<and> get_sock_client ss = Some 0"
proof -
  let ?at = "\<lambda>ss k a. solo demo_threads free demo_dev ss k P_Out a"
  have sfd: "0 \<le> socketfd demo_sv" "socketfd demo_sv < 1024" by simp_all
  have q: "sysq kern_gone = ans 0 [] 0 # [ans 1 [7] 0, ans 0 [] 0]" by (simp add: kern_gone_def)
  from no_new_connection [OF demo_ss_simps(1) sfd q, of "m_connection_timeout_ms demo_ss"] obtain k1 where
    k1: "sock_server_has_newconn (m_server demo_ss) (m_connection_timeout_ms demo_ss) kern_gone = ok (False, k1)"
      "sysq k1 = [ans 1 [7] 0, ans 0 [] 0]" by auto
  have slots: "\<forall>fd \<in> set (client_slots demo_sv). fd = -1 \<or> 0 \<le> fd \<and> fd < 1024" "7 \<in> set (client_slots demo_sv)"
    by (auto simp: SOCK_MAX_CLIENTS_def set_update_memI dest: set_update_subset_insert [THEN subsetD])
  from clients_readable_eq [OF slots _ k1(2), of "m_client_status_check_timeout demo_ss"] obtain rf k2 where
    k2: "sock_server_clients_readable (Some demo_sv) (m_client_status_check_timeout demo_ss) k1 = ok (True, Some (demo_sv\<lparr>rfds := rf\<rparr>), k2)"
      "7 \<in> set rf" "sysq k2 = [ans 0 [] 0]" by auto
  let ?ss = "demo_ss\<lparr>m_server := Some (demo_sv\<lparr>rfds := rf\<rparr>)\<rparr>"
  obtain k3 where v: "visit_client 0 ?ss k2 = ok (L_Drop 0 0, k3)"
    using k2(2,3) by (simp add: visit_client_def arr_get_def deref_proxy_def sock_server_check_connect_def FD_ISSET_def sys_def
        MAX_CLIENTS_def SOCK_MAX_CLIENTS_def)
  have "truns aosp_h (?at ?ss k2 (L_Scan 0)) [] (?at ?ss k3 (L_Drop 0 0))"
    by (rule solo_step [where junk = "(0, 0)", OF _ _ truns.stop]) (use v in \<open>simp_all add: MAX_CLIENTS_def\<close>)
  then have "truns aosp_h (?at demo_ss k1 L_Message) [] (?at ?ss k3 (L_Drop 0 0))"
    by (rule solo_step [where junk = "(0, 0)", rotated 2]) (use k2(1) in simp_all)
  then have "truns aosp_h (?at demo_ss kern_gone L_Conn) [] (?at ?ss k3 (L_Drop 0 0))"
    by (rule solo_step [where junk = "(0, 0)", rotated 2]) (use k1(1) in \<open>simp_all add: accept_client_def MAX_CLIENTS_def\<close>)
  then have "truns aosp_h (?at demo_ss kern_gone L_Top) [] (?at ?ss k3 (L_Drop 0 0))"
    by (rule solo_step [where junk = "(0, 0)", rotated 2]) (simp_all add: demo_ss_def)
  then show ?thesis by (intro exI [of _ ?ss] exI [of _ k3]) (simp add: get_sock_client_def)
qed

lemma demo_dropping:
  obtains s msg where "treachable aosp_h s" and "callers s 0 = C_Client msg" and "get_sock_client (t_srv s) = Some 0" and "listening s = L_Drop 0 0"
proof -
  obtain ss k where d: "truns aosp_h (solo demo_threads free demo_dev demo_ss kern_gone P_Out L_Top) []
     (solo demo_threads free demo_dev ss k P_Out (L_Drop 0 0))" and p: "get_sock_client ss = Some 0" using demo_drop by blast
  have eq: "demo_threads = solo demo_threads free demo_dev demo_ss kern0 P_Out L_Top"
    using embeds_eq [of demo_hal demo_threads] by (simp add: embeds_def)
  have "treachable aosp_h (solo demo_threads free demo_dev demo_ss kern_gone P_Out L_Top)"
    by (rule treachable_exec [OF demo_threads_reachable, where a = "T_Kernel kern_gone"])
       (use eq in \<open>simp_all add: kern_gone_def fd_ok_def solo_def\<close>)
  from truns_reachable [OF d this] have s0: "treachable aosp_h (solo demo_threads free demo_dev ss k P_Out (L_Drop 0 0))" .
  let ?s = "\<lambda>l d c. (solo demo_threads l d ss k P_Out (L_Drop 0 0))\<lparr>callers := (\<lambda>_. C_Out)(0 := c)\<rparr>"
  have ty: "\<not> get_type_from_hanle aosp_h 0 < 0"
    using type_nonneg [OF aosp_header_ok, of 0] get_type_int [OF aosp_header_ok, of 0] by (simp add: MAX_NUM_SENSORS_def)
  have s1: "treachable aosp_h (?s free demo_dev (C_Lock (R_Batch 0 20000000)))"
    by (rule treachable_exec [OF s0, where a = "T_Call 0 (R_Batch 0 20000000)"]) (use ty in simp_all)
  have s2: "treachable aosp_h (?s [M_mutex \<mapsto> Caller 0] demo_dev (C_Body (R_Batch 0 20000000)))"
    by (rule treachable_exec [OF s1, where a = "T_Caller 0 kern0"]) (simp_all add: acquire_def std.lock_free solo_def)
  obtain c d where cc: "change_config 0 (\<lambda>c. c\<lparr>cfg_sensor_type := get_type_from_hanle aosp_h 0, cfg_enabled := 1,
       cfg_sample_period := period_ms 20000000\<rparr>) demo_dev = ok (c, d)"
    using change_config_eq [OF demo_dev_inv, of 0] by (simp add: MAX_NUM_SENSORS_def)
  have "treachable aosp_h (?s [M_mutex \<mapsto> Caller 0] d (C_Client (config_bytes c)))"
    by (rule treachable_exec [OF s2, where a = "T_Caller 0 kern0"]) (simp_all add: cc solo_def)
  from that [OF this] p show thesis by simp
qed

theorem stale_client_use_after_free_witness:
  "\<exists>s. treachable aosp_h s \<and> texec_all aosp_h [T_Caller 0 kern0, T_Listener (0, 0), T_Caller 0 kern0] s = fault Use_After_Free"
proof -
  obtain s msg where s: "treachable aosp_h s" "callers s 0 = C_Client msg" "get_sock_client (t_srv s) = Some 0" "listening s = L_Drop 0 0"
    using demo_dropping .
  from stale_client_use_after_free [OF aosp_header_ok s] s(1) show ?thesis by blast
qed

text \<open>C34: a flush does not wake up a polling call that waits for a message. The flush succeeds and leaves
  its notice pending, but the polling thread still waits and cannot move, although it has something to deliver: the
  notice is not reported before the next message arrives.\<close>

theorem flush_does_not_wake:
  assumes "header_ok H" and "treachable H s" and "poller s = P_Wait n" and "callers s i = C_Out" and "mutexes s M_mutex = None"
    and "h < MAX_NUM_SENSORS"
  shows "\<exists>s'. texec_all H [T_Call i (R_Flush (int h)), T_Caller i k, T_Caller i k, T_Caller i k] s =
      ok (s', [None, None, None, Some (0, [])]) \<and>
    h \<in> bits_of (m_pending_sensors (t_dev s')) \<and> poller s' = P_Wait n \<and> texec H (T_Poller c) s' = None"
proof -
  from flush_while_waiting [OF treachable_inv [OF assms(1,2)] assms(3-6), of k] obtain s' where
    "texec_all H [T_Call i (R_Flush (int h)), T_Caller i k, T_Caller i k, T_Caller i k] s = ok (s', [None, None, None, Some (0, [])])"
    "poller s' = P_Wait n" "h \<in> bits_of (m_pending_sensors (t_dev s'))" by blast
  then show ?thesis by (intro exI [of _ s']) (simp del: texec_all.simps)
qed

theorem flush_does_not_wake_witness:
  "\<exists>s s'. treachable aosp_h s \<and> texec_all aosp_h [T_Call 0 (R_Flush (int 2)), T_Caller 0 kern0, T_Caller 0 kern0, T_Caller 0 kern0] s =
      ok (s', [None, None, None, Some (0, [])]) \<and> poller s' = P_Wait 4"
proof -
  have "m_thread (srv demo_blocked)" "m_be_working (srv demo_blocked)" by (simp_all add: demo_blocked_def demo_ss_def)
  from reachable_embeds [OF aosp_header_ok demo_blocked_reachable this] obtain t where
    t: "treachable aosp_h t" "embeds demo_blocked t" by blast
  have "poller t = P_Wait 4" "callers t 0 = C_Out" "mutexes t M_mutex = None"
    using t(2) by (simp_all add: embeds_def demo_blocked_def woken_def)
  from flush_does_not_wake [OF aosp_header_ok t(1) this, of 2 kern0 "(0, 0)"] t(1) show ?thesis
    by (auto simp: MAX_NUM_SENSORS_def simp del: texec_all.simps)
qed

text \<open>C32: the listener receives from one client until a whole header has come. While a client has sent
  less than a header and its connection is not broken, then whatever the other threads do and however often the kernel answers
  that there is nothing to receive, the listener stays at this client and serves no other one, and a
  destructor that was called does not return.\<close>

theorem half_message_blocks:
  assumes "header_ok H" and "treachable H s" and "listening s = L_Header i p" and "client_fd (t_srv s) p = Some fd"
    and "half_header fd (lkern s)" and "starved H fd s s'"
  shows "listening s' = L_Header i p \<and> closer s' \<noteq> K_Closed \<and> texec H (T_Listener junk) s' = None \<and>
    (closer s' = K_Joining \<longrightarrow> texec H (T_Close k) s' = None)"
proof -
  have "stuck i p fd s" using assms(3-5) by (simp add: stuck_def)
  from starved_stuck [OF assms(1,6,2) this] have s': "treachable H s'" "stuck i p fd s'" by blast+
  then have l: "listening s' = L_Header i p" by (simp add: stuck_def)
  with stuck_listener [OF s'(2), of H junk] thr_invD(9) [OF treachable_inv [OF assms(1) s'(1)]] show ?thesis
    by (auto simp: SockServer_join_def)
qed

text \<open>Eight bytes of a header on the only client's socket.\<close>

definition kern_half :: kern where
  "kern_half = (kern_in [Recvd (take 8 (aic_bytes acc_msg))])\<lparr>sysq := [ans 0 [] 0, ans 1 [7] 0, ans 0 [] 8]\<rparr>"

lemma demo_half:
  obtains s where "treachable aosp_h s" and "listening s = L_Header 0 0" and "client_fd (t_srv s) 0 = Some 7"
    and "half_header 7 (lkern s)" and "poller s = P_Out" and "callers s = (\<lambda>_. C_Out)" and "closer s = K_Open"
proof -
  have eq: "demo_threads = solo demo_threads free demo_dev demo_ss kern0 P_Out L_Top"
    using embeds_eq [of demo_hal demo_threads] by (simp add: embeds_def)
  have s0: "treachable aosp_h (solo demo_threads free demo_dev demo_ss kern_half P_Out L_Top)"
    by (rule treachable_exec [OF demo_threads_reachable, where a = "T_Kernel kern_half"])
       (use eq in \<open>simp_all add: kern_half_def fd_ok_def solo_def\<close>)
  have rr: "readable_round 7 kern_half" by (simp add: readable_round_def kern_half_def)
  obtain ss1 k1 where l: "truns aosp_h (solo demo_threads free demo_dev demo_ss kern_half P_Out L_Top) []
      (solo demo_threads free demo_dev ss1 k1 P_Out (L_Header 0 0))"
    and k1: "client_fd ss1 0 = Some 7" "errno k1 = errno kern_half" "inbox k1 = inbox kern_half"
    by (rule listener_to_header [OF demo_server demo_sole demo_live rr sole_room [OF demo_server demo_sole]]) (simp_all add: demo_ss_def)
  have "aic_bytes acc_msg \<noteq> []" by (simp add: length_aic_bytes SIZEOF_AIC_EVENT_def flip: length_0_conv)
  then have "half_header 7 k1" by (simp add: half_header_def k1 kern_half_def SIZEOF_AIC_EVENT_def min_def)
  with that [OF truns_reachable [OF l s0]] k1(1) show thesis by (simp add: solo_def)
qed

theorem half_message_blocks_witness:
  "\<exists>s s'. treachable aosp_h s \<and> starved aosp_h 7 s s' \<and> closer s' = K_Joining \<and> texec aosp_h (T_Close kern0) s' = None"
proof -
  obtain s where s: "treachable aosp_h s" "listening s = L_Header 0 0" "client_fd (t_srv s) 0 = Some 7"
    "half_header 7 (lkern s)" "poller s = P_Out" "callers s = (\<lambda>_. C_Out)" "closer s = K_Open" by (rule demo_half)
  let ?s' = "s\<lparr>t_srv := SockServer_stop (t_srv s), closer := K_Joining\<rparr>"
  have "tstep aosp_h s (T_Close kern0) None ?s'" by (rule tstep.intros) (use s(5-) in simp_all)
  then have "starved aosp_h 7 s ?s'" by (rule starved.move) (simp_all add: starved.stay)
  with half_message_blocks [OF aosp_header_ok s(1-4) this, of "(0, 0)" kern0] s(1) show ?thesis
    by (intro exI [of _ s] exI [of _ ?s']) (simp del: texec.simps)
qed

end
