(* ===== verification/Spec2Isabelle.thy ===== *)
theory Spec2Isabelle
  imports Socket_Properties Device_Properties Thread_Properties
begin

text \<open>
  A verification development for the sensor HAL of Celadon (\<open>sensors_vhal.cpp\<close>) and its socket
  library (\<open>sock_utils\<close>).

  \<^bold>\<open>The program.\<close> The HAL is an Android module. The framework opens it, lists its nine sensors, switches
  them on and off, sets their sampling periods, flushes them, and calls \<open>poll\<close> in a thread of its own to
  receive events. The readings come from a client outside the container, over a UNIX or TCP socket. A
  listener thread of the class \<open>SockServer\<close> accepts clients, and for every readable client calls back
  into the class \<open>SensorDevice\<close>, which receives one message (a 16-byte header, then 4, 12 or 24 bytes of
  values) into a pooled buffer and appends it to a queue of at most 128. The polling thread takes a
  message from the queue, writes it into the event slot of its sensor, marks the slot in a mask, gives
  it a time stamp, and hands out pending slots to the framework. A flush writes a notice into the same
  slots. Configuration goes the other way, as 12-byte messages to the default client. The class
  \<open>SockClient\<close> is the peer for programs that use the library as a client.

  \<^bold>\<open>The theories.\<close>
  \<^item> \<open>Prelude\<close>: runs (a value, undefined behaviour or \<open>_exit\<close>, or not finished), C arrays with their
    bounds, little-endian storage, bit masks and \<open>__builtin_clz\<close>.
  \<^item> \<open>Kernel_IO\<close>: the POSIX calls, with the kernel's answers as an input of the model. What the sources do
    with them is all modelled; what the kernel does is arbitrary, except that streams keep their bytes.
  \<^item> \<open>Sock_Server\<close>, \<open>Sock_Client\<close>, \<open>Fd_Passing\<close>: the C layer, \<open>sock_server.cpp\<close> and \<open>sock_client.cpp\<close>, function
    by function. Client proxies live in an explicit heap, so that an access after \<open>delete\<close> is seen.
  \<^item> \<open>Sock_Transfer\<close>: the four transfer loops of \<open>sock_utils.cpp\<close>, which the two classes repeat, over an
    abstract single-call primitive; the locales \<open>recv_channel\<close> and \<open>send_channel\<close> say what a primitive must do,
    and give the loops exactly as the reference functions \<open>drain\<close> and \<open>push\<close>, which recurse over the kernel's
    outcomes. The loops may run for ever and are \<open>partial_function\<close>s: not returning is \<open>None\<close>.
  \<^item> \<open>Sock_Utils\<close>: the class \<open>SockServer\<close>, with the invariant that ties the 512 descriptor slots, the 255
    proxy pointers, the heap, the client count and the default client together; the locale \<open>server_app\<close> is
    the contract between the server and the callbacks of a program, and gives the safety of the listener.
  \<^item> \<open>Sock_Peer\<close>: the class \<open>SockClient\<close>.
  \<^item> \<open>Sensor_Types\<close>: the constants, messages and lookups of \<open>sensors_vhal.h\<close>. The constants of Android's
    \<open>hardware/sensors.h\<close>, which is not in the repository, are the parameter \<open>H\<close>, with what is relied on as
    \<open>header_ok\<close>: handles start at 0, and the types are distinct, positive and not the meta data type.
  \<^item> \<open>Sensor_Device\<close>: the class \<open>SensorDevice\<close> as a record, one definition per method, and its invariant
    \<open>dev_inv\<close>. The slots are specified as \<open>slot\<close> (empty, owing notices, holding a reading); flush and pick
    are proved to refine the operations of that specification.
  \<^item> \<open>Sensor_Messages\<close>, \<open>Sensor_Delivery\<close>: the bounded queue (locale \<open>lossy_queue\<close>), the listener callback and the
    delivery of whole sequences of messages; the device's callbacks meet the contract \<open>server_app\<close>.
  \<^item> \<open>Sensor_Intake\<close>, \<open>Sensor_Config\<close>: what a message does to the slots, and the configuration calls.
  \<^item> \<open>Sensor_System\<close>: the threads, coarsely. The polling call is cut at the points where it gives up its mutex
    (\<open>poll_pc\<close>); calls of the framework and rounds of the listener are one step each. \<open>exec\<close> is the
    executable effect of a step, \<open>step\<close> and \<open>reachable\<close> the relations over it.
  \<^item> \<open>Mutexes\<close>: \<open>std::mutex\<close> and the classes of \<open>cg_mutex.h\<close>; the locale \<open>mutex_ops\<close> is the contract of a mutex,
    interpreted for all three.
  \<^item> \<open>Hal_Threads\<close>: the threads at the granularity of their mutexes. The state \<open>threads\<close> has the device, the
    server, the holders of the mutexes and a program counter for the polling thread, for each of any number of
    framework threads, for the listener and for the destructor; \<open>poller_step\<close>, \<open>caller_step\<close>, \<open>listener_step\<close>
    and \<open>closer_step\<close> are one lock operation or one piece of code between two of them, \<open>texec\<close> the step of an
    action, \<open>tstep\<close> and \<open>treachable\<close> the relations over it.
  \<^item> \<open>Thread_Safety\<close>, \<open>Listener_Steps\<close>, \<open>Thread_Invariant\<close>: the invariant \<open>thr_inv\<close> (who holds which mutex, an
    assertion for every program counter) and that every step of every thread keeps it.
  \<^item> \<open>Thread_Simulation\<close>: the coarse model is one of the behaviours of the threads. \<open>Thread_Locks\<close>: what each
    mutex protects, the order of the mutexes, progress. \<open>Thread_Delivery\<close>: the queue as a channel between two
    threads (\<open>history\<close>: what was put in and what was taken). \<open>Thread_Ledger\<close>: an account of flush requests and
    messages against notices and readings (\<open>ledger\<close>). \<open>Thread_Closing\<close>: the end of the listener after \<open>stop\<close>, with
    a number (\<open>rank\<close>) that each of its steps decreases. \<open>Thread_Races\<close>: where the mutexes are not enough, and
    a client that sends half a header.
  \<^item> \<open>Hal_Module\<close>: the sensor list, opening with its properties, closing, the module's table.
  \<^item> \<open>Sensor_Scenarios\<close>: runs through all components. \<open>Fixtures\<close> is a concrete HAL for the instances of the
    properties, which are in \<open>Socket_Properties\<close>, \<open>Device_Properties\<close>, \<open>Thread_Properties\<close> and here.

  \<^bold>\<open>What is shown.\<close> C1 to C10 are about the whole HAL: no undefined behaviour in any
  interleaving of its threads, the way of a message from the socket to the framework, the absence of deadlocks,
  what the mutexes protect, the delivery of message sequences and their order between the threads, the causes of
  all events, the end of the threads when the device is closed, the two thread models against each other, the answers of
  the polling call. C11 to C17 are the device against its specification and its
  wake-ups; C18 to C20 and C28 to C30 the
  socket library (the timeout loops return after at most timeout + 1 sleeps once the kernel has
  answered often enough, which is their bound; blocking loops return on a stream that holds enough);
  C21 to C27 configuration, formats, the module and the scoped lock. C31
  to C40 prove how the code behaves where it falls short of what it means to do: each names the run
  that shows it.

  \<^bold>\<open>What safety relies on.\<close> \<open>env_ok\<close> and \<open>env_fine\<close> list it: flush is called with handles of the list, the condition
  variable does not wake up without a message, fewer than 255 clients are connected, descriptors are below
  1024. \<open>flush_beyond_table\<close>, \<open>spurious_wakeup\<close> and C37 show that the first three are needed.
  \<open>env_fine\<close> adds that the device is closed when no call is under way and not used afterwards, and that the
  client does not go away between the reading of the default client and the end of the send;
  C31 shows what happens when it does. Data races as such are not undefined behaviour in
  the model, where the test of the pool is a step of its own; C33 shows the race.

  \<^bold>\<open>What is not modelled.\<close> Log output (except where it reads a deleted object or divides by zero);
  the values of floats, which are moved as 32-bit words; memory exhaustion; the 16 bytes of carrier data
  of descriptor passing; the mutex \<open>m_pclient_mutex_\<close>, which only the listener takes; the four functions of
  the C layer between \<open>#if 0\<close> and \<open>#endif\<close>, which are not compiled; the two interactive test programs.
\<close>

section \<open>The HAL as a whole\<close>



text \<open>C10: a polling call that returns has between one and the requested number of events, never 0, as the
  comment on the function demands; each event is a flush notice or a reading labelled with the handle
  of a sensor and that sensor's type.\<close>

theorem poll_answers:
  assumes "header_ok H" and "reachable H s" and "step H s a (Some (r, evs)) s'"
    and "a = Poll n \<and> 0 < n \<or> (\<exists>c b. a = Resume c \<and> pc s = Got n b)"
  shows "1 \<le> r \<and> r \<le> n \<and> r = int (length evs) \<and> list_all (event_ok H) evs"
proof -
  from assms(3) have "env_ok a s" "exec H a s = ok (s', Some (r, evs))" by (auto elim: stepE)
  with exec_good [OF assms(1) reachable_inv [OF assms(1,2)], of a] have "answer_ok H a s (Some (r, evs))" by simp
  with assms(4) show ?thesis by auto
qed

theorem poll_answers_witness:
  "\<exists>s r evs s'. step aosp_h s (Poll 4) (Some (r, evs)) s' \<and> 1 \<le> r \<and> r \<le> 4 \<and> list_all (event_ok aosp_h) evs"
proof -
  obtain s r evs s' where "step aosp_h s (Poll 4) (Some (r, evs)) s'" "reachable aosp_h s" by (rule demo_flushed)
  with poll_answers [OF aosp_header_ok this(2,1), of 4] show ?thesis by auto
qed

section \<open>Where the threads get in each other's way\<close>

text \<open>C35: a flush that arrives while the polling thread holds a message of the same sensor is answered with
  success, but its notice is never delivered: the message overwrites the slot, the call returns the
  reading only, and no notice is left in the device.\<close>

theorem flush_notice_lost:
  assumes "header_ok H" and "reachable H s" and "pc s = Got n buf" and "m_pending_sensors (dev s) = 0"
    and "h < MAX_NUM_SENSORS" and "h \<noteq> 5" and "aic_type (decode_msg H buf) = type_list H ! h"
  shows "\<exists>s' e. exec_all H [Flush (int h), Resume clock] s = ok (s', [Some (0, []), Some (1, [e])]) \<and>
    \<not> is_notice H e \<and> notices H (dev s') = 0"
proof -
  from reachable_inv [OF assms(1,2)] have inv: "hal_inv H s" and d: "dev_inv H (dev s)" by (simp_all add: hal_inv_def)
  have slots: "slots_ok H (m_pending_sensors (dev s)) (m_sensors (dev s))" using d by (simp add: dev_inv_def)
  have nm: "ev_type (m_sensors (dev s) ! h) \<noteq> SENSOR_TYPE_META_DATA H" using slots_ok_nth(2) [OF slots assms(5)] assms(4) by auto
  then obtain d1 where fl: "sensor_device_flush H (int h) (dev s) = ok (0, d1)" "m_pending_sensors d1 = 2 ^ h"
    using flush_eq [OF d assms(5)] assms(4) by auto
  have inv1: "hal_inv H (s\<lparr>dev := d1\<rparr>)" using inv flush_inv [OF d assms(5) fl(1)] by (simp add: hal_inv_def)
  have h32: "h < 32" using assms(5) by (simp add: MAX_NUM_SENSORS_def)
  from resume_delivers [OF assms(1) inv1, of n buf h "decode_msg H buf" clock] assms(3,5-7) fl(2) bits_of_single [OF h32]
  obtain s' where r: "exec H (Resume clock) (s\<lparr>dev := d1\<rparr>) = ok (s', Some (1, [delivered H clock h (decode_msg H buf) d1]))"
    "hal_inv H s'" "m_pending_sensors (dev s') = 0" by auto
  have "type_list H ! h \<in> set (type_list H)" using assms(5) by simp
  then have "\<not> is_notice H (delivered H clock h (decode_msg H buf) d1)"
    using header_ok_type(3) [OF assms(1)] assms(7) by (simp add: is_notice_def delivered_def reading_def)
  moreover have "notices H (dev s') = 0" using r(3) by (simp add: notices_def slot_of_def)
  moreover have "exec_all H [Flush (int h), Resume clock] s = ok (s', [Some (0, []), Some (1, [delivered H clock h (decode_msg H buf) d1])])"
    using fl(1) r(1) by simp
  ultimately show ?thesis by blast
qed

theorem flush_notice_lost_witness:
  "\<exists>s s' e. reachable aosp_h s \<and> exec_all aosp_h [Flush (int 0), Resume (1, 0)] s = ok (s', [Some (0, []), Some (1, [e])]) \<and>
    \<not> is_notice aosp_h e \<and> notices aosp_h (dev s') = 0"
proof -
  obtain s buf where s: "reachable aosp_h s" "pc s = Got 4 buf" "m_pending_sensors (dev s) = 0" "decode_msg aosp_h buf = acc_msg"
    using demo_got_reachable .
  from flush_notice_lost [OF aosp_header_ok s(1-3), of 0 "(1, 0)"] s(1,4) show ?thesis
    by (auto simp: MAX_NUM_SENSORS_def simp del: exec_all.simps)
qed

section \<open>The module\<close>

text \<open>C25: the list of sensors reported to the framework has as many entries as announced, one for each of
  the nine handles; every entry's handle and type are what the lookup functions of the device say of
  each other, and its delays are a proper range.\<close>

theorem sensor_list_consistent:
  assumes "header_ok H"
  shows "(case list_method (HAL_MODULE_INFO_SYM H F) of (n, l) \<Rightarrow> n = int (length l) \<and> distinct (map s_handle l) \<and>
      (\<forall>h < MAX_NUM_SENSORS. int h \<in> set (map s_handle l)) \<and>
      (\<forall>e \<in> set l. get_type_from_hanle H (s_handle e) = s_type e \<and> get_handle_from_type H (s_type e) = s_handle e \<and>
        0 < s_minDelay e \<and> s_minDelay e \<le> s_maxDelay e))"
proof -
  have "get_type_from_hanle H (s_handle e) = s_type e \<and> get_handle_from_type H (s_type e) = s_handle e \<and>
      0 < s_minDelay e \<and> s_minDelay e \<le> s_maxDelay e" if "e \<in> set (sSensorListInit H F)" for e
    using sensor_list_lookup [OF assms that] by simp
  with sensor_list_handles [OF assms] show ?thesis by (simp add: HAL_MODULE_INFO_SYM_def get_sensors_list_def)
qed

theorem sensor_list_consistent_witness:
  "fst (list_method (HAL_MODULE_INFO_SYM aosp_h aosp_module_h)) = int (length (snd (list_method (HAL_MODULE_INFO_SYM aosp_h aosp_module_h))))"
  using sensor_list_consistent [OF aosp_header_ok, of aosp_module_h] by (simp add: split_beta)

text \<open>Properties as an installation has them: a UNIX socket, and a logging interval or none.\<close>

definition demo_props :: "string \<Rightarrow> props" where
  "demo_props trace = \<lparr>prop_port = [], prop_sock_type = [], prop_log_trace = trace, prop_container_id = ''0'', env_k8s = None\<rparr>"

definition demo_open_kern :: kern where
  "demo_open_kern = kern_sys [ans 3 [] 0, ans (-1) [] 0, ans 0 [] 0, ans 0 [] 0, ans 0 [] 0, ans 0 [] 0, ans 0 [] 0]"

lemma demo_open_run:
  "\<exists>s k'. open_sensors aosp_h aosp_module_h (demo_props trace) (replicate MAX_NUM_SENSORS demo_slot) \<lparr>next_ptr = 0, objs = Map.empty\<rparr> ''poll'' demo_open_kern
     = ok (0, Some s, k')"
  by (simp add: open_sensors_def SensorDevice_construct_def SockServer_start_def sock_server_init_def sock_server_init_unix_def
      sock_server_init_listen_def SockServer_new_def read_sock_type_def demo_props_def demo_open_kern_def aosp_module_h_def
      sys_def Let_def unix_sock_path_def SUN_PATH_SIZE_def kern_sys_def kern0_def
      SOCK_CONN_TYPE_UNIX_SOCK_def SOCK_CONN_TYPE_INET_SOCK_def AF_UNIX_def AF_INET_def)



text \<open>C38: a logging interval that is 0, or not a number at all, is taken as it is: the first message of a
  supported type then divides by zero.\<close>

theorem trace_zero_crash:
  assumes "header_ok H" and "open_sensors H F ps junk hp name k = ok (status, Some s, k')" and "length junk = MAX_NUM_SENSORS"
    and "prop_log_trace ps \<noteq> []" and "atoi (prop_log_trace ps) = 0"
    and "length buf = MSG_BUF_SIZE" and "aic_type (decode_msg H buf) \<in> set (type_list H)"
  shows "process_msg H clock buf (dev s) = fault Div_By_Zero"
proof -
  from assms(2) obtain ss where s: "s = hal_init H junk (read_trace ps) ss"
    by (auto simp: open_sensors_def SensorDevice_construct_def bindr_eq_ok split: if_splits)
  have d: "length (m_sensors (dev s)) = MAX_NUM_SENSORS" "length (sensor_data_count (dev s)) = MAX_NUM_SENSORS"
    "m_log_trace_count (dev s) = 0"
    using assms(3-5) by (simp_all add: s hal_init_def SensorDevice_new_def read_trace_def)
  from assms(7) obtain h where h: "h < MAX_NUM_SENSORS" "aic_type (decode_msg H buf) = type_list H ! h"
    by (auto simp: in_set_conv_nth)
  show ?thesis by (rule process_msg_trace_zero [OF assms(1) d(1,2) h(1) assms(6) h(2) d(3)])
qed

theorem trace_zero_crash_witness:
  "\<exists>s k'. open_sensors aosp_h aosp_module_h (demo_props ''off'') (replicate MAX_NUM_SENSORS demo_slot) \<lparr>next_ptr = 0, objs = Map.empty\<rparr> ''poll'' demo_open_kern
     = ok (0, Some s, k') \<and> process_msg aosp_h (1, 0) (msg_buf acc_msg) (dev s) = fault Div_By_Zero"
proof -
  obtain s k' where run: "open_sensors aosp_h aosp_module_h (demo_props ''off'') (replicate MAX_NUM_SENSORS demo_slot) \<lparr>next_ptr = 0, objs = Map.empty\<rparr> ''poll'' demo_open_kern
     = ok (0, Some s, k')" using demo_open_run by blast
  have "atoi ''off'' = 0" by (simp add: atoi_def is_blank_def)
  with trace_zero_crash [OF aosp_header_ok run, of "msg_buf acc_msg" "(1, 0)"] run show ?thesis
    by (simp add: demo_props_def MAX_NUM_SENSORS_def)
qed

text \<open>C26: closing the device closes the listening socket and the descriptor of every client, each as often
  as it stands in the tables, and no other descriptor.\<close>

theorem close_closes_descriptors:
  assumes "sensor_close s k = ok (r, k')" and "m_server (srv s) = Some sv" and "fd \<noteq> -1"
  shows "r = 0 \<and> closes fd k' = closes fd k + (if fd = socketfd sv then 1 else 0) + count_list (client_slots sv) fd"
  using sensor_close_closes [OF assms] by blast

theorem close_closes_descriptors_witness:
  "\<exists>k'. sensor_close demo_hal (kern_sys [ans 0 [] 0]) = ok (0, k') \<and> closes 3 k' = 1 + count_list (client_slots demo_sv) 3"
proof -
  have "srv_type demo_sv = SOCK_CONN_TYPE_UNIX_SOCK" by (simp add: demo_sv_def)
  moreover have "sysq (close_slots fds k) = sysq k" for fds k by (induction fds arbitrary: k) simp_all
  ultimately obtain k' where run: "sensor_close demo_hal (kern_sys [ans 0 [] 0]) = ok (0, k')"
    by (simp add: sensor_close_def SensorDevice_delete_def SockServer_delete_def SockServer_stop_def Let_def sock_server_close_def sys_def)
  from close_closes_descriptors [OF run, of demo_sv 3] run show ?thesis by (simp add: closes_def)
qed

end
